(* ===== verification/Prelude.thy ===== *)
theory Prelude
  imports Complex_Main "HOL-Library.Word"
begin

text \<open>
  The shared ground of the development: the crate's error type (\<open>src/src/error.rs\<close>),
  results as sums, Rust's checked, saturating and wrapping arithmetic on \<open>usize\<close> and
  \<open>u64\<close> (both 64 bits wide on the targets the crate supports), the slice operations the
  code uses (\<open>position\<close>, \<open>as_chunks\<close>, sub-slices) and little-endian integers.

  A \<open>usize\<close> or \<open>u64\<close> value is a \<^typ>\<open>nat\<close>; wherever the code can pass the width,
  the operation says what happens (saturate, fail, wrap).
\<close>

type_synonym byte = "8 word"
type_synonym bytes = "byte list"

named_theorems norm_simps \<open>unfoldings that evaluate closed terms of the model\<close>

section \<open>Errors and results\<close>

text \<open>
  The error codes of the vendor's interface (\<open>SdkError\<close> of \<open>native_sdk.rs\<close>),
  which the crate's own error carries.
\<close>

datatype sdk_error =
    SdkNotInitialized
  | SdkNotFound
  | SdkBusy
  | SdkNotOpen
  | SdkNotConnected
  | SdkInvalidConfig
  | SdkBufferSize
  | SdkInvalidChannel
  | SdkInvalidParameter
  | SdkInvalidSize
  | SdkMissingPathsFile
  | SdkValueInvalid
  | SdkValueMalformed
  | SdkGeneric
  | SdkUnknown "32 word"

text \<open>
  One constructor per variant of \<open>Error\<close>. The text of a message is kept up to its first
  interpolated value: what a caller can act on is the variant.
\<close>

datatype error =
    Http nat string
  | Transport string
  | Protocol string
  | StreamClosed string
  | FileFormat nat string
  | SdkNotInstalled
  | SdkLoader string
  | SdkApi string sdk_error
  | DeviceNotFound "string option" "string list"
  | DeviceNotReady string
  | Sdk string
  | NotLicensed
  | Io string
  | Config string
  | Initialization string

type_synonym 'a result = "error + 'a"

abbreviation Ok :: "'a \<Rightarrow> 'a result" where "Ok \<equiv> Inr"
abbreviation Err :: "error \<Rightarrow> 'a result" where "Err \<equiv> Inl"

text \<open>The question mark operator: stop at the first error.\<close>

definition bind_result :: "'a result \<Rightarrow> ('a \<Rightarrow> 'b result) \<Rightarrow> 'b result" where
  "bind_result r f = (case r of Inl e \<Rightarrow> Inl e | Inr a \<Rightarrow> f a)"

lemma bind_result_simps [simp]:
  "bind_result (Inl e) f = Inl e"
  "bind_result (Inr a) f = f a"
  by (simp_all add: bind_result_def)

lemma bind_result_Ok [simp]:
  "bind_result r f = Inr b \<longleftrightarrow> (\<exists>a. r = Inr a \<and> f a = Inr b)"
  by (cases r) auto

definition is_ok :: "'a result \<Rightarrow> bool" where
  "is_ok r = (case r of Inl e \<Rightarrow> False | Inr a \<Rightarrow> True)"

lemma is_ok_simps [simp]: "is_ok (Inr a)" "\<not> is_ok (Inl e)"
  by (simp_all add: is_ok_def)

section \<open>Machine integers\<close>

definition USIZE_MAX :: nat where "USIZE_MAX = 2 ^ 64 - 1"

definition sat_add :: "nat \<Rightarrow> nat \<Rightarrow> nat" where
  "sat_add a b = min (a + b) USIZE_MAX"

definition sat_mul :: "nat \<Rightarrow> nat \<Rightarrow> nat" where
  "sat_mul a b = min (a * b) USIZE_MAX"

definition wrap_add :: "nat \<Rightarrow> nat \<Rightarrow> nat" where
  "wrap_add a b = (a + b) mod 2 ^ 64"

definition checked_add :: "nat \<Rightarrow> nat \<Rightarrow> nat option" where
  "checked_add a b = (if a + b \<le> USIZE_MAX then Some (a + b) else None)"

definition checked_mul :: "nat \<Rightarrow> nat \<Rightarrow> nat option" where
  "checked_mul a b = (if a * b \<le> USIZE_MAX then Some (a * b) else None)"

definition div_ceil :: "nat \<Rightarrow> nat \<Rightarrow> nat" where
  "div_ceil a b = (a + b - 1) div b"

lemma sat_add_le [simp]: "sat_add a b \<le> USIZE_MAX"
  by (simp add: sat_add_def)

lemma sat_mul_le [simp]: "sat_mul a b \<le> USIZE_MAX"
  by (simp add: sat_mul_def)

lemma sat_add_eq: "a + b \<le> USIZE_MAX \<Longrightarrow> sat_add a b = a + b"
  by (simp add: sat_add_def)

lemma sat_mul_eq: "a * b \<le> USIZE_MAX \<Longrightarrow> sat_mul a b = a * b"
  by (simp add: sat_mul_def)

lemma sat_add_mono: "a \<le> a' \<Longrightarrow> b \<le> b' \<Longrightarrow> sat_add a b \<le> sat_add a' b'"
  by (auto simp: sat_add_def)

lemma sat_mul_mono: "a \<le> a' \<Longrightarrow> b \<le> b' \<Longrightarrow> sat_mul a b \<le> sat_mul a' b'"
  by (auto simp: sat_mul_def min_def intro: le_trans mult_le_mono)

lemma le_sat_add1: "a \<le> USIZE_MAX \<Longrightarrow> a \<le> sat_add a b"
  by (simp add: sat_add_def)

lemma le_sat_add2: "b \<le> USIZE_MAX \<Longrightarrow> b \<le> sat_add a b"
  by (simp add: sat_add_def)

lemma wrap_add_eq: "a + b \<le> USIZE_MAX \<Longrightarrow> wrap_add a b = a + b"
  by (simp add: wrap_add_def USIZE_MAX_def)

lemma checked_mul_Some [simp]:
  "checked_mul a b = Some n \<longleftrightarrow> n = a * b \<and> a * b \<le> USIZE_MAX"
  by (auto simp: checked_mul_def)

lemma checked_add_Some [simp]:
  "checked_add a b = Some n \<longleftrightarrow> n = a + b \<and> a + b \<le> USIZE_MAX"
  by (auto simp: checked_add_def)

lemma div_ceil_bounds: "0 < b \<Longrightarrow> a \<le> div_ceil a b * b"
proof -
  assume b: "0 < b"
  have "a + b - 1 < (a + b - 1) div b * b + b"
    using b by (metis add.commute dividend_less_times_div mult.commute)
  then show ?thesis using b by (simp add: div_ceil_def)
qed

section \<open>Slices\<close>

fun position :: "('a \<Rightarrow> bool) \<Rightarrow> 'a list \<Rightarrow> nat option" where
  "position p [] = None"
| "position p (x # xs) = (if p x then Some 0 else map_option Suc (position p xs))"

lemma find_unique:
  "t \<in> set xs \<Longrightarrow> P t \<Longrightarrow> (\<And>u. u \<in> set xs \<Longrightarrow> P u \<Longrightarrow> u = t) \<Longrightarrow> find P xs = Some t"
proof (induction xs)
  case Nil
  then show ?case by simp
next
  case (Cons x xs)
  show ?case
  proof (cases "P x")
    case True
    then have "x = t" using Cons.prems(3) by simp
    with True show ?thesis by simp
  next
    case False
    have "t \<in> set xs" using Cons.prems(1,2) False by auto
    then have "find P xs = Some t"
      by (rule Cons.IH) (rule Cons.prems(2), rule Cons.prems(3), simp_all)
    with False show ?thesis by simp
  qed
qed

lemma position_None [simp]: "position p xs = None \<longleftrightarrow> (\<forall>x \<in> set xs. \<not> p x)"
  by (induction xs) auto

lemma position_Some:
  "position p xs = Some i \<longleftrightarrow> i < length xs \<and> p (xs ! i) \<and> (\<forall>j < i. \<not> p (xs ! j))"
proof (induction xs arbitrary: i)
  case Nil
  then show ?case by simp
next
  case (Cons x xs)
  then show ?case by (cases i) (auto simp: less_Suc_eq_0_disj)
qed

lemma position_bound: "position p xs = Some i \<Longrightarrow> i < length xs"
  by (simp add: position_Some)

lemma position_append:
  "position p (xs @ ys) =
     (case position p xs of Some i \<Rightarrow> Some i
      | None \<Rightarrow> map_option (\<lambda>i. length xs + i) (position p ys))"
proof (induction xs)
  case Nil
  show ?case by (cases "position p ys") (simp_all del: position_None)
next
  case (Cons x xs)
  then show ?case
    by (cases "position p xs"; cases "position p ys") (simp_all del: position_None)
qed

text \<open>The sub-slice \<open>xs[i..j]\<close>.\<close>

definition slice :: "nat \<Rightarrow> nat \<Rightarrow> 'a list \<Rightarrow> 'a list" where
  "slice i j xs = take (j - i) (drop i xs)"

lemma length_slice [simp]: "length (slice i j xs) = min (j - i) (length xs - i)"
  by (simp add: slice_def)

lemma slice_append: "j \<le> length xs \<Longrightarrow> slice i j (xs @ ys) = slice i j xs"
  by (cases "i \<le> length xs") (auto simp: slice_def)

lemma slice_drop: "slice i j (drop k xs) = slice (k + i) (k + j) xs"
  by (simp add: slice_def add.commute)

lemma nth_slice: "k < j - i \<Longrightarrow> j \<le> length xs \<Longrightarrow> slice i j xs ! k = xs ! (i + k)"
  by (simp add: slice_def)

text \<open>\<open>as_chunks::<k>().0\<close>: the whole chunks, the remainder left out.\<close>

function as_chunks :: "nat \<Rightarrow> 'a list \<Rightarrow> 'a list list" where
  "as_chunks k xs =
     (if k = 0 \<or> length xs < k then [] else take k xs # as_chunks k (drop k xs))"
  by pat_completeness auto
termination
  by (relation "measure (\<lambda>(k, xs). length xs)") auto

declare as_chunks.simps [simp del]

lemma as_chunks_short [simp]: "length xs < k \<Longrightarrow> as_chunks k xs = []"
  by (simp add: as_chunks.simps)

lemma as_chunks_append:
  "0 < k \<Longrightarrow> length xs = k \<Longrightarrow> as_chunks k (xs @ ys) = xs # as_chunks k ys"
  by (simp add: as_chunks.simps)

lemma length_as_chunks: "0 < k \<Longrightarrow> length (as_chunks k xs) = length xs div k"
proof (induction k xs rule: as_chunks.induct)
  case (1 k xs)
  then show ?case
    by (cases "length xs < k")
       (simp_all add: as_chunks.simps [of k xs] le_div_geq)
qed

lemma in_as_chunks: "c \<in> set (as_chunks k xs) \<Longrightarrow> length c = k"
proof (induction k xs rule: as_chunks.induct)
  case (1 k xs)
  then show ?case by (auto simp: as_chunks.simps [of k xs] split: if_splits)
qed

lemma nth_as_chunks:
  "0 < k \<Longrightarrow> i < length xs div k \<Longrightarrow> as_chunks k xs ! i = take k (drop (i * k) xs)"
proof (induction k xs arbitrary: i rule: as_chunks.induct)
  case (1 k xs)
  have le: "\<not> length xs < k"
    using "1.prems" by (metis div_less not_less0)
  then have c: "as_chunks k xs = take k xs # as_chunks k (drop k xs)"
    using "1.prems"(1) by (simp add: as_chunks.simps [of k xs])
  show ?case
  proof (cases i)
    case 0
    with c show ?thesis by simp
  next
    case (Suc j)
    have "j < length (drop k xs) div k"
      using "1.prems" le Suc by (simp add: le_div_geq)
    with "1.IH" le "1.prems"(1) have "as_chunks k (drop k xs) ! j = take k (drop (j * k) (drop k xs))"
      by simp
    with c Suc show ?thesis by (simp add: add.commute)
  qed
qed

section \<open>Little-endian integers\<close>

fun le_nat :: "bytes \<Rightarrow> nat" where
  "le_nat [] = 0"
| "le_nat (b # bs) = unat b + 256 * le_nat bs"

fun le_bytes :: "nat \<Rightarrow> nat \<Rightarrow> bytes" where
  "le_bytes 0 n = []"
| "le_bytes (Suc k) n = of_nat (n mod 256) # le_bytes k (n div 256)"

lemma length_le_bytes [simp]: "length (le_bytes k n) = k"
  by (induction k arbitrary: n) auto

lemma unat_byte_bound [simp]: "unat (b :: byte) < 256"
proof -
  have "unat b < 2 ^ LENGTH(8)" by (rule unsigned_less)
  then show ?thesis by simp
qed

lemma le_nat_bound: "le_nat bs < 256 ^ length bs"
proof (induction bs)
  case Nil
  then show ?case by simp
next
  case (Cons b bs)
  have "unat b + 256 * le_nat bs < 256 + 256 * le_nat bs" by simp
  also have "\<dots> = 256 * (le_nat bs + 1)" by simp
  also have "\<dots> \<le> 256 * 256 ^ length bs" using Cons.IH by (intro mult_le_mono) auto
  finally show ?case by simp
qed

lemma le_nat_le_bytes: "n < 256 ^ k \<Longrightarrow> le_nat (le_bytes k n) = n"
proof (induction k arbitrary: n)
  case 0
  then show ?case by simp
next
  case (Suc k)
  have "n div 256 < 256 ^ k" using Suc.prems by (simp add: less_mult_imp_div_less mult.commute)
  moreover have "unat (of_nat (n mod 256) :: byte) = n mod 256"
    by (simp add: unat_of_nat)
  ultimately show ?case by (simp add: Suc.IH)
qed

lemma le_bytes_le_nat: "le_bytes (length bs) (le_nat bs) = bs"
proof (induction bs)
  case Nil
  then show ?case by simp
next
  case (Cons b bs)
  have "(unat b + 256 * le_nat bs) mod 256 = unat b" by simp
  moreover have "(unat b + 256 * le_nat bs) div 256 = le_nat bs" by simp
  ultimately show ?case using Cons.IH by simp
qed

text \<open>Two's complement reading of a \<open>w\<close>-bit value, as \<open>i16\<close> and \<open>i32\<close> read theirs.\<close>

definition twos :: "nat \<Rightarrow> nat \<Rightarrow> int" where
  "twos w n = (if n < 2 ^ (w - 1) then int n else int n - 2 ^ w)"

definition untwos :: "nat \<Rightarrow> int \<Rightarrow> nat" where
  "untwos w i = nat (i mod 2 ^ w)"

lemma twos_bounds:
  assumes "n < 2 ^ w" and "0 < w"
  shows "- (2 ^ (w - 1)) \<le> twos w n \<and> twos w n < 2 ^ (w - 1)"
proof -
  have p: "(2 :: int) ^ w = 2 * 2 ^ (w - 1)"
    using assms(2) by (simp flip: power_Suc)
  have n: "int n < 2 ^ w" using assms(1) by (metis of_nat_less_iff of_nat_numeral of_nat_power)
  have c: "(n < 2 ^ (w - 1)) = (int n < 2 ^ (w - 1))"
    by (metis of_nat_less_iff of_nat_numeral of_nat_power)
  have "(0 :: int) \<le> int n" and "(0 :: int) < 2 ^ (w - 1)" by simp_all
  with n p show ?thesis by (simp add: twos_def c)
qed

lemma untwos_twos:
  assumes "n < 2 ^ w"
  shows "untwos w (twos w n) = n"
proof -
  have n: "int n < 2 ^ w" using assms by (metis of_nat_less_iff of_nat_numeral of_nat_power)
  have "(int n - 2 ^ w) mod 2 ^ w = int n mod 2 ^ w" by (rule minus_mod_self2)
  then have "twos w n mod 2 ^ w = int n"
    using n by (simp add: twos_def mod_pos_pos_trivial)
  then show ?thesis by (simp add: untwos_def)
qed

lemma twos_untwos:
  assumes "- (2 ^ (w - 1)) \<le> i" and "i < 2 ^ (w - 1)" and "0 < w"
  shows "twos w (untwos w i) = i"
proof -
  have p: "(2 :: int) ^ w = 2 * 2 ^ (w - 1)"
    using assms(3) by (simp flip: power_Suc)
  have c: "\<And>m. (nat m < 2 ^ (w - 1)) = (m < 2 ^ (w - 1))"
    by (metis nat_less_numeral_power_cancel_iff)
  show ?thesis
  proof (cases "0 \<le> i")
    case True
    then have "i mod 2 ^ w = i" using assms p by (intro mod_pos_pos_trivial) auto
    with True assms show ?thesis by (simp add: twos_def untwos_def c)
  next
    case False
    then have "(i + 2 ^ w) mod 2 ^ w = i + 2 ^ w"
      using assms p by (intro mod_pos_pos_trivial) auto
    then have "i mod 2 ^ w = i + 2 ^ w" by simp
    with False assms p show ?thesis by (simp add: twos_def untwos_def c)
  qed
qed

section \<open>Lists\<close>

lemma sorted_wrt_map_le:
  "sorted (map f xs) \<Longrightarrow> mono g \<Longrightarrow> sorted (map (\<lambda>x. g (f x)) xs)"
  by (induction xs) (auto dest: monoD)

end
