(* ===== verification/Softfloat.thy ===== *)
theory Softfloat
  imports Prelude "HOL-Library.Log_Nat"
begin

text \<open>
  Rust's \<open>f32\<close> and \<open>f64\<close>: IEEE 754 binary floating point with round-to-nearest,
  ties to even. A value is NaN (sign and payload kept, so that a bit copy is exact), a
  signed infinity, or a sign and an exact rational magnitude; arithmetic computes the exact
  result and rounds it once. Everything is executable by \<open>simp\<close>.

  Where Rust leaves a choice open (the bits of a NaN an operation makes, \<open>min\<close> and
  \<open>max\<close> of zeros of different sign) the model makes one choice.
\<close>

section \<open>Formats and values\<close>

datatype fmt = B16 | B32 | B64

fun prec :: "fmt \<Rightarrow> int" where
  "prec B16 = 11"
| "prec B32 = 24"
| "prec B64 = 53"

fun emax :: "fmt \<Rightarrow> int" where
  "emax B16 = 15"
| "emax B32 = 127"
| "emax B64 = 1023"

definition emin :: "fmt \<Rightarrow> int" where "emin f = 1 - emax f"

datatype fl = Fin bool rat | Inf bool | NaN bool nat

type_synonym f32 = fl
type_synonym f64 = fl

definition cnan :: fl where "cnan = NaN False 1"

definition zero :: fl where "zero = Fin False 0"

fun val :: "fl \<Rightarrow> rat" where
  "val (Fin s q) = (if s then - q else q)"
| "val (Inf s) = 0"
| "val (NaN s n) = 0"

fun is_finite :: "fl \<Rightarrow> bool" where
  "is_finite (Fin s q) = True"
| "is_finite (Inf s) = False"
| "is_finite (NaN s n) = False"

fun is_nan :: "fl \<Rightarrow> bool" where
  "is_nan (NaN s n) = True"
| "is_nan (Fin s q) = False"
| "is_nan (Inf s) = False"

fun fneg :: "fl \<Rightarrow> fl" where
  "fneg (Fin s q) = Fin (\<not> s) q"
| "fneg (Inf s) = Inf (\<not> s)"
| "fneg (NaN s n) = NaN (\<not> s) n"

fun fabs :: "fl \<Rightarrow> fl" where
  "fabs (Fin s q) = Fin False q"
| "fabs (Inf s) = Inf False"
| "fabs (NaN s n) = NaN False n"

section \<open>Rounding\<close>

text \<open>The exponent of a positive rational: \<open>2 powi e \<le> q < 2 powi (e + 1)\<close>.\<close>

definition ilog2 :: "rat \<Rightarrow> int" where
  "ilog2 q = (if 1 \<le> q then bitlen \<lfloor>q\<rfloor> - 1 else - bitlen (\<lceil>1 / q\<rceil> - 1))"

text \<open>Nearest integer, ties to even.\<close>

definition rne :: "rat \<Rightarrow> int" where
  "rne q = (let n = \<lfloor>q\<rfloor>; d = q - of_int n in
     if d < 1 / 2 then n else if 1 / 2 < d then n + 1 else if even n then n else n + 1)"

definition ulp_exp :: "fmt \<Rightarrow> rat \<Rightarrow> int" where
  "ulp_exp f q = max (ilog2 q) (emin f) - (prec f - 1)"

definition rnd_mag :: "fmt \<Rightarrow> rat \<Rightarrow> rat" where
  "rnd_mag f q = (if q = 0 then 0 else
     let u = 2 powi (ulp_exp f q) in of_int (rne (q / u)) * u)"

definition rnd :: "fmt \<Rightarrow> bool \<Rightarrow> rat \<Rightarrow> fl" where
  "rnd f s q = (let r = rnd_mag f q in if 2 powi (emax f + 1) \<le> r then Inf s else Fin s r)"

lemma bitlen_simps [simp]:
  "bitlen 0 = 0"
  "bitlen 1 = 1"
  "bitlen (numeral num.One) = 1"
  "bitlen (numeral (num.Bit0 n)) = bitlen (numeral n) + 1"
  "bitlen (numeral (num.Bit1 n)) = bitlen (numeral n) + 1"
proof -
  show "bitlen 0 = 0" "bitlen 1 = 1" "bitlen (numeral num.One) = 1"
    by (simp_all add: compute_bitlen)
  have "numeral (num.Bit0 n) div 2 = (numeral n :: int)" "numeral (num.Bit1 n) div 2 = (numeral n :: int)"
    by simp_all
  then show "bitlen (numeral (num.Bit0 n)) = bitlen (numeral n) + 1"
    "bitlen (numeral (num.Bit1 n)) = bitlen (numeral n) + 1"
    by (simp_all add: compute_bitlen [of "numeral (num.Bit0 n)"]
          compute_bitlen [of "numeral (num.Bit1 n)"])
qed

lemma rat_floor_numerals [simp]:
  "\<lfloor>(1 :: rat) / numeral b\<rfloor> = 1 div numeral b"
  "\<lfloor>numeral a / numeral b :: rat\<rfloor> = numeral a div numeral b"
  "\<lceil>(1 :: rat) / numeral b\<rceil> = - ((- 1) div numeral b)"
  "\<lceil>numeral a / numeral b :: rat\<rceil> = - ((- numeral a) div numeral b)"
  by (metis floor_divide_of_int_eq of_int_1 of_int_numeral,
      metis floor_divide_of_int_eq of_int_numeral,
      metis ceiling_def floor_divide_of_int_eq minus_divide_left of_int_1 of_int_minus of_int_numeral,
      metis ceiling_def floor_divide_of_int_eq minus_divide_left of_int_minus of_int_numeral)

lemmas round_simps = rnd_def rnd_mag_def ulp_exp_def ilog2_def emin_def rne_def Let_def

lemma powi_pos [simp]: "0 < (2 :: rat) powi e"
  by (simp add: power_int_def)

lemma powi_mono: "a \<le> b \<Longrightarrow> (2 :: rat) powi a \<le> 2 powi b"
  by (rule power_int_increasing) auto

lemma powi_strict_mono: "a < b \<Longrightarrow> (2 :: rat) powi a < 2 powi b"
  by (rule power_int_strict_increasing) auto

lemma powi_le_iff: "(2 :: rat) powi a \<le> 2 powi b \<longleftrightarrow> a \<le> b"
  by (meson leI not_le powi_mono powi_strict_mono)

lemma powi_less_iff: "(2 :: rat) powi a < 2 powi b \<longleftrightarrow> a < b"
  by (meson leI not_le powi_mono powi_strict_mono)

lemma powi_add: "(2 :: rat) powi (a + b) = 2 powi a * 2 powi b"
  by (simp add: power_int_add)

lemma powi_diff: "(2 :: rat) powi (a - b) = 2 powi a / 2 powi b"
  by (simp add: power_int_diff)

lemma powi_nonneg_int: "0 \<le> a \<Longrightarrow> (2 :: rat) powi a = of_int (2 ^ nat a)"
  by (simp add: power_int_def)

lemma powi_le_of_int: "0 \<le> a \<Longrightarrow> 2 ^ nat a \<le> k \<Longrightarrow> (2 :: rat) powi a \<le> of_int k"
  by (simp only: powi_nonneg_int of_int_le_iff)

lemma of_int_le_powi: "0 \<le> a \<Longrightarrow> k \<le> 2 ^ nat a \<Longrightarrow> of_int k \<le> (2 :: rat) powi a"
  by (simp only: powi_nonneg_int of_int_le_iff)

lemma of_int_less_powi: "0 \<le> a \<Longrightarrow> k < 2 ^ nat a \<Longrightarrow> of_int k < (2 :: rat) powi a"
  by (simp only: powi_nonneg_int of_int_less_iff)

lemma ilog2_bounds:
  assumes "0 < q"
  shows "2 powi (ilog2 q) \<le> q \<and> q < 2 powi (ilog2 q + 1)"
proof (cases "1 \<le> q")
  case True
  define k where "k = \<lfloor>q\<rfloor>"
  have k: "1 \<le> k" using True by (simp add: k_def)
  have b: "1 \<le> bitlen k" using k by (metis bitlen_nonneg bitlen_eq_zero_iff int_one_le_iff_zero_less le_less zero_less_one_class.zero_le_one not_le)
  have bb: "2 ^ nat (bitlen k - 1) \<le> k \<and> k < 2 ^ nat (bitlen k)"
    using k by (intro bitlen_bounds) simp
  have "(2 :: rat) powi (bitlen k - 1) \<le> of_int k"
    using bb b by (intro powi_le_of_int) auto
  also have "\<dots> \<le> q" by (simp add: k_def)
  finally have lo: "2 powi (bitlen k - 1) \<le> q" .
  have "q < of_int (k + 1)" unfolding k_def by linarith
  also have "\<dots> \<le> of_int (2 ^ nat (bitlen k))" using bb by (subst of_int_le_iff) simp
  also have "\<dots> = 2 powi (bitlen k)" using b by (simp add: powi_nonneg_int)
  finally show ?thesis using lo True by (simp add: ilog2_def k_def)
next
  case False
  define k where "k = \<lceil>1 / q\<rceil> - 1"
  have r: "1 < 1 / q" using False assms by simp
  have k: "1 \<le> k" using r by (simp add: k_def)
  have b: "1 \<le> bitlen k" using k by (metis bitlen_nonneg bitlen_eq_zero_iff int_one_le_iff_zero_less le_less zero_less_one_class.zero_le_one not_le)
  have bb: "2 ^ nat (bitlen k - 1) \<le> k \<and> k < 2 ^ nat (bitlen k)"
    using k by (intro bitlen_bounds) simp
  have "1 / q \<le> of_int (k + 1)" by (simp add: k_def)
  also have "\<dots> \<le> of_int (2 ^ nat (bitlen k))" using bb by (subst of_int_le_iff) simp
  also have "\<dots> = 2 powi (bitlen k)" using b by (simp add: powi_nonneg_int)
  finally have up: "1 / q \<le> 2 powi (bitlen k)" .
  have "(2 :: rat) powi (bitlen k - 1) \<le> of_int k"
    using bb b by (intro powi_le_of_int) auto
  also have "\<dots> < 1 / q" unfolding k_def by linarith
  finally have lo: "2 powi (bitlen k - 1) < 1 / q" .
  have "2 powi (- bitlen k) \<le> q"
    using up assms by (simp add: power_int_minus field_simps)
  moreover have "q < 2 powi (- bitlen k + 1)"
  proof -
    have "2 powi (- bitlen k + 1) * 2 powi (bitlen k - 1) = (1 :: rat)"
      by (simp flip: powi_add)
    moreover have "q * 2 powi (bitlen k - 1) < 1" using lo assms by (simp add: field_simps)
    ultimately show ?thesis by (metis mult_less_cancel_right_pos powi_pos)
  qed
  ultimately show ?thesis using False by (simp add: ilog2_def k_def)
qed

lemma ilog2_unique:
  assumes "2 powi e \<le> q" and "q < 2 powi (e + 1)"
  shows "ilog2 q = e"
proof -
  have "0 < q" using assms(1) powi_pos [of e] by linarith
  from ilog2_bounds [OF this] assms have "(2 :: rat) powi e < 2 powi (ilog2 q + 1)"
    and "(2 :: rat) powi ilog2 q < 2 powi (e + 1)" by linarith+
  then show ?thesis by (simp add: powi_less_iff)
qed

lemma ilog2_mono: "0 < p \<Longrightarrow> p \<le> q \<Longrightarrow> ilog2 p \<le> ilog2 q"
proof -
  assume "0 < p" "p \<le> q"
  then have "(2 :: rat) powi ilog2 p < 2 powi (ilog2 q + 1)"
    using ilog2_bounds [of p] ilog2_bounds [of q] by linarith
  then show ?thesis by (simp add: powi_less_iff)
qed

lemma rne_of_int [simp]: "rne (of_int n) = n"
  by (simp add: rne_def)

lemma rne_bounds: "\<lfloor>q\<rfloor> \<le> rne q \<and> rne q \<le> \<lfloor>q\<rfloor> + 1"
  by (simp add: rne_def Let_def)

lemma rne_mono: "p \<le> q \<Longrightarrow> rne p \<le> rne q"
proof -
  assume pq: "p \<le> q"
  then have "\<lfloor>p\<rfloor> \<le> \<lfloor>q\<rfloor>" by (rule floor_mono)
  show ?thesis
  proof (cases "\<lfloor>p\<rfloor> = \<lfloor>q\<rfloor>")
    case True
    with pq show ?thesis by (auto simp: rne_def Let_def)
  next
    case False
    with \<open>\<lfloor>p\<rfloor> \<le> \<lfloor>q\<rfloor>\<close> have "\<lfloor>p\<rfloor> + 1 \<le> \<lfloor>q\<rfloor>" by linarith
    with rne_bounds [of p] rne_bounds [of q] show ?thesis by linarith
  qed
qed

lemma rne_upper: "0 \<le> a \<Longrightarrow> x \<le> 2 powi a \<Longrightarrow> rne x \<le> 2 ^ nat a"
  by (simp only: powi_nonneg_int) (metis rne_mono rne_of_int)

lemma rne_lower: "0 \<le> a \<Longrightarrow> 2 powi a \<le> x \<Longrightarrow> 2 ^ nat a \<le> rne x"
  by (simp only: powi_nonneg_int) (metis rne_mono rne_of_int)

lemma rne_nonneg: "0 \<le> q \<Longrightarrow> 0 \<le> rne q"
  using rne_mono [of 0 q] rne_of_int [of 0] by simp

lemma rnd_mag_0 [simp]: "rnd_mag f 0 = 0"
  by (simp add: rnd_mag_def)

lemma rnd_mag_nonneg: "0 \<le> q \<Longrightarrow> 0 \<le> rnd_mag f q"
  by (simp add: rnd_mag_def Let_def rne_nonneg)

lemma prec_pos [simp]: "1 < prec f" "0 < prec f" "1 \<le> prec f"
  by (cases f; simp)+

lemma emin_le_emax [simp]: "emin f \<le> emax f"
  by (cases f) (simp_all add: emin_def)

text \<open>
  A value with at most \<open>prec\<close> significant bits above the smallest exponent rounds to itself.
\<close>

lemma rnd_mag_exact:
  assumes n: "0 \<le> n" "n \<le> 2 ^ nat (prec f)" and t: "emin f - (prec f - 1) \<le> t"
  shows "rnd_mag f (of_int n * 2 powi t) = of_int n * 2 powi t"
proof (cases "n = 0")
  case True
  then show ?thesis by simp
next
  case False
  let ?q = "of_int n * (2 :: rat) powi t"
  have q: "0 < ?q" using False n by simp
  have exact: "rnd_mag f (of_int m * 2 powi s) = of_int m * 2 powi s"
    if m: "0 < m" "m < 2 ^ nat (prec f)" and s: "emin f - (prec f - 1) \<le> s" for m s
  proof -
    let ?r = "of_int m * (2 :: rat) powi s"
    have r: "0 < ?r" using m by simp
    have "of_int m < (2 :: rat) powi prec f"
      using m by (intro of_int_less_powi) (auto intro: less_imp_le)
    then have "?r < 2 powi (prec f + s)" by (simp add: powi_add)
    moreover have "2 powi ilog2 ?r \<le> ?r" using ilog2_bounds [OF r] by simp
    ultimately have "ilog2 ?r < prec f + s" using powi_less_iff [of "ilog2 ?r" "prec f + s"] by linarith
    then have le: "ulp_exp f ?r \<le> s" using s by (simp add: ulp_exp_def)
    have "?r / 2 powi ulp_exp f ?r = of_int m * 2 powi (s - ulp_exp f ?r)"
      by (simp add: powi_diff)
    also have "\<dots> = of_int (m * 2 ^ nat (s - ulp_exp f ?r))"
      using le by (simp add: powi_nonneg_int)
    finally have "rne (?r / 2 powi ulp_exp f ?r) = m * 2 ^ nat (s - ulp_exp f ?r)"
      by (metis rne_of_int)
    then have "rnd_mag f ?r = of_int (m * 2 ^ nat (s - ulp_exp f ?r)) * 2 powi ulp_exp f ?r"
      using r by (simp add: rnd_mag_def Let_def)
    also have "\<dots> = of_int m * (2 powi (s - ulp_exp f ?r) * 2 powi ulp_exp f ?r)"
      using le by (simp add: powi_nonneg_int)
    also have "\<dots> = ?r" by (simp flip: powi_add)
    finally show ?thesis .
  qed
  show ?thesis
  proof (cases "n = 2 ^ nat (prec f)")
    case True
    have "(2 :: rat) powi (prec f - 1 + 1) * 2 powi t = 2 powi (prec f - 1) * 2 powi (t + 1)"
      by (simp only: powi_add [symmetric]) (simp add: algebra_simps)
    then have "?q = of_int (2 ^ nat (prec f - 1)) * 2 powi (t + 1)"
      using True by (simp add: powi_nonneg_int [of "prec f"] powi_nonneg_int [of "prec f - 1"] less_imp_le)
    moreover have "(2 :: int) ^ nat (prec f - 1) < 2 ^ nat (prec f)"
      by (rule power_strict_increasing) (simp_all add: nat_less_eq_zless)
    ultimately show ?thesis using exact [of "2 ^ nat (prec f - 1)" "t + 1"] t by simp
  next
    case False
    with n \<open>n \<noteq> 0\<close> t show ?thesis by (intro exact) auto
  qed
qed

text \<open>A rounded magnitude has the shape \<open>rnd_mag_exact\<close> asks for.\<close>

lemma rnd_mag_shape:
  assumes "0 \<le> q"
  obtains n t where "rnd_mag f q = of_int n * 2 powi t" "0 \<le> n" "n \<le> 2 ^ nat (prec f)"
    "emin f - (prec f - 1) \<le> t"
proof (cases "q = 0")
  case True
  show ?thesis
    by (rule that [of 0 "emin f"]) (simp_all add: True)
next
  case False
  with assms have q: "0 < q" by simp
  let ?u = "2 powi ulp_exp f q :: rat"
  have "q < 2 powi (ilog2 q + 1)" using ilog2_bounds [OF q] by simp
  also have "\<dots> \<le> 2 powi (prec f + ulp_exp f q)" by (rule powi_mono) (simp add: ulp_exp_def)
  finally have "q / ?u \<le> 2 powi prec f" by (simp add: powi_add field_simps)
  then have "rne (q / ?u) \<le> 2 ^ nat (prec f)" by (intro rne_upper) (auto intro: less_imp_le)
  with q show ?thesis
    by (intro that [of "rne (q / ?u)" "ulp_exp f q"])
       (simp_all add: rnd_mag_def Let_def rne_nonneg ulp_exp_def)
qed

lemma rnd_mag_idem: "0 \<le> q \<Longrightarrow> rnd_mag f (rnd_mag f q) = rnd_mag f q"
  by (rule rnd_mag_shape [of q f]) (simp_all add: rnd_mag_exact)

text \<open>Rounding is monotone: the fact every comparison of computed figures rests on.\<close>

lemma rnd_mag_mono:
  assumes "0 \<le> p" and "p \<le> q"
  shows "rnd_mag f p \<le> rnd_mag f q"
proof (cases "p = 0")
  case True
  with assms show ?thesis by (simp add: rnd_mag_nonneg)
next
  case False
  then have p: "0 < p" and q: "0 < q" using assms by auto
  let ?E = "\<lambda>x. max (ilog2 x) (emin f)"
  have E: "?E p \<le> ?E q" using ilog2_mono [OF p assms(2)] by simp
  show ?thesis
  proof (cases "?E p = ?E q")
    case True
    then have "ulp_exp f p = ulp_exp f q" by (simp add: ulp_exp_def)
    moreover have "rne (p / 2 powi ulp_exp f q) \<le> rne (q / 2 powi ulp_exp f q)"
      using assms by (intro rne_mono divide_right_mono) (auto intro: less_imp_le)
    ultimately show ?thesis using p q by (simp add: rnd_mag_def Let_def)
  next
    case False
    with E have lt: "?E p + 1 \<le> ?E q" by linarith
    then have Eq: "?E q = ilog2 q" by (auto simp: max_def split: if_splits)
    let ?up = "2 powi ulp_exp f p :: rat" and ?uq = "2 powi ulp_exp f q :: rat"
    have "p < 2 powi (ilog2 p + 1)" using ilog2_bounds [OF p] by simp
    also have "\<dots> \<le> 2 powi (prec f + ulp_exp f p)" by (rule powi_mono) (simp add: ulp_exp_def)
    finally have "p / ?up \<le> 2 powi prec f" by (simp add: powi_add field_simps)
    then have "rne (p / ?up) \<le> 2 ^ nat (prec f)" by (intro rne_upper) (auto intro: less_imp_le)
    then have "of_int (rne (p / ?up)) \<le> (2 :: rat) powi prec f"
      by (intro of_int_le_powi) (auto intro: less_imp_le)
    then have "rnd_mag f p \<le> 2 powi prec f * ?up"
      using p by (simp add: rnd_mag_def Let_def mult_right_mono less_imp_le)
    also have "\<dots> = 2 powi (?E p + 1)" by (simp add: ulp_exp_def flip: powi_add)
    also have "\<dots> \<le> 2 powi (?E q)" using lt by (rule powi_mono)
    also have "\<dots> = 2 powi (prec f - 1) * ?uq" by (simp add: ulp_exp_def flip: powi_add)
    also have "\<dots> \<le> rnd_mag f q"
    proof -
      have "2 powi (prec f - 1) * ?uq = (2 :: rat) powi (?E q)"
        by (simp add: ulp_exp_def flip: powi_add)
      also have "\<dots> \<le> q" using ilog2_bounds [OF q] Eq by simp
      finally have "2 powi (prec f - 1) \<le> q / ?uq" by (simp add: field_simps)
      then have "2 ^ nat (prec f - 1) \<le> rne (q / ?uq)" by (intro rne_lower) auto
      then have "(2 :: rat) powi (prec f - 1) \<le> of_int (rne (q / ?uq))"
        by (intro powi_le_of_int) auto
      then show ?thesis using q by (simp add: rnd_mag_def Let_def mult_right_mono less_imp_le)
    qed
    finally show ?thesis .
  qed
qed

text \<open>Rounding moves a value by at most half a unit in the last place.\<close>

lemma rne_error: "\<bar>of_int (rne x) - x\<bar> \<le> 1 / 2"
  unfolding rne_def Let_def by (auto simp: abs_if) linarith+

lemma rnd_mag_error:
  assumes "0 \<le> q"
  shows "\<bar>rnd_mag f q - q\<bar> \<le> 2 powi ulp_exp f q / 2"
proof (cases "q = 0")
  case True
  then show ?thesis using powi_pos [of "ulp_exp f 0"] by simp
next
  case False
  let ?u = "2 powi ulp_exp f q :: rat"
  have "rnd_mag f q - q = (of_int (rne (q / ?u)) - q / ?u) * ?u"
    using False by (simp add: rnd_mag_def Let_def left_diff_distrib)
  then have "\<bar>rnd_mag f q - q\<bar> = \<bar>of_int (rne (q / ?u)) - q / ?u\<bar> * ?u"
    by (simp add: abs_mult)
  also have "\<dots> \<le> 1 / 2 * ?u" by (intro mult_right_mono rne_error) (simp add: less_imp_le)
  finally show ?thesis by simp
qed

text \<open>The fractional part of a representable value is representable.\<close>

lemma rnd_mag_frac:
  assumes "0 \<le> q" and "rnd_mag f q = q"
  shows "rnd_mag f (q - of_int \<lfloor>q\<rfloor>) = q - of_int \<lfloor>q\<rfloor>"
proof -
  obtain n t where nt: "q = of_int n * 2 powi t" "0 \<le> n" "n \<le> 2 ^ nat (prec f)"
    "emin f - (prec f - 1) \<le> t"
    using rnd_mag_shape [OF assms(1), of f] assms(2) by metis
  show ?thesis
  proof (cases "0 \<le> t")
    case True
    then have q: "q = of_int (n * 2 ^ nat t)" using nt(1) by (simp add: powi_nonneg_int)
    then have "\<lfloor>q\<rfloor> = n * 2 ^ nat t" by (metis floor_of_int)
    with q show ?thesis by simp
  next
    case False
    define d :: int where "d = 2 ^ nat (- t)"
    have d: "0 < d" by (simp add: d_def)
    have t2: "(2 :: rat) powi t = 1 / of_int d"
      using False by (simp add: d_def power_int_def power_one_over)
    then have q: "q = of_int n / of_int d" using nt(1) by simp
    then have fl: "\<lfloor>q\<rfloor> = n div d" by (simp add: floor_divide_of_int_eq)
    have "of_int n = of_int (n div d) * of_int d + (of_int (n mod d) :: rat)"
      by (metis of_int_add of_int_mult div_mult_mod_eq)
    then have "q - of_int \<lfloor>q\<rfloor> = of_int (n mod d) / of_int d"
      using d q fl by (simp add: field_simps)
    then have "q - of_int \<lfloor>q\<rfloor> = of_int (n mod d) * 2 powi t"
      using t2 by simp
    moreover have "0 \<le> n mod d" "n mod d \<le> 2 ^ nat (prec f)"
      using d nt(2,3) zmod_le_nonneg_dividend [of n d] by simp_all
    ultimately show ?thesis using rnd_mag_exact [of "n mod d" f t] nt(4) by simp
  qed
qed

section \<open>Well-formed values\<close>

fun wf :: "fmt \<Rightarrow> fl \<Rightarrow> bool" where
  "wf f (Fin s q) = (0 \<le> q \<and> rnd_mag f q = q \<and> q < 2 powi (emax f + 1))"
| "wf f (Inf s) = True"
| "wf f (NaN s n) = (0 < n \<and> n < 2 ^ nat (prec f - 1))"

lemma wf_rnd [simp]: "0 \<le> q \<Longrightarrow> wf f (rnd f s q)"
  by (simp add: rnd_def Let_def rnd_mag_nonneg rnd_mag_idem)

lemma wf_cnan [simp]: "wf f cnan"
  by (cases f) (simp_all add: cnan_def)

lemma wf_zero [simp]: "wf f (Fin s 0)" "wf f zero"
  by (simp_all add: zero_def)

lemma wf_fneg [simp]: "wf f (fneg x) = wf f x"
  by (cases x) auto

lemma wf_fabs [simp]: "wf f x \<Longrightarrow> wf f (fabs x)"
  by (cases x) auto

lemma rnd_exact: "wf f (Fin s q) \<Longrightarrow> rnd f t q = Fin t q"
  by (simp add: rnd_def)

lemma rnd_finite:
  "is_finite (rnd f s q) \<Longrightarrow> rnd f s q = Fin s (rnd_mag f q)"
  by (auto simp: rnd_def Let_def)

lemma rnd_le_finite:
  assumes "0 \<le> p" "p \<le> q" "wf f (Fin s q)"
  shows "rnd f t p = Fin t (rnd_mag f p)" "rnd_mag f p \<le> q"
proof -
  have "rnd_mag f p \<le> rnd_mag f q" using assms by (intro rnd_mag_mono)
  with assms(3) show "rnd_mag f p \<le> q" by simp
  with assms(3) show "rnd f t p = Fin t (rnd_mag f p)" by (auto simp: rnd_def Let_def)
qed

section \<open>Arithmetic\<close>

text \<open>The exact result, rounded once, with the sign of the value.\<close>

definition rnds :: "fmt \<Rightarrow> rat \<Rightarrow> fl" where
  "rnds f v = rnd f (v < 0) \<bar>v\<bar>"

fun fadd :: "fmt \<Rightarrow> fl \<Rightarrow> fl \<Rightarrow> fl" where
  "fadd f (NaN s n) y = cnan"
| "fadd f x (NaN s n) = cnan"
| "fadd f (Inf s) (Inf t) = (if s = t then Inf s else cnan)"
| "fadd f (Inf s) y = Inf s"
| "fadd f x (Inf t) = Inf t"
| "fadd f (Fin s p) (Fin t q) =
     (let v = val (Fin s p) + val (Fin t q)
      in if v = 0 then Fin (s \<and> t) 0 else rnds f v)"

definition fsub :: "fmt \<Rightarrow> fl \<Rightarrow> fl \<Rightarrow> fl" where
  "fsub f x y = fadd f x (fneg y)"

fun fmul :: "fmt \<Rightarrow> fl \<Rightarrow> fl \<Rightarrow> fl" where
  "fmul f (NaN s n) y = cnan"
| "fmul f x (NaN s n) = cnan"
| "fmul f (Inf s) (Inf t) = Inf (s \<noteq> t)"
| "fmul f (Inf s) (Fin t q) = (if q = 0 then cnan else Inf (s \<noteq> t))"
| "fmul f (Fin s p) (Inf t) = (if p = 0 then cnan else Inf (s \<noteq> t))"
| "fmul f (Fin s p) (Fin t q) = rnd f (s \<noteq> t) (p * q)"

fun fdiv :: "fmt \<Rightarrow> fl \<Rightarrow> fl \<Rightarrow> fl" where
  "fdiv f (NaN s n) y = cnan"
| "fdiv f x (NaN s n) = cnan"
| "fdiv f (Inf s) (Inf t) = cnan"
| "fdiv f (Inf s) (Fin t q) = Inf (s \<noteq> t)"
| "fdiv f (Fin s p) (Inf t) = Fin (s \<noteq> t) 0"
| "fdiv f (Fin s p) (Fin t q) =
     (if q = 0 then (if p = 0 then cnan else Inf (s \<noteq> t)) else rnd f (s \<noteq> t) (p / q))"

section \<open>Comparison\<close>

fun flt :: "fl \<Rightarrow> fl \<Rightarrow> bool" where
  "flt (NaN s n) y = False"
| "flt x (NaN s n) = False"
| "flt (Inf s) (Inf t) = (s \<and> \<not> t)"
| "flt (Inf s) (Fin t q) = s"
| "flt (Fin s p) (Inf t) = (\<not> t)"
| "flt (Fin s p) (Fin t q) = (val (Fin s p) < val (Fin t q))"

fun feq :: "fl \<Rightarrow> fl \<Rightarrow> bool" where
  "feq (NaN s n) y = False"
| "feq x (NaN s n) = False"
| "feq (Inf s) (Inf t) = (s = t)"
| "feq (Inf s) (Fin t q) = False"
| "feq (Fin s p) (Inf t) = False"
| "feq (Fin s p) (Fin t q) = (val (Fin s p) = val (Fin t q))"

definition fle :: "fl \<Rightarrow> fl \<Rightarrow> bool" where
  "fle x y = (flt x y \<or> feq x y)"

text \<open>\<open>f64::min\<close> and \<open>f64::max\<close>: a NaN operand is ignored.\<close>

definition fmin :: "fl \<Rightarrow> fl \<Rightarrow> fl" where
  "fmin x y = (if is_nan x then y else if is_nan y then x else if flt y x then y else x)"

definition fmax :: "fl \<Rightarrow> fl \<Rightarrow> fl" where
  "fmax x y = (if is_nan x then y else if is_nan y then x else if flt x y then y else x)"

lemma fle_simps [simp]:
  "fle (NaN s n) y = False"
  "fle x (NaN s n) = False"
  "fle (Inf s) (Inf t) = (t \<longrightarrow> s)"
  "fle (Inf s) (Fin t q) = s"
  "fle (Fin s p) (Inf t) = (\<not> t)"
  "fle (Fin s p) (Fin t q) = (val (Fin s p) \<le> val (Fin t q))"
  by (cases x; auto simp: fle_def)+

lemma fle_refl [simp]: "\<not> is_nan x \<Longrightarrow> fle x x"
  by (cases x) auto

lemma fle_trans: "fle x y \<Longrightarrow> fle y z \<Longrightarrow> fle x z"
  by (cases x; cases y; cases z) auto

lemma flt_fle_trans: "flt x y \<Longrightarrow> fle y z \<Longrightarrow> flt x z"
  by (cases x; cases y; cases z) (auto split: if_splits)

lemma fle_flt_trans: "fle x y \<Longrightarrow> flt y z \<Longrightarrow> flt x z"
  by (cases x; cases y; cases z) (auto split: if_splits)

lemma flt_imp_fle: "flt x y \<Longrightarrow> fle x y"
  by (simp add: fle_def)

lemma not_flt: "\<not> is_nan x \<Longrightarrow> \<not> is_nan y \<Longrightarrow> \<not> flt x y \<longleftrightarrow> fle y x"
  by (cases x; cases y) auto

lemma flt_irrefl [simp]: "\<not> flt x x"
  by (cases x) auto

lemma flt_not_nan: "flt x y \<Longrightarrow> \<not> is_nan x \<and> \<not> is_nan y"
  by (cases x; cases y) auto

lemma fle_not_nan: "fle x y \<Longrightarrow> \<not> is_nan x \<and> \<not> is_nan y"
  by (cases x; cases y) auto

lemma fmin_fle:
  "\<not> is_nan x \<Longrightarrow> \<not> is_nan y \<Longrightarrow> fle (fmin x y) x \<and> fle (fmin x y) y"
  by (auto simp: fmin_def not_flt flt_imp_fle)

lemma fmax_fle:
  "\<not> is_nan x \<Longrightarrow> \<not> is_nan y \<Longrightarrow> fle x (fmax x y) \<and> fle y (fmax x y)"
  by (auto simp: fmax_def not_flt flt_imp_fle)

lemma fmin_greatest: "fle z x \<Longrightarrow> fle z y \<Longrightarrow> fle z (fmin x y)"
  by (auto simp: fmin_def)

lemma fmax_least: "fle x z \<Longrightarrow> fle y z \<Longrightarrow> fle (fmax x y) z"
  by (auto simp: fmax_def)

lemma is_nan_fmin [simp]: "is_nan (fmin x y) = (is_nan x \<and> is_nan y)"
  by (auto simp: fmin_def)

lemma is_nan_fmax [simp]: "is_nan (fmax x y) = (is_nan x \<and> is_nan y)"
  by (auto simp: fmax_def)

lemma is_nan_rnd [simp]: "\<not> is_nan (rnd f s q)" "\<not> is_nan (rnds f v)"
  by (simp_all add: rnd_def rnds_def Let_def)

text \<open>Rounding preserves the order of signed values.\<close>

lemma rnd_mono: "0 \<le> p \<Longrightarrow> p \<le> q \<Longrightarrow> fle (rnd f False p) (rnd f False q)"
  using rnd_mag_mono [of p q f] by (auto simp: rnd_def Let_def)

lemma rnds_mono: "v \<le> w \<Longrightarrow> fle (rnds f v) (rnds f w)"
proof (cases "v < 0")
  case v: True
  show "v \<le> w \<Longrightarrow> fle (rnds f v) (rnds f w)"
  proof (cases "w < 0")
    case True
    assume "v \<le> w"
    then have "rnd_mag f \<bar>w\<bar> \<le> rnd_mag f \<bar>v\<bar>" using v True by (intro rnd_mag_mono) auto
    then show ?thesis using v True by (auto simp: rnds_def rnd_def Let_def)
  next
    case False
    then show ?thesis
      using v rnd_mag_nonneg [of "\<bar>v\<bar>" f] rnd_mag_nonneg [of "\<bar>w\<bar>" f]
      by (auto simp: rnds_def rnd_def Let_def)
  qed
next
  case False
  assume "v \<le> w"
  then show ?thesis using False rnd_mono [of v w f] by (simp add: rnds_def)
qed

lemma rnds_val: "wf f x \<Longrightarrow> is_finite x \<Longrightarrow> val x \<noteq> 0 \<Longrightarrow> rnds f (val x) = x"
  by (cases x) (auto simp: rnds_def rnd_exact abs_if)

section \<open>Conversions\<close>

fun ffloor :: "fl \<Rightarrow> fl" where
  "ffloor (Fin s q) = Fin s (of_int (if s then \<lceil>q\<rceil> else \<lfloor>q\<rfloor>))"
| "ffloor x = x"

text \<open>\<open>round\<close>: half away from zero.\<close>

fun fround :: "fl \<Rightarrow> fl" where
  "fround (Fin s q) = Fin s (of_int \<lfloor>q + 1 / 2\<rfloor>)"
| "fround x = x"

text \<open>A cast to an integer type with range \<open>lo..hi\<close> truncates and saturates; NaN gives 0.\<close>

fun to_int :: "int \<Rightarrow> int \<Rightarrow> fl \<Rightarrow> int" where
  "to_int lo hi (NaN s n) = 0"
| "to_int lo hi (Inf s) = (if s then lo else hi)"
| "to_int lo hi (Fin s q) = max lo (min hi (if s then - \<lfloor>q\<rfloor> else \<lfloor>q\<rfloor>))"

definition of_int_fl :: "fmt \<Rightarrow> int \<Rightarrow> fl" where
  "of_int_fl f i = rnd f (i < 0) (of_int \<bar>i\<bar>)"

definition of_nat_fl :: "fmt \<Rightarrow> nat \<Rightarrow> fl" where
  "of_nat_fl f n = rnd f False (of_nat n)"

text \<open>A cast between formats.\<close>

fun cast_fl :: "fmt \<Rightarrow> fl \<Rightarrow> fl" where
  "cast_fl f (Fin s q) = rnd f s q"
| "cast_fl f (Inf s) = Inf s"
| "cast_fl f (NaN s n) = cnan"

text \<open>A decimal literal.\<close>

definition lit :: "fmt \<Rightarrow> rat \<Rightarrow> fl" where
  "lit f q = rnd f False q"

lemma to_int_bounds: "lo \<le> 0 \<Longrightarrow> 0 \<le> hi \<Longrightarrow> lo \<le> to_int lo hi x \<and> to_int lo hi x \<le> hi"
  by (cases x) auto

lemma wf_rnds [simp]: "wf f (rnds f v)"
  by (simp add: rnds_def)

lemma wf_fadd [simp]: "wf f x \<Longrightarrow> wf f y \<Longrightarrow> wf f (fadd f x y)"
  by (cases x; cases y) (auto simp: Let_def)

lemma wf_fsub [simp]: "wf f x \<Longrightarrow> wf f y \<Longrightarrow> wf f (fsub f x y)"
  by (simp add: fsub_def)

text \<open>A sum is in the format whatever its operands are.\<close>

lemma wf_sum [simp]: "wf f (fadd f x y)" "wf f (fsub f x y)"
proof -
  show "wf f (fadd f x y)" for y
    by (cases x; cases y) (auto simp: Let_def)
  then show "wf f (fsub f x y)" by (simp add: fsub_def)
qed

lemma fle_fabs: "fle x t \<Longrightarrow> fle (fneg x) t \<Longrightarrow> fle (fabs x) t"
proof (cases x)
  case (Fin s q)
  then show "fle x t \<Longrightarrow> fle (fneg x) t \<Longrightarrow> fle (fabs x) t" by (cases s) simp_all
next
  case (Inf s)
  then show "fle x t \<Longrightarrow> fle (fneg x) t \<Longrightarrow> fle (fabs x) t" by (cases s) simp_all
qed simp

lemma fabs_bounds: "wf f x \<Longrightarrow> \<not> is_nan x \<Longrightarrow> fle x (fabs x) \<and> fle (fneg x) (fabs x)"
  by (cases x) auto

lemma is_nan_fabs [simp]: "is_nan (fabs x) = is_nan x" "is_nan (fneg x) = is_nan x"
  by (cases x; simp)+

lemma wf_fmul [simp]: "wf f x \<Longrightarrow> wf f y \<Longrightarrow> wf f (fmul f x y)"
  by (cases x; cases y) auto

lemma wf_fdiv [simp]: "wf f x \<Longrightarrow> wf f y \<Longrightarrow> wf f (fdiv f x y)"
  by (cases x; cases y) auto

lemma wf_of_int_fl [simp]: "wf f (of_int_fl f i)" "wf f (of_nat_fl f n)"
  by (simp_all add: of_int_fl_def of_nat_fl_def)

lemma wf_fmin [simp]: "wf f x \<Longrightarrow> wf f y \<Longrightarrow> wf f (fmin x y)"
  by (simp add: fmin_def)

lemma wf_fmax [simp]: "wf f x \<Longrightarrow> wf f y \<Longrightarrow> wf f (fmax x y)"
  by (simp add: fmax_def)

end
