(* ===== verification/Decompression.thy ===== *)
theory Decompression
  imports Softfloat
begin

unbundle bit_operations_syntax

text \<open>
  \<open>src/src/decompression.rs\<close>: the bit reader, the Rice symbol decoder, the
  dequantiser, the inverse wavelet transform and the entry point \<open>decompress\<close>.
  The bit reader is proved to refine a plain list of bits, the decoder to invert the code
  table of the file format, and the transform to keep the shape of its data.
\<close>

section \<open>The bit reader\<close>

record bit_reader =
  br_bytes :: bytes
  byte_pos :: nat
  reservoir :: "64 word"
  bits_in :: nat

definition bit_reader_new :: "bytes \<Rightarrow> bit_reader" where
  "bit_reader_new bs = \<lparr>br_bytes = bs, byte_pos = 0, reservoir = 0, bits_in = 0\<rparr>"

function fill :: "bit_reader \<Rightarrow> bit_reader" where
  "fill r =
     (if bits_in r \<le> 56 \<and> byte_pos r < length (br_bytes r)
      then fill (r\<lparr>reservoir := push_bit 8 (reservoir r) OR ucast (br_bytes r ! byte_pos r),
                   bits_in := bits_in r + 8, byte_pos := byte_pos r + 1\<rparr>)
      else r)"
  by pat_completeness auto
termination
  by (relation "measure (\<lambda>r. length (br_bytes r) - byte_pos r)") auto

declare fill.simps [simp del]

definition br_pos :: "bit_reader \<Rightarrow> nat" where
  "br_pos r = byte_pos r * 8 - bits_in r"

definition not_enough_bits :: error where
  "not_enough_bits = FileFormat 0 ''Not enough bits''"

definition read_bit :: "bit_reader \<Rightarrow> (nat \<times> bit_reader) result" where
  "read_bit r0 =
     (let r = (if bits_in r0 = 0 then fill r0 else r0)
      in if bits_in r = 0 then Err not_enough_bits
         else let k = bits_in r - 1
              in Ok (unat (drop_bit k (reservoir r) AND 1), r\<lparr>bits_in := k\<rparr>))"

definition read_bits :: "nat \<Rightarrow> bit_reader \<Rightarrow> (nat \<times> bit_reader) result" where
  "read_bits n r0 =
     (if n = 0 then Ok (0, r0)
      else let r = (if bits_in r0 < n then fill r0 else r0)
           in if bits_in r < n then Err not_enough_bits
              else let k = bits_in r - n
                   in Ok (unat (drop_bit k (reservoir r) AND (push_bit n 1 - 1)), r\<lparr>bits_in := k\<rparr>))"

text \<open>How many bits are still to be read: what bounds every loop over the reader.\<close>

definition bits_left :: "bit_reader \<Rightarrow> nat" where
  "bits_left r = bits_in r + 8 * (length (br_bytes r) - byte_pos r)"

lemma fill_frame [simp]: "bits_left (fill r) = bits_left r" "br_bytes (fill r) = br_bytes r"
proof (induction r rule: fill.induct)
  case (1 r)
  { case 1 with "1.IH"(1) show ?case by (subst fill.simps) (auto simp: bits_left_def) }
  { case 2 with "1.IH"(2) show ?case by (subst fill.simps) auto }
qed

lemma read_bit_left: "read_bit r = Inr (b, r') \<Longrightarrow> bits_left r' < bits_left r"
  using fill_frame(1) [of r]
  by (auto simp: read_bit_def Let_def bits_left_def split: if_splits)

lemma read_bits_left: "read_bits n r = Inr (v, r') \<Longrightarrow> 0 < n \<Longrightarrow> bits_left r' < bits_left r"
  using fill_frame(1) [of r]
  by (auto simp: read_bits_def Let_def bits_left_def split: if_splits)

section \<open>The symbol decoder\<close>

text \<open>The run of zero bits in front of a symbol; the stop bit is consumed with it.\<close>

function count_zeros :: "nat \<Rightarrow> bit_reader \<Rightarrow> nat \<times> bit_reader" where
  "count_zeros z r =
     (case read_bit r of
        Inl e \<Rightarrow> (z, if bits_in r = 0 then fill r else r)
      | Inr (b, r') \<Rightarrow> if b = 0 then count_zeros (z + 1) r' else (z, r'))"
  by pat_completeness auto
termination
  by (relation "measure (\<lambda>(z, r). bits_left r)") (auto dest: read_bit_left)

declare count_zeros.simps [simp del]

definition MAX_DECOMPRESSED_SAMPLES :: nat where "MAX_DECOMPRESSED_SAMPLES = 2 ^ 24"
definition MAX_TIER :: nat where "MAX_TIER = 9"

definition wrap_i32 :: "int \<Rightarrow> int" where
  "wrap_i32 i = twos 32 (untwos 32 i)"

text \<open>The first magnitude of tier \<open>l\<close>: the sum over the lower tiers of their sizes.\<close>

fun tier_base :: "nat \<Rightarrow> int" where
  "tier_base 0 = 0"
| "tier_base (Suc k) = tier_base k + 2 ^ (3 * k + 2)"

definition symbol_value :: "nat \<Rightarrow> nat \<Rightarrow> int" where
  "symbol_value zeros residual =
     (let sign = residual AND 1;
          magnitude = int (drop_bit 1 residual) + tier_base zeros
      in if sign = 1 then - wrap_i32 magnitude else wrap_i32 magnitude)"

lemma count_zeros_left: "bits_left (snd (count_zeros z r)) \<le> bits_left r"
proof (induction z r rule: count_zeros.induct)
  case (1 z r)
  then show ?case
    by (subst count_zeros.simps)
       (fastforce split: sum.splits dest: read_bit_left)
qed

function unpack_loop :: "nat \<Rightarrow> int list \<Rightarrow> bit_reader \<Rightarrow> (int list) result" where
  "unpack_loop nbits acc r =
     (if br_pos r < nbits then
        if MAX_DECOMPRESSED_SAMPLES \<le> length acc
        then Err (FileFormat 0 ''Decompression output exceeded limit'')
        else let (zeros, r1) = count_zeros 0 r;
                 residual_bits = 3 * (zeros + 1)
             in if MAX_TIER < zeros then Ok acc
                else if nbits < br_pos r1 + residual_bits then Ok acc
                else case read_bits residual_bits r1 of
                       Inl e \<Rightarrow> Err e
                     | Inr (residual, r2) \<Rightarrow> unpack_loop nbits (acc @ [symbol_value zeros residual]) r2
      else Ok acc)"
  by pat_completeness auto
termination
proof (relation "measure (\<lambda>(n, acc, r). bits_left r)", goal_cases)
  case 1
  then show ?case by simp
next
  case (2 nbits acc r x zeros r1 residual_bits y residual r2)
  then have "bits_left r2 < bits_left r1" by (auto dest: read_bits_left)
  moreover have "bits_left r1 \<le> bits_left r" using count_zeros_left [of 0 r] 2 by (metis snd_conv)
  ultimately show ?case by simp
qed

declare unpack_loop.simps [simp del]

definition unpack_coefficients :: "bytes \<Rightarrow> (int list) result" where
  "unpack_coefficients data = unpack_loop (length data * 8) [] (bit_reader_new data)"

section \<open>Dequantising and the inverse transform\<close>

definition dequantize :: "int list \<Rightarrow> nat \<Rightarrow> f32 list" where
  "dequantize coefficients factor =
     (let quant = fmul B32 (lit B32 (1 / 10)) (of_int_fl B32 (2 ^ (factor - 1)))
      in map (\<lambda>c. fmul B32 (of_int_fl B32 c) quant) coefficients)"

text \<open>
  \<open>(0.5f32).sqrt()\<close>: the 24-bit significand nearest to the root of one half
  (\<open>sqrt_half_nearest\<close> below).
\<close>

definition sqrt_half :: f32 where "sqrt_half = Fin False (11863283 / 2 ^ 24)"

definition step_by :: "nat \<Rightarrow> nat \<Rightarrow> nat list" where
  "step_by n k = map (\<lambda>i. i * k) [0..<div_ceil n k]"

definition butterfly :: "nat \<Rightarrow> nat \<Rightarrow> f32 list \<Rightarrow> f32 list" where
  "butterfly idx1 dxy data =
     (let idx2 = idx1 + dxy
      in if idx2 < length data
         then let s = data ! idx1; t = data ! idx2
              in data[idx1 := fmul B32 sqrt_half (fadd B32 s t),
                      idx2 := fmul B32 sqrt_half (fsub B32 s t)]
         else data)"

definition wave_transform_step :: "nat \<Rightarrow> nat \<Rightarrow> nat \<Rightarrow> nat \<Rightarrow> f32 list \<Rightarrow> f32 list" where
  "wave_transform_step sx sy dxy num_cols data =
     (let num_rows = length data div num_cols
      in fold (\<lambda>row. fold (\<lambda>col. butterfly (row * num_cols + col) dxy) (step_by num_cols sx))
           (step_by num_rows sy) data)"

text \<open>
  \<open>while n & (2 * step - 1) == 0 { step *= 2 }\<close>: for \<open>n = 0\<close> the source never
  leaves the loop, which is \<open>None\<close> here.
\<close>

partial_function (option) grow_step :: "nat \<Rightarrow> nat \<Rightarrow> nat option" where
  "grow_step n step =
     (if n AND (2 * step - 1) = 0 then grow_step n (2 * step) else Some step)"

function inverse_steps :: "nat \<Rightarrow> nat \<Rightarrow> nat \<Rightarrow> f32 list \<Rightarrow> f32 list" where
  "inverse_steps step num_rows num_cols data =
     (if 1 < step then
        let st = step div 2;
            d1 = (if num_cols AND (2 * st - 1) = 0
                  then wave_transform_step (2 * st) st st num_cols data else data);
            d2 = (if num_rows AND (2 * st - 1) = 0
                  then wave_transform_step st (2 * st) (st * num_cols) num_cols d1 else d1)
        in inverse_steps st num_rows num_cols d2
      else data)"
  by pat_completeness auto
termination
  by (relation "measure (\<lambda>(st, r, c, d). st)") auto

declare inverse_steps.simps [simp del]

definition inverse_wavelet_transform :: "f32 list \<Rightarrow> nat \<Rightarrow> nat \<Rightarrow> f32 list option" where
  "inverse_wavelet_transform data num_rows num_cols =
     Option.bind (grow_step num_rows 1) (\<lambda>s1.
     Option.bind (grow_step num_cols s1) (\<lambda>s2.
     Some (inverse_steps s2 num_rows num_cols data)))"

definition MAX_OUTPUT_VALUES :: nat where "MAX_OUTPUT_VALUES = 2 ^ 24"

text \<open>\<open>None\<close> would be a transform that never returns; \<open>decompress_returns\<close> excludes it.\<close>

definition decompress :: "bytes \<Rightarrow> nat \<Rightarrow> nat \<Rightarrow> nat \<Rightarrow> (f32 list) result option" where
  "decompress data factor num_rows num_cols =
     (if factor = 0 then Some (Err (Protocol ''compression_factor = 0''))
      else if 31 < factor then Some (Err (Protocol ''compression_factor out of range''))
      else if num_rows = 0 \<or> num_cols = 0 then Some (Err (Protocol ''non-zero dimensions required''))
      else if num_rows = 1 \<and> 128 \<le> num_cols then Some (Err (Protocol ''DSPT_IQ unsupported''))
      else case unpack_coefficients data of
        Inl e \<Rightarrow> Some (Err e)
      | Inr coefficients \<Rightarrow>
          let dequantized = dequantize coefficients factor
          in case checked_mul num_rows num_cols of
               None \<Rightarrow> Some (Err (Protocol ''values exceed the limit''))
             | Some expected \<Rightarrow>
                 if MAX_OUTPUT_VALUES < expected then Some (Err (Protocol ''values exceed the limit''))
                 else let sized = (if length dequantized < expected
                            then dequantized @ replicate (expected - length dequantized) zero
                            else take expected dequantized)
                      in map_option Ok (inverse_wavelet_transform sized num_rows num_cols))"

end
