(* ===== verification/Rice_Code.thy ===== *)
theory Rice_Code
  imports Decompression
begin

unbundle bit_operations_syntax

text \<open>
  What the decoder of \<^theory_text>\<open>Decompression\<close> promises: the bit reader reads the most
  significant bit first and returns what a plain list of bits would, and the symbol decoder
  inverts the code table of \<open>docs/FILESPEC.md\<close> (``Compression Bit-Packing Codes''),
  written down here as an encoder.
\<close>

section \<open>Bits of a byte string\<close>

fun bval :: "bool list \<Rightarrow> nat" where
  "bval [] = 0"
| "bval (b # bs) = of_bool b * 2 ^ length bs + bval bs"

definition byte_bits :: "byte \<Rightarrow> bool list" where
  "byte_bits b = map (bit b) [7, 6, 5, 4, 3, 2, 1, 0]"

definition bits_of :: "bytes \<Rightarrow> bool list" where
  "bits_of bs = concat (map byte_bits bs)"

lemma bval_append: "bval (xs @ ys) = bval xs * 2 ^ length ys + bval ys"
  by (induction xs) (auto simp: algebra_simps power_add)

lemma bval_bound: "bval bs < 2 ^ length bs"
  by (induction bs) auto

lemma bval_take_div: "bval bs div 2 ^ (length bs - n) = bval (take n bs)"
proof -
  have "bval bs = bval (take n bs) * 2 ^ (length bs - n) + bval (drop n bs)"
    by (metis append_take_drop_id bval_append length_drop)
  moreover have "bval (drop n bs) < 2 ^ (length bs - n)"
    by (metis bval_bound length_drop)
  ultimately show ?thesis by simp
qed

lemma bval_replicate_False [simp]: "bval (replicate n False) = 0"
  by (induction n) auto

lemma length_byte_bits [simp]: "length (byte_bits b) = 8"
  by (simp add: byte_bits_def)

lemma length_bits_of [simp]: "length (bits_of bs) = 8 * length bs"
  by (induction bs) (auto simp: bits_of_def)

lemma bits_of_Nil [simp]: "bits_of [] = []"
  and bits_of_Cons [simp]: "bits_of (b # bs) = byte_bits b @ bits_of bs"
  by (simp_all add: bits_of_def)

lemma bits_of_append: "bits_of (xs @ ys) = bits_of xs @ bits_of ys"
  by (simp add: bits_of_def)

lemma bval_byte_bits: "bval (byte_bits b) = unat b"
proof -
  have "unat b = horner_sum of_bool 2 (map (bit (unat b)) [0..<8])"
  proof -
    have "take_bit 8 (unat b) = unat b"
      by (rule take_bit_nat_eq_self) simp
    then show ?thesis by (simp add: horner_sum_bit_eq_take_bit)
  qed
  also have "[0..<8] = [0, 1, 2, 3, 4, 5, 6, 7::nat]" by (simp add: upt_rec)
  finally show ?thesis
    by (simp add: byte_bits_def bit_unsigned_iff horner_sum_simps of_bool_def)
qed

section \<open>The reader refines the list of bits\<close>

definition reader_ok :: "bit_reader \<Rightarrow> bool" where
  "reader_ok r \<longleftrightarrow>
     byte_pos r \<le> length (br_bytes r) \<and> bits_in r \<le> 64 \<and> bits_in r \<le> 8 * byte_pos r \<and>
     take_bit (bits_in r) (unat (reservoir r))
       = bval (take (bits_in r) (drop (br_pos r) (bits_of (br_bytes r))))"

definition remaining :: "bit_reader \<Rightarrow> bool list" where
  "remaining r = drop (br_pos r) (bits_of (br_bytes r))"

lemma reader_ok_new [simp]: "reader_ok (bit_reader_new bs)"
  by (simp add: reader_ok_def bit_reader_new_def)

lemma remaining_new [simp]: "remaining (bit_reader_new bs) = bits_of bs"
  by (simp add: remaining_def br_pos_def bit_reader_new_def)

lemma length_remaining:
  "reader_ok r \<Longrightarrow> length (remaining r) = bits_left r"
  by (auto simp: remaining_def reader_ok_def br_pos_def bits_left_def)

lemma br_pos_remaining:
  "reader_ok r \<Longrightarrow> br_pos r + length (remaining r) = 8 * length (br_bytes r)"
  by (auto simp: remaining_def reader_ok_def br_pos_def)

lemma unat_shift_in:
  "unat (push_bit 8 (w :: 64 word) OR ucast (b :: byte)) = (unat w * 256 + unat b) mod 2 ^ 64"
proof -
  have disj: "push_bit 8 w OR ucast b = push_bit 8 w + ucast b"
  proof (rule disjunctive_add [symmetric])
    fix n
    show "\<not> bit (push_bit 8 w) n \<or> \<not> bit (ucast b :: 64 word) n"
      by (auto simp: bit_push_bit_iff bit_ucast_iff dest: bit_imp_le_length)
  qed
  have "unat (ucast b :: 64 word) = unat b"
  proof -
    have "unat b < 2 ^ 64" by (rule less_trans [OF unat_byte_bound]) simp
    then have "take_bit 64 (unat b) = unat b" by (rule take_bit_nat_eq_self)
    then show ?thesis by (simp add: unsigned_ucast_eq)
  qed
  moreover have "push_bit 8 w = w * 256" by (simp add: push_bit_eq_mult)
  ultimately show ?thesis unfolding disj by (simp add: unat_word_ariths mod_simps)
qed

lemma mod_shift: "b < 256 \<Longrightarrow> (a * 256 + b) mod (P * 256) = a mod P * 256 + (b :: nat)"
  using mod_mult2_eq [of "a * 256 + b" 256 P] by (simp add: mult.commute)

lemma fill_step_ok:
  assumes ok: "reader_ok r" and g: "bits_in r \<le> 56" "byte_pos r < length (br_bytes r)"
  defines "r' \<equiv> r\<lparr>reservoir := push_bit 8 (reservoir r) OR ucast (br_bytes r ! byte_pos r),
                   bits_in := bits_in r + 8, byte_pos := byte_pos r + 1\<rparr>"
  shows "reader_ok r'" and "br_pos r' = br_pos r"
proof -
  show p: "br_pos r' = br_pos r"
    using ok by (simp add: r'_def br_pos_def reader_ok_def)
  let ?B = "bits_of (br_bytes r)" and ?k = "bits_in r" and ?b = "br_bytes r ! byte_pos r"
  let ?w = "reservoir r"
  have kp: "br_pos r + ?k = 8 * byte_pos r"
    using ok by (simp add: br_pos_def reader_ok_def)
  have split: "br_bytes r = take (byte_pos r) (br_bytes r) @ ?b # drop (Suc (byte_pos r)) (br_bytes r)"
    using g by (simp add: id_take_nth_drop)
  have "drop (8 * byte_pos r) ?B = byte_bits ?b @ bits_of (drop (Suc (byte_pos r)) (br_bytes r))"
    using g by (subst split) (simp add: bits_of_append)
  then have next8: "take 8 (drop (8 * byte_pos r) ?B) = byte_bits ?b" by simp
  have "take (?k + 8) (drop (br_pos r) ?B)
      = take ?k (drop (br_pos r) ?B) @ take 8 (drop ?k (drop (br_pos r) ?B))"
    by (simp add: take_add)
  also have "drop ?k (drop (br_pos r) ?B) = drop (8 * byte_pos r) ?B"
    using kp by (simp add: add.commute)
  finally have "bval (take (?k + 8) (drop (br_pos r) ?B))
      = take_bit ?k (unat ?w) * 256 + unat ?b"
    using ok by (simp add: bval_append next8 bval_byte_bits reader_ok_def)
  also have "\<dots> = take_bit (?k + 8) (unat ?w * 256 + unat ?b)"
  proof -
    have "(unat ?w * 256 + unat ?b) mod (2 ^ ?k * 256) = unat ?w mod 2 ^ ?k * 256 + unat ?b"
      by (simp add: mod_shift)
    then show ?thesis by (simp add: take_bit_eq_mod power_add)
  qed
  also have "\<dots> = take_bit (?k + 8) ((unat ?w * 256 + unat ?b) mod 2 ^ 64)"
  proof -
    have "take_bit (?k + 8) (take_bit 64 x) = take_bit (?k + 8) x" for x :: nat
      using g by (simp add: take_bit_take_bit)
    then show ?thesis by (simp only: take_bit_eq_mod [of 64])
  qed
  finally show "reader_ok r'"
    using ok g p by (simp add: reader_ok_def r'_def unat_shift_in)
qed

lemma fill_ok:
  "reader_ok r \<Longrightarrow> reader_ok (fill r) \<and> br_pos (fill r) = br_pos r \<and>
     (56 < bits_in (fill r) \<or> byte_pos (fill r) = length (br_bytes r))"
proof (induction r rule: fill.induct)
  case (1 r)
  show ?case
  proof (cases "bits_in r \<le> 56 \<and> byte_pos r < length (br_bytes r)")
    case True
    with 1 fill_step_ok [OF "1.prems"] show ?thesis by (simp add: fill.simps [of r])
  next
    case False
    with "1.prems" show ?thesis by (auto simp: fill.simps [of r] reader_ok_def)
  qed
qed

lemma fill_remaining [simp]: "reader_ok r \<Longrightarrow> remaining (fill r) = remaining r"
  by (simp add: remaining_def fill_ok)

lemma fill_enough:
  assumes "reader_ok r" and "n \<le> 57"
  shows "bits_in (fill r) < n \<longleftrightarrow> bits_in (fill r) < n \<and> length (remaining r) < n"
    and "n \<le> length (remaining r) \<Longrightarrow> n \<le> bits_in (fill r)"
proof -
  have f: "reader_ok (fill r)"
    and d: "56 < bits_in (fill r) \<or> byte_pos (fill r) = length (br_bytes r)"
    using fill_ok [OF assms(1)] by auto
  have "length (remaining r) = bits_in (fill r) + 8 * (length (br_bytes r) - byte_pos (fill r))"
    using length_remaining [OF f] assms(1) by (simp add: bits_left_def)
  with d assms(2) show "bits_in (fill r) < n \<longleftrightarrow> bits_in (fill r) < n \<and> length (remaining r) < n"
    and "n \<le> length (remaining r) \<Longrightarrow> n \<le> bits_in (fill r)" by auto
qed

text \<open>Taking the top \<open>n\<close> bits of the reservoir.\<close>

lemma take_from_reservoir:
  assumes ok: "reader_ok r" and n: "n \<le> bits_in r"
  shows "take_bit n (drop_bit (bits_in r - n) (unat (reservoir r))) = bval (take n (remaining r))"
    and "reader_ok (r\<lparr>bits_in := bits_in r - n\<rparr>)"
    and "remaining (r\<lparr>bits_in := bits_in r - n\<rparr>) = drop n (remaining r)"
proof -
  let ?k = "bits_in r" and ?w = "unat (reservoir r)"
  let ?bs = "take ?k (remaining r)"
  have len: "length ?bs = ?k"
    using ok length_remaining [OF ok] by (simp add: bits_left_def)
  have w: "take_bit ?k ?w = bval ?bs" using ok by (simp add: reader_ok_def remaining_def)
  have "take_bit n (drop_bit (?k - n) ?w) = drop_bit (?k - n) (take_bit ?k ?w)"
    using n by (simp add: drop_bit_take_bit)
  also have "\<dots> = bval (take n ?bs)"
    using bval_take_div [of ?bs n] len by (simp add: w drop_bit_eq_div)
  finally show "take_bit n (drop_bit (?k - n) ?w) = bval (take n (remaining r))"
    using n by (simp add: min_def)
  have p: "br_pos (r\<lparr>bits_in := ?k - n\<rparr>) = br_pos r + n"
    using ok n by (simp add: br_pos_def reader_ok_def)
  show rem: "remaining (r\<lparr>bits_in := ?k - n\<rparr>) = drop n (remaining r)"
    using p by (simp add: remaining_def add.commute)
  have "take_bit (?k - n) ?w = take_bit (?k - n) (take_bit ?k ?w)"
    by (simp add: take_bit_take_bit)
  also have "\<dots> = bval ?bs mod 2 ^ (?k - n)" by (simp add: w flip: take_bit_eq_mod)
  also have "\<dots> = bval (drop n ?bs)"
  proof -
    have "bval ?bs = bval (take n ?bs) * 2 ^ (?k - n) + bval (drop n ?bs)"
      by (metis append_take_drop_id bval_append length_drop len)
    moreover have "bval (drop n ?bs) < 2 ^ (?k - n)"
      by (metis bval_bound length_drop len)
    ultimately show ?thesis by simp
  qed
  also have "drop n ?bs = take (?k - n) (drop n (remaining r))"
    by (simp add: drop_take)
  finally have "take_bit (?k - n) ?w = bval (take (?k - n) (drop n (remaining r)))" .
  moreover have "drop (br_pos (r\<lparr>bits_in := ?k - n\<rparr>)) (bits_of (br_bytes r)) = drop n (remaining r)"
    using rem by (simp add: remaining_def)
  ultimately show "reader_ok (r\<lparr>bits_in := ?k - n\<rparr>)"
    using ok by (auto simp: reader_ok_def)
qed

lemma unat_field:
  "unat (drop_bit k (w :: 64 word) AND (push_bit n 1 - 1)) = take_bit n (drop_bit k (unat w))"
proof -
  have "push_bit n (1 :: 64 word) - 1 = mask n" by (simp add: mask_eq_decr_exp push_bit_of_1)
  then have "drop_bit k w AND (push_bit n 1 - 1) = take_bit n (drop_bit k w)"
    by (simp add: take_bit_eq_mask)
  moreover have "take_bit (min 64 (n + k)) (unat w) = take_bit (n + k) (unat w)"
  proof -
    have "take_bit 64 (unat w) = unat w"
      using unsigned_less [of w] by (intro take_bit_nat_eq_self) simp
    then show ?thesis by (metis min.commute take_bit_take_bit)
  qed
  ultimately show ?thesis
    by (simp add: unsigned_take_bit_eq unsigned_drop_bit_eq take_bit_drop_bit)
qed

lemmas unat_field' = unat_field [simplified push_bit_of_1]

text \<open>\<open>read_bits\<close> against the list: the next \<open>n\<close> bits, or an error if there are fewer.\<close>

lemma read_bits_spec:
  assumes ok: "reader_ok r" and n: "n \<le> 57"
  shows "if length (remaining r) < n then read_bits n r = Inl not_enough_bits
         else \<exists>r'. read_bits n r = Inr (bval (take n (remaining r)), r') \<and> reader_ok r' \<and>
                remaining r' = drop n (remaining r) \<and> br_bytes r' = br_bytes r"
proof (cases "n = 0")
  case True
  with ok show ?thesis by (simp add: read_bits_def)
next
  case False
  define q where "q = (if bits_in r < n then fill r else r)"
  have q: "reader_ok q" "remaining q = remaining r" "br_bytes q = br_bytes r"
    using fill_ok [OF ok] ok by (auto simp: q_def)
  have le: "bits_in q \<le> length (remaining q)"
    using length_remaining [OF q(1)] by (simp add: bits_left_def)
  show ?thesis
  proof (cases "bits_in q < n")
    case True
    then have "length (remaining r) < n"
      using fill_enough(2) [OF ok n] by (metis not_le q_def)
    with True False show ?thesis by (simp add: read_bits_def Let_def flip: q_def)
  next
    case nb: False
    with le q have "\<not> length (remaining r) < n" by simp
    moreover have "read_bits n r = Inr (bval (take n (remaining q)), q\<lparr>bits_in := bits_in q - n\<rparr>)"
      using nb False take_from_reservoir(1) [OF q(1), of n]
      by (simp add: read_bits_def Let_def unat_field' flip: q_def)
    ultimately show ?thesis
      using nb q take_from_reservoir(2,3) [OF q(1), of n] by simp
  qed
qed

lemma read_bit_spec:
  assumes ok: "reader_ok r"
  shows "case remaining r of
           [] \<Rightarrow> read_bit r = Inl not_enough_bits
         | b # bs \<Rightarrow> \<exists>r'. read_bit r = Inr (of_bool b, r') \<and> reader_ok r' \<and> remaining r' = bs \<and>
                       br_bytes r' = br_bytes r"
proof -
  have "read_bit r = read_bits 1 r"
    by (simp add: read_bit_def read_bits_def Let_def)
  then show ?thesis
    using read_bits_spec [OF ok, of 1] by (cases "remaining r") auto
qed


section \<open>The decoder over a list of bits\<close>

function rice_decode :: "bool list \<Rightarrow> int list" where
  "rice_decode bs =
     (if bs = [] then []
      else let z = length (takeWhile Not bs); rest = drop (z + 1) bs; n = 3 * (z + 1)
           in if MAX_TIER < z \<or> length rest < n then []
              else symbol_value z (bval (take n rest)) # rice_decode (drop n rest))"
  by pat_completeness auto
termination
  by (relation "measure length") auto

declare rice_decode.simps [simp del]

lemma rice_decode_Nil [simp]: "rice_decode [] = []"
  by (simp add: rice_decode.simps)

lemma count_zeros_spec:
  "reader_ok r \<Longrightarrow> count_zeros z r = (z', r') \<Longrightarrow>
     z' = z + length (takeWhile Not (remaining r)) \<and> reader_ok r' \<and> br_bytes r' = br_bytes r \<and>
     remaining r' = drop (length (takeWhile Not (remaining r)) + 1) (remaining r)"
proof (induction z r arbitrary: z' r' rule: count_zeros.induct)
  case (1 z r)
  show ?case
  proof (cases "remaining r")
    case Nil
    then have e: "read_bit r = Inl not_enough_bits" using read_bit_spec [OF "1.prems"(1)] by simp
    with "1.prems"(2) have "z' = z" and r': "r' = (if bits_in r = 0 then fill r else r)"
      by (auto simp: count_zeros.simps [of z r])
    with Nil fill_ok [OF "1.prems"(1)] "1.prems"(1) show ?thesis by auto
  next
    case (Cons b bs)
    then obtain q where q: "read_bit r = Inr (of_bool b, q)" "reader_ok q" "remaining q = bs"
      "br_bytes q = br_bytes r"
      using read_bit_spec [OF "1.prems"(1)] by auto
    show ?thesis
    proof (cases b)
      case True
      with q Cons "1.prems"(2) show ?thesis by (auto simp: count_zeros.simps [of z r])
    next
      case False
      with q "1.prems"(2) have "count_zeros (z + 1) q = (z', r')"
        by (simp add: count_zeros.simps [of z r])
      from "1.IH" [OF q(1) _ _ q(2) this] False q Cons show ?thesis by auto
    qed
  qed
qed

lemma unpack_loop_spec:
  "reader_ok r \<Longrightarrow> n = 8 * length (br_bytes r) \<Longrightarrow>
     (\<forall>cs. unpack_loop n acc r = Inr cs \<longrightarrow> acc @ rice_decode (remaining r) = cs) \<and>
     (length acc + length (rice_decode (remaining r)) < MAX_DECOMPRESSED_SAMPLES \<longrightarrow>
        unpack_loop n acc r = Inr (acc @ rice_decode (remaining r)))"
proof (induction n acc r rule: unpack_loop.induct)
  case (1 n acc r)
  obtain z r1 where cz: "count_zeros 0 r = (z, r1)" by fastforce
  from count_zeros_spec [OF "1.prems"(1) cz] have r1:
    "z = length (takeWhile Not (remaining r))" "reader_ok r1" "br_bytes r1 = br_bytes r"
    "remaining r1 = drop (z + 1) (remaining r)" by auto
  have lt: "br_pos r < n \<longleftrightarrow> remaining r \<noteq> []"
    using br_pos_remaining [OF "1.prems"(1)] "1.prems"(2) by (cases "remaining r") auto
  have room: "n < br_pos r1 + k \<longleftrightarrow> length (drop (z + 1) (remaining r)) < k" for k
    using br_pos_remaining [OF r1(2)] r1(3,4) "1.prems"(2) by auto
  show ?case
  proof (cases "remaining r = []")
    case True
    with lt show ?thesis by (simp add: unpack_loop.simps [of n acc r])
  next
    case ne: False
    let ?k = "3 * (z + 1)"
    show ?thesis
    proof (cases "MAX_TIER < z \<or> length (drop (z + 1) (remaining r)) < ?k")
      case True
      then have "rice_decode (remaining r) = []"
        using ne r1(1) by (subst rice_decode.simps) (auto simp: Let_def)
      moreover have "unpack_loop n acc r =
          (if MAX_DECOMPRESSED_SAMPLES \<le> length acc
           then Inl (FileFormat 0 ''Decompression output exceeded limit'') else Inr acc)"
      proof -
        have "br_pos r < n" using ne lt by simp
        moreover have "MAX_TIER < z \<or> n < br_pos r1 + ?k" using True room by blast
        ultimately show ?thesis by (subst unpack_loop.simps) (auto simp: cz Let_def)
      qed
      ultimately show ?thesis by simp
    next
      case False
      then have k: "?k \<le> 57" by (simp add: MAX_TIER_def)
      have "\<not> length (remaining r1) < ?k" using False r1(4) by simp
      with read_bits_spec [OF r1(2) k] obtain r2 where
        r2: "read_bits ?k r1 = Inr (bval (take ?k (remaining r1)), r2)" "reader_ok r2"
          "remaining r2 = drop ?k (remaining r1)" "br_bytes r2 = br_bytes r1" by auto
      let ?v = "symbol_value z (bval (take ?k (remaining r1)))"
      have dec: "rice_decode (remaining r) = ?v # rice_decode (remaining r2)"
        using False ne r1 r2(3) by (subst rice_decode.simps) (simp add: Let_def not_less)
      show ?thesis
      proof (cases "MAX_DECOMPRESSED_SAMPLES \<le> length acc")
        case True
        with ne lt show ?thesis by (simp add: unpack_loop.simps [of n acc r])
      next
        case room_left: False
        have step: "unpack_loop n acc r = unpack_loop n (acc @ [?v]) r2"
        proof -
          have "br_pos r < n" "\<not> MAX_TIER < z" "\<not> n < br_pos r1 + ?k"
            using ne lt False room by simp_all
          then show ?thesis using room_left r2(1) by (subst unpack_loop.simps) (simp add: cz Let_def)
        qed
        have IH: "(\<forall>cs. unpack_loop n (acc @ [?v]) r2 = Inr cs \<longrightarrow> (acc @ [?v]) @ rice_decode (remaining r2) = cs) \<and>
            (length (acc @ [?v]) + length (rice_decode (remaining r2)) < MAX_DECOMPRESSED_SAMPLES \<longrightarrow>
              unpack_loop n (acc @ [?v]) r2 = Inr ((acc @ [?v]) @ rice_decode (remaining r2)))"
        proof (rule "1.IH" [OF _ _ cz [symmetric] refl refl _ _ r2(1) refl r2(2)])
          show "br_pos r < n" using ne lt by simp
          show "\<not> MAX_DECOMPRESSED_SAMPLES \<le> length acc" by (rule room_left)
          show "\<not> MAX_TIER < z" using False by simp
          show "\<not> n < br_pos r1 + ?k" using False room by simp
          show "n = 8 * length (br_bytes r2)" using r2(4) r1(3) "1.prems"(2) by simp
        qed
        have app: "(acc @ [?v]) @ rice_decode (remaining r2) = acc @ rice_decode (remaining r)"
          and len: "length (acc @ [?v]) + length (rice_decode (remaining r2))
            = length acc + length (rice_decode (remaining r))"
          by (simp_all only: dec) simp_all
        show ?thesis using IH unfolding step app len .
      qed
    qed
  qed
qed

section \<open>The code table as an encoder\<close>

text \<open>The low \<open>n\<close> bits of a number, most significant first.\<close>

definition bits_be :: "nat \<Rightarrow> nat \<Rightarrow> bool list" where
  "bits_be n v = map (bit v) (rev [0..<n])"

definition tier :: "int \<Rightarrow> nat" where
  "tier m = length (takeWhile (\<lambda>l. tier_base (l + 1) \<le> m) [0..<MAX_TIER])"

definition rice_encode :: "int \<Rightarrow> bool list" where
  "rice_encode c =
     (let m = \<bar>c\<bar>; l = tier m; r = 2 * (m - tier_base l) + (if c < 0 then 1 else 0)
      in replicate l False @ True # bits_be (3 * (l + 1)) (nat r))"

lemma length_bits_be [simp]: "length (bits_be n v) = n"
  by (simp add: bits_be_def)

lemma bval_bits_be: "v < 2 ^ n \<Longrightarrow> bval (bits_be n v) = v"
proof (induction n arbitrary: v)
  case 0
  then show ?case by (simp add: bits_be_def)
next
  case (Suc n)
  have "bits_be (Suc n) v = bit v n # bits_be n v" by (simp add: bits_be_def)
  also have "bits_be n v = bits_be n (take_bit n v)"
    by (simp add: bits_be_def bit_take_bit_iff)
  finally have "bval (bits_be (Suc n) v) = of_bool (bit v n) * 2 ^ n + take_bit n v"
    using Suc.IH [of "take_bit n v"] by simp
  also have "\<dots> = take_bit (Suc n) v" by (simp add: take_bit_Suc_from_most)
  also have "\<dots> = v" using Suc.prems by (rule take_bit_nat_eq_self)
  finally show ?case .
qed

lemma tier_base_mono: "k \<le> l \<Longrightarrow> tier_base k \<le> tier_base l"
  by (induction l) (auto simp: le_Suc_eq intro: order_trans)

lemma tier_bounds:
  assumes "0 \<le> m" and "m < tier_base (Suc MAX_TIER)"
  shows "tier_base (tier m) \<le> m" and "m < tier_base (Suc (tier m))" and "tier m \<le> MAX_TIER"
proof -
  let ?P = "\<lambda>l. tier_base (l + 1) \<le> m" and ?xs = "[0..<MAX_TIER]"
  show le: "tier m \<le> MAX_TIER"
    unfolding tier_def by (rule order_trans [OF length_takeWhile_le]) simp
  show "tier_base (tier m) \<le> m"
  proof (cases "tier m")
    case 0
    with assms show ?thesis by simp
  next
    case (Suc l)
    then have "l < length (takeWhile ?P ?xs)" by (simp add: tier_def)
    then have "?P (takeWhile ?P ?xs ! l)" by (metis nth_mem set_takeWhileD)
    moreover have "takeWhile ?P ?xs ! l = l"
      using \<open>l < length (takeWhile ?P ?xs)\<close> le Suc by (simp add: takeWhile_nth)
    ultimately show ?thesis using Suc by simp
  qed
  show "m < tier_base (Suc (tier m))"
  proof (cases "tier m = MAX_TIER")
    case True
    with assms show ?thesis by simp
  next
    case False
    with le have "tier m < length ?xs" by simp
    then have "\<not> ?P (?xs ! tier m)" unfolding tier_def by (rule nth_length_takeWhile)
    with \<open>tier m < length ?xs\<close> show ?thesis by simp
  qed
qed

lemma tier_base_bound: "l \<le> Suc MAX_TIER \<Longrightarrow> tier_base l < 2 ^ 31"
proof -
  assume "l \<le> Suc MAX_TIER"
  then have "tier_base l \<le> tier_base (Suc MAX_TIER)" by (rule tier_base_mono)
  also have "\<dots> < 2 ^ 31" by (simp add: MAX_TIER_def eval_nat_numeral)
  finally show ?thesis .
qed

lemma wrap_i32_id: "0 \<le> i \<Longrightarrow> i < 2 ^ 31 \<Longrightarrow> wrap_i32 i = i"
  unfolding wrap_i32_def by (rule twos_untwos) auto

lemma symbol_value_encode:
  assumes "\<bar>c\<bar> < tier_base (Suc MAX_TIER)"
  defines "l \<equiv> tier \<bar>c\<bar>"
  defines "r \<equiv> nat (2 * (\<bar>c\<bar> - tier_base l) + (if c < 0 then 1 else 0))"
  shows "symbol_value l r = c" and "r < 2 ^ (3 * (l + 1))"
proof -
  have b: "tier_base l \<le> \<bar>c\<bar>" "\<bar>c\<bar> < tier_base (Suc l)" "l \<le> MAX_TIER"
    using tier_bounds [of "\<bar>c\<bar>"] assms(1) by (auto simp: l_def)
  have r: "r = 2 * nat (\<bar>c\<bar> - tier_base l) + (if c < 0 then 1 else 0)"
  proof (cases "c < 0")
    case True
    with b(1) show ?thesis by (simp add: r_def)
  next
    case False
    with b(1) show ?thesis by (simp add: r_def)
  qed
  have "r AND 1 = (if c < 0 then 1 else 0)"
    unfolding r by (simp add: and_one_eq)
  moreover have "int (drop_bit 1 r) = \<bar>c\<bar> - tier_base l"
    using b(1) unfolding r by (simp add: drop_bit_eq_div)
  moreover have "wrap_i32 \<bar>c\<bar> = \<bar>c\<bar>"
  proof (rule wrap_i32_id)
    have "tier_base (Suc MAX_TIER) < 2 ^ 31" by (rule tier_base_bound) simp
    with assms(1) show "\<bar>c\<bar> < 2 ^ 31" by linarith
  qed simp
  ultimately show "symbol_value l r = c" by (simp add: symbol_value_def Let_def)
  define D M where "D = \<bar>c\<bar> - tier_base l" and "M = (2 :: int) ^ (3 * l + 2)"
  have "D < M" using b(2) by (simp add: D_def M_def)
  moreover have "int r \<le> 2 * D + 1" using b(1) by (simp add: r D_def)
  ultimately have "int r < 2 * M" by linarith
  then have "int r < 2 * 2 ^ (3 * l + 2)" by (simp only: M_def)
  also have "\<dots> = 2 ^ (3 * (l + 1))" by (simp add: power_add)
  finally show "r < 2 ^ (3 * (l + 1))" by (metis of_nat_less_iff of_nat_numeral of_nat_power)
qed

lemma rice_decode_padding: "rice_decode (replicate p False) = []"
proof -
  have "takeWhile Not (replicate p False) = replicate p False" by simp
  then show ?thesis by (subst rice_decode.simps) (simp add: Let_def)
qed

lemma rice_decode_encode:
  assumes "\<bar>c\<bar> < tier_base (Suc MAX_TIER)"
  shows "rice_decode (rice_encode c @ rest) = c # rice_decode rest"
proof -
  let ?l = "tier \<bar>c\<bar>"
  define r where "r = nat (2 * (\<bar>c\<bar> - tier_base ?l) + (if c < 0 then 1 else 0))"
  have e: "rice_encode c @ rest = replicate ?l False @ True # bits_be (3 * (?l + 1)) r @ rest"
    by (simp add: rice_encode_def Let_def r_def)
  have t: "length (takeWhile Not (rice_encode c @ rest)) = ?l"
    unfolding e by (simp add: takeWhile_append)
  have d: "drop (?l + 1) (rice_encode c @ rest) = bits_be (3 * (?l + 1)) r @ rest"
    unfolding e by simp
  have v: "symbol_value ?l (bval (bits_be (3 * (?l + 1)) r)) = c"
    using symbol_value_encode [OF assms] by (simp add: bval_bits_be r_def)
  have "?l \<le> MAX_TIER" using assms by (intro tier_bounds(3)) auto
  moreover have "rice_encode c @ rest \<noteq> []" by (simp add: e)
  ultimately show ?thesis
    using v unfolding rice_decode.simps [of "rice_encode c @ rest"] t Let_def d by simp
qed

lemma rice_decode_stream:
  "\<forall>c \<in> set cs. \<bar>c\<bar> < tier_base (Suc MAX_TIER) \<Longrightarrow>
     rice_decode (concat (map rice_encode cs) @ replicate p False) = cs"
  by (induction cs) (auto simp: rice_decode_padding rice_decode_encode)


section \<open>The transform keeps its shape and returns\<close>

lemma length_butterfly [simp]: "length (butterfly i d data) = length data"
  by (simp add: butterfly_def Let_def)

lemma length_fold:
  "(\<And>x d. length (f x d) = length d) \<Longrightarrow> length (fold f xs d) = length d"
  by (induction xs arbitrary: d) auto

lemma length_wave_transform_step [simp]:
  "length (wave_transform_step sx sy dxy cols data) = length data"
  by (simp add: wave_transform_step_def Let_def length_fold)

lemma length_inverse_steps [simp]: "length (inverse_steps st r c data) = length data"
proof (induction st r c data rule: inverse_steps.induct)
  case (1 st r c data)
  then show ?case by (subst inverse_steps.simps) (simp add: Let_def)
qed

lemma grow_step_returns:
  "0 < n \<Longrightarrow> \<exists>j \<ge> k. grow_step n (2 ^ k) = Some (2 ^ j)"
proof (induction "n - 2 ^ k" arbitrary: k rule: less_induct)
  case less
  have m: "n AND (2 * 2 ^ k - 1) = n mod 2 ^ Suc k"
    using take_bit_eq_mask [of "Suc k" n] by (simp add: mask_eq_exp_minus_1 take_bit_eq_mod)
  show ?case
  proof (cases "n mod 2 ^ Suc k = 0")
    case True
    then have "2 ^ Suc k \<le> n" using less.prems by (metis mod_eq_0_iff_dvd dvd_imp_le)
    then have "n - 2 ^ Suc k < n - 2 ^ k"
      by (intro diff_less_mono2) (auto intro: less_le_trans [of _ "2 ^ Suc k"])
    from less.hyps [OF this less.prems] obtain j where
      "j \<ge> Suc k" "grow_step n (2 ^ Suc k) = Some (2 ^ j)" by auto
    with True m show ?thesis by (subst grow_step.simps) (auto intro!: exI [of _ j])
  next
    case False
    with m show ?thesis by (subst grow_step.simps) auto
  qed
qed

text \<open>Without the guard on zero dimensions the doubling loop would not return.\<close>

lemma grow_step_zero: "grow_step 0 s = None"
proof (rule ccontr)
  assume "grow_step 0 s \<noteq> None"
  then obtain t where "grow_step 0 s = Some t" by blast
  then have "(0 :: nat) \<noteq> 0"
    by (rule grow_step.raw_induct [where P = "\<lambda>n s t. n \<noteq> 0", rotated])
       (fastforce split: if_splits)
  then show False by simp
qed

lemma inverse_wavelet_transform_returns:
  assumes "0 < r" and "0 < c"
  obtains d where "inverse_wavelet_transform data r c = Some d" and "length d = length data"
proof -
  obtain j where j: "grow_step r (2 ^ 0) = Some (2 ^ j)"
    using grow_step_returns [OF assms(1), of 0] by auto
  obtain i where "grow_step c (2 ^ j) = Some (2 ^ i)"
    using grow_step_returns [OF assms(2), of j] by auto
  with j have "inverse_wavelet_transform data r c = Some (inverse_steps (2 ^ i) r c data)"
    by (simp add: inverse_wavelet_transform_def)
  then show ?thesis by (rule that) simp
qed

lemma length_dequantize [simp]: "length (dequantize cs f) = length cs"
  by (simp add: dequantize_def Let_def)

text \<open>The constant standing for \<open>0.5f32.sqrt()\<close> is the nearest 24-bit significand.\<close>

lemma sqrt_half_nearest:
  "wf B32 sqrt_half"
  "((11863283 - 1 / 2) / 2 ^ 24) ^ 2 < (1 / 2 :: rat)"
  "(1 / 2 :: rat) < ((11863283 + 1 / 2) / 2 ^ 24) ^ 2"
  by (simp_all add: sqrt_half_def round_simps power2_eq_square)

lemma br_bytes_new [simp]: "br_bytes (bit_reader_new data) = data"
  by (simp add: bit_reader_new_def)

lemma unpack_coefficients_sound:
  assumes "unpack_coefficients data = Ok cs"
  shows "rice_decode (bits_of data) = cs"
proof -
  have "unpack_loop (length data * 8) [] (bit_reader_new data) = Ok cs"
    using assms by (simp only: unpack_coefficients_def)
  moreover have "length data * 8 = 8 * length (br_bytes (bit_reader_new data))" by simp
  ultimately have "[] @ rice_decode (remaining (bit_reader_new data)) = cs"
    using unpack_loop_spec [OF reader_ok_new] by blast
  then show ?thesis by (simp only: remaining_new append_Nil)
qed

lemma unpack_coefficients_complete:
  assumes "length (rice_decode (bits_of data)) < MAX_DECOMPRESSED_SAMPLES"
  shows "unpack_coefficients data = Ok (rice_decode (bits_of data))"
proof -
  have "length ([] :: int list) + length (rice_decode (remaining (bit_reader_new data)))
      < MAX_DECOMPRESSED_SAMPLES"
    using assms by (simp only: remaining_new list.size add_0)
  moreover have "length data * 8 = 8 * length (br_bytes (bit_reader_new data))" by simp
  ultimately have "unpack_loop (length data * 8) [] (bit_reader_new data)
      = Ok ([] @ rice_decode (remaining (bit_reader_new data)))"
    using unpack_loop_spec [OF reader_ok_new] by blast
  then show ?thesis by (simp only: unpack_coefficients_def remaining_new append_Nil)
qed

section \<open>Properties\<close>

text \<open>
  C17: The symbol decoder inverts the documented code table. Any list of coefficients whose
  magnitudes the ten tiers cover, encoded symbol by symbol and followed by any number of
  zero padding bits, decodes to exactly that list.
\<close>

theorem unpack_inverts_encoding:
  assumes "\<forall>c \<in> set cs. \<bar>c\<bar> < tier_base 10"
    and "length cs < MAX_DECOMPRESSED_SAMPLES"
    and "bits_of data = concat (map rice_encode cs) @ replicate p False"
  shows "unpack_coefficients data = Ok cs"
proof -
  have "rice_decode (bits_of data) = cs"
    using assms(1,3) rice_decode_stream [of cs p] by (simp add: MAX_TIER_def)
  with assms(2) unpack_coefficients_complete [of data] show ?thesis by simp
qed

theorem unpack_inverts_encoding_witness:
  "unpack_coefficients [0xA4, 0x10] = Ok [1, -4]"
proof (rule unpack_inverts_encoding [where p = 4])
  show "bits_of [0xA4, 0x10] = concat (map rice_encode [1, -4]) @ replicate 4 False"
    by code_simp
  have "tier_base 10 = 613566756"
    by (simp add: numeral_eq_Suc)
  then show "\<forall>c \<in> set [1, - 4]. \<bar>c\<bar> < tier_base 10" by simp
  show "length [1, - 4 :: int] < MAX_DECOMPRESSED_SAMPLES"
    by (simp add: MAX_DECOMPRESSED_SAMPLES_def)
qed

text \<open>
  C18: On every input the buffered bit reader and its loop compute what the plain list
  decoder computes: whatever is returned is the decoding of the whole bit string, and a
  result is returned whenever it holds fewer than the limit of coefficients.
\<close>

theorem unpack_refines_list_decoder:
  "(\<forall>cs. unpack_coefficients data = Ok cs \<longrightarrow> rice_decode (bits_of data) = cs) \<and>
   (length (rice_decode (bits_of data)) < MAX_DECOMPRESSED_SAMPLES \<longrightarrow>
      unpack_coefficients data = Ok (rice_decode (bits_of data)))"
  using unpack_coefficients_sound unpack_coefficients_complete by blast

theorem unpack_refines_list_decoder_witness:
  "unpack_coefficients [0xA0] = Ok (rice_decode (bits_of [0xA0]))"
proof -
  have "rice_decode (bits_of [0xA0]) = [1]"
    by (simp add: byte_bits_def rice_decode.simps MAX_TIER_def symbol_value_def wrap_i32_def
        twos_def untwos_def Let_def drop_bit_eq_div)
  then have "length (rice_decode (bits_of [0xA0])) < MAX_DECOMPRESSED_SAMPLES"
    by (simp add: MAX_DECOMPRESSED_SAMPLES_def)
  then show ?thesis using unpack_refines_list_decoder by blast
qed

text \<open>
  C19: \<open>decompress\<close> returns on every input, and a successful result has exactly the
  declared number of values; success means the factor is in 1 to 31, both dimensions are
  non-zero, the product is within the limit and the shape is not the unsupported IQ shape.
\<close>

theorem decompress_total_and_sized:
  "\<exists>res. decompress data factor rows cols = Some res \<and>
     (case res of
        Inl e \<Rightarrow> True
      | Inr vs \<Rightarrow> length vs = rows * cols \<and> 1 \<le> factor \<and> factor \<le> 31 \<and> 0 < rows \<and> 0 < cols \<and>
               rows * cols \<le> MAX_OUTPUT_VALUES \<and> \<not> (rows = 1 \<and> 128 \<le> cols) \<and>
               is_ok (unpack_coefficients data))"
proof (cases "factor = 0 \<or> 31 < factor \<or> rows = 0 \<or> cols = 0 \<or> rows = 1 \<and> 128 \<le> cols")
  case True
  then show ?thesis by (auto simp: decompress_def)
next
  case False
  then have g: "factor \<noteq> 0" "\<not> 31 < factor" "\<not> (rows = 0 \<or> cols = 0)" "\<not> (rows = 1 \<and> 128 \<le> cols)"
    by auto
  show ?thesis
  proof (cases "unpack_coefficients data")
    case (Inl e)
    with g show ?thesis by (simp add: decompress_def)
  next
    case (Inr cs)
    show ?thesis
    proof (cases "rows * cols \<le> MAX_OUTPUT_VALUES")
      case le: False
      with g Inr show ?thesis by (auto simp: decompress_def checked_mul_def)
    next
      case True
      define d where "d = dequantize cs factor"
      define sized where "sized = (if length d < rows * cols
          then d @ replicate (rows * cols - length d) zero else take (rows * cols) d)"
      have len: "length sized = rows * cols" by (simp add: sized_def)
      obtain v where v: "inverse_wavelet_transform sized rows cols = Some v" "length v = length sized"
        using g by (rule_tac inverse_wavelet_transform_returns [of rows cols sized]) auto
      have m: "checked_mul rows cols = Some (rows * cols)"
        using True by (simp add: checked_mul_def MAX_OUTPUT_VALUES_def USIZE_MAX_def)
      have nl: "\<not> MAX_OUTPUT_VALUES < rows * cols" using True by simp
      have "decompress data factor rows cols
          = map_option Ok (inverse_wavelet_transform sized rows cols)"
        unfolding decompress_def sized_def d_def Let_def
        by (simp only: g if_False m nl Inr sum.case option.case)
      then have "decompress data factor rows cols = Some (Ok v)" by (simp add: v(1))
      with v(2) len g True Inr show ?thesis by auto
    qed
  qed
qed

end
