(* ===== verification/Text.thy ===== *)
theory Text
  imports Softfloat
begin

text \<open>
  The part of Rust's string library the crate's parsers use, on ASCII text: trimming,
  suffix tests and \<open>str::parse\<close> at \<open>f64\<close>, which reads a decimal number exactly
  and rounds it once.
\<close>

definition is_ws :: "char \<Rightarrow> bool" where
  "is_ws c = (c = CHR 0x20 \<or> 9 \<le> (of_char c :: nat) \<and> (of_char c :: nat) \<le> 13)"

definition str_trim_start :: "string \<Rightarrow> string" where
  "str_trim_start s = dropWhile is_ws s"

definition str_trim_end :: "string \<Rightarrow> string" where
  "str_trim_end s = rev (dropWhile is_ws (rev s))"

definition str_trim :: "string \<Rightarrow> string" where
  "str_trim s = str_trim_end (str_trim_start s)"

definition ends_with :: "string \<Rightarrow> string \<Rightarrow> bool" where
  "ends_with s p = (length p \<le> length s \<and> drop (length s - length p) s = p)"

definition starts_with :: "string \<Rightarrow> string \<Rightarrow> bool" where
  "starts_with s p = (take (length p) s = p)"

text \<open>\<open>trim_end_matches\<close>: the pattern is removed as often as it stands at the end.\<close>

function trim_end_matches :: "string \<Rightarrow> string \<Rightarrow> string" where
  "trim_end_matches p s =
     (if p \<noteq> [] \<and> ends_with s p then trim_end_matches p (take (length s - length p) s) else s)"
  by pat_completeness auto
termination
proof (relation "measure (\<lambda>(p, s). length s)", goal_cases)
  case (2 p s)
  then have "0 < length p" "length p \<le> length s" by (auto simp: ends_with_def)
  then have "length s - length p < length s" by linarith
  then show ?case by simp
qed simp

declare trim_end_matches.simps [simp del]

definition to_lower :: "char \<Rightarrow> char" where
  "to_lower c = (let n = of_char c :: nat in if 65 \<le> n \<and> n \<le> 90 then char_of (n + 32) else c)"

section \<open>Decimal numbers\<close>

definition is_digit :: "char \<Rightarrow> bool" where
  "is_digit c = (48 \<le> (of_char c :: nat) \<and> (of_char c :: nat) \<le> 57)"

definition digits_nat :: "string \<Rightarrow> nat" where
  "digits_nat ds = fold (\<lambda>c n. 10 * n + (of_char c - 48)) ds 0"

definition split_sign :: "string \<Rightarrow> bool \<times> string" where
  "split_sign s =
     (case s of
        [] \<Rightarrow> (False, s)
      | c # r \<Rightarrow> if c = CHR ''-'' then (True, r) else if c = CHR ''+'' then (False, r) else (False, s))"

definition split_fraction :: "string \<Rightarrow> string \<times> string" where
  "split_fraction s =
     (case s of
        [] \<Rightarrow> ([], [])
      | c # r \<Rightarrow> if c = CHR ''.'' then (takeWhile is_digit r, dropWhile is_digit r) else ([], s))"

definition parse_exponent :: "string \<Rightarrow> int option" where
  "parse_exponent s =
     (case s of
        [] \<Rightarrow> Some 0
      | c # r \<Rightarrow>
          if to_lower c = CHR ''e''
          then let (neg, ds) = split_sign r
               in if ds = [] \<or> \<not> list_all is_digit ds then None
                  else Some (if neg then - int (digits_nat ds) else int (digits_nat ds))
          else None)"

definition parse_decimal :: "string \<Rightarrow> rat option" where
  "parse_decimal s =
     (let whole = takeWhile is_digit s;
          (frac, tail) = split_fraction (dropWhile is_digit s)
      in if whole = [] \<and> frac = [] then None
         else map_option
                (\<lambda>e. of_nat (digits_nat (whole @ frac)) * 10 powi (e - int (length frac)))
                (parse_exponent tail))"

definition parse_f64 :: "string \<Rightarrow> f64 option" where
  "parse_f64 s =
     (let (neg, body) = split_sign s; low = map to_lower body
      in if low = ''inf'' \<or> low = ''infinity'' then Some (Inf neg)
         else if low = ''nan'' then Some (if neg then fneg cnan else cnan)
         else map_option (rnd B64 neg) (parse_decimal body))"

lemmas text_simps = parse_f64_def parse_decimal_def parse_exponent_def split_fraction_def
  split_sign_def digits_nat_def is_digit_def to_lower_def str_trim_def str_trim_start_def
  str_trim_end_def is_ws_def ends_with_def starts_with_def Let_def

lemma digits_nat_snoc: "digits_nat (ds @ [c]) = 10 * digits_nat ds + (of_char c - 48)"
  by (simp add: digits_nat_def)

lemma parse_decimal_nonneg: "parse_decimal s = Some q \<Longrightarrow> 0 \<le> q"
  by (auto simp: parse_decimal_def Let_def split: if_splits prod.splits)

lemma wf_parse_f64: "parse_f64 s = Some x \<Longrightarrow> wf B64 x"
  using parse_decimal_nonneg
  by (auto simp: parse_f64_def Let_def split: if_splits prod.splits)

text \<open>Decimal printing of an unsigned integer.\<close>

fun show_nat :: "nat \<Rightarrow> string" where
  "show_nat n = (if n < 10 then [char_of (48 + n)] else show_nat (n div 10) @ [char_of (48 + n mod 10)])"

declare show_nat.simps [simp del]

end
