(* ===== verification/Ladder.thy ===== *)
theory Ladder
  imports Text
begin

text \<open>
  \<open>src/src/utils.rs\<close>: receiver clocks, the decimation ladder and the searches over
  it, the IQ-mode rate check, the conversions between the vendor's epoch seconds and
  nanoseconds, frequency strings and the dual-channel deinterleaver.

  \<open>f64::total_cmp\<close> is the linear order of \<^typ>\<open>fl\<close>.
\<close>

section \<open>The total order of floats\<close>

fun total_key :: "fl \<Rightarrow> int \<times> rat" where
  "total_key (NaN True n) = (- 3, - of_nat n)"
| "total_key (Inf True) = (- 2, 0)"
| "total_key (Fin True q) = (- 1, - q)"
| "total_key (Fin False q) = (0, q)"
| "total_key (Inf False) = (1, 0)"
| "total_key (NaN False n) = (2, of_nat n)"

lemma total_key_inj: "total_key x = total_key y \<Longrightarrow> x = y"
  by (cases x rule: total_key.cases; cases y rule: total_key.cases) auto

instantiation fl :: linorder
begin

definition less_eq_fl :: "fl \<Rightarrow> fl \<Rightarrow> bool" where
  "less_eq_fl x y =
     (let (a, p) = total_key x; (b, q) = total_key y in a < b \<or> a = b \<and> p \<le> q)"

definition less_fl :: "fl \<Rightarrow> fl \<Rightarrow> bool" where
  "less_fl x y = (x \<le> y \<and> \<not> y \<le> (x :: fl))"

instance
proof
  fix x y z :: fl
  show "(x < y) = (x \<le> y \<and> \<not> y \<le> x)" by (simp add: less_fl_def)
  show "x \<le> x" by (simp add: less_eq_fl_def split: prod.splits)
  show "x \<le> y \<Longrightarrow> y \<le> z \<Longrightarrow> x \<le> z"
    by (auto simp: less_eq_fl_def split: prod.splits)
  show "x \<le> y \<Longrightarrow> y \<le> x \<Longrightarrow> x = y"
    by (rule total_key_inj) (auto simp: less_eq_fl_def split: prod.splits)
  show "x \<le> y \<or> y \<le> x" by (auto simp: less_eq_fl_def split: prod.splits)
qed

end

text \<open>\<open>Iterator::min_by\<close>: of several least elements the first is kept.\<close>

definition min_by :: "('a \<Rightarrow> 'k :: linorder) \<Rightarrow> 'a list \<Rightarrow> 'a option" where
  "min_by k xs =
     (case xs of [] \<Rightarrow> None | y # ys \<Rightarrow> Some (foldl (\<lambda>a b. if k a \<le> k b then a else b) y ys))"

lemma foldl_min_by:
  fixes k :: "'a \<Rightarrow> 'k :: linorder"
  shows "foldl (\<lambda>a b. if k a \<le> k b then a else b) y ys \<in> set (y # ys) \<and>
   (\<forall>x \<in> set (y # ys). k (foldl (\<lambda>a b. if k a \<le> k b then a else b) y ys) \<le> k x)"
proof (induction ys arbitrary: y)
  case Nil
  then show ?case by simp
next
  case (Cons z zs)
  show ?case
  proof (cases "k y \<le> k z")
    case True
    with Cons.IH [of y] show ?thesis by (auto intro: order_trans)
  next
    case False
    with Cons.IH [of z] show ?thesis by (auto intro: order_trans)
  qed
qed

lemma min_by_least:
  "min_by k xs = Some x \<Longrightarrow> x \<in> set xs \<and> (\<forall>y \<in> set xs. k x \<le> k y)"
  using foldl_min_by [where k = k] by (auto simp: min_by_def split: list.splits)

lemma min_by_Nil [simp]: "min_by k xs = None \<longleftrightarrow> xs = []"
  by (auto simp: min_by_def split: list.splits)

lemma min_by_map: "min_by k (map f xs) = map_option f (min_by (k \<circ> f) xs)"
proof (cases xs)
  case (Cons y ys)
  have "foldl (\<lambda>a b. if k a \<le> k b then a else b) (f y) (map f ys)
      = f (foldl (\<lambda>a b. if k (f a) \<le> k (f b) then a else b) y ys)"
    by (induction ys arbitrary: y) (auto simp: foldl_Cons)
  with Cons show ?thesis by (simp add: min_by_def)
qed (simp add: min_by_def)

section \<open>Clocks and the ladder\<close>

abbreviation flit :: "rat \<Rightarrow> f64" where "flit \<equiv> lit B64"

definition DEFAULT_RECEIVER_CLOCK_HZ :: f64 where "DEFAULT_RECEIVER_CLOCK_HZ = flit 92160000"
definition IQ_RATE_CLOCK_RATIO :: f64 where "IQ_RATE_CLOCK_RATIO = flit (3 / 2)"
definition IQ_CLOCK_HZ :: f64 where "IQ_CLOCK_HZ = flit 61440000"
definition USABLE_BANDWIDTH_RATIO :: f64 where "USABLE_BANDWIDTH_RATIO = flit (4 / 5)"
definition LADDER_TOP_TOLERANCE :: f64 where "LADDER_TOP_TOLERANCE = flit (1 / 100)"

definition RECEIVER_CLOCKS_HZ :: "f64 list" where
  "RECEIVER_CLOCKS_HZ =
     [flit 46080000, flit 61440000, flit 76800000, flit 92160000,
      flit 122880000, flit 184320000, flit 245760000, flit 491520000]"

definition receiver_clock_for_label :: "string \<Rightarrow> f64" where
  "receiver_clock_for_label label =
     (let l = str_trim label
      in if l = ''46MHz'' then flit 46080000
         else if l = ''61MHz'' then flit 61440000
         else if l = ''76MHz'' \<or> l = ''77MHz'' then flit 76800000
         else if l = ''92MHz'' then flit 92160000
         else if l = ''122MHz'' then flit 122880000
         else if l = ''184MHz'' then flit 184320000
         else if l = ''245MHz'' then flit 245760000
         else if l = ''492MHz'' then flit 491520000
         else case parse_f64 (str_trim (trim_end_matches ''MHz'' l)) of
                Some mhz \<Rightarrow> fmul B64 mhz (flit 1000000)
              | None \<Rightarrow> DEFAULT_RECEIVER_CLOCK_HZ)"

definition snap_to_ladder_top :: "f64 \<Rightarrow> f64 option" where
  "snap_to_ladder_top measured =
     (if \<not> is_finite measured \<or> fle measured zero then None
      else find (\<lambda>top_hz. fle (fdiv B64 (fabs (fsub B64 measured top_hz)) top_hz) LADDER_TOP_TOLERANCE)
             (map (\<lambda>clock. fdiv B64 clock IQ_RATE_CLOCK_RATIO) RECEIVER_CLOCKS_HZ))"

definition iq_ladder_from_top :: "f64 \<Rightarrow> f64 list" where
  "iq_ladder_from_top top_hz = map (\<lambda>n. fdiv B64 top_hz (of_nat_fl B64 (2 ^ n))) [0..<10]"

text \<open>\<open>2f64.powi(n)\<close> is exact up to the largest exponent and infinite above it.\<close>

definition pow2_f64 :: "nat \<Rightarrow> f64" where
  "pow2_f64 n = (if 1024 \<le> n then Inf False else Fin False (2 ^ n))"

definition iq_ladder_from_top_n :: "f64 \<Rightarrow> nat \<Rightarrow> f64 list" where
  "iq_ladder_from_top_n top_hz rungs =
     map (\<lambda>n. fdiv B64 top_hz (pow2_f64 (min n (2 ^ 31 - 1)))) [0..<rungs]"

definition iq_sample_rates_for_clock :: "f64 \<Rightarrow> f64 list" where
  "iq_sample_rates_for_clock clock = iq_ladder_from_top (fdiv B64 clock IQ_RATE_CLOCK_RATIO)"

definition iq_sample_rates :: "f64 list" where
  "iq_sample_rates = iq_sample_rates_for_clock DEFAULT_RECEIVER_CLOCK_HZ"

definition usable_bandwidth_hz :: "f64 \<Rightarrow> f64" where
  "usable_bandwidth_hz rate = fmul B64 rate USABLE_BANDWIDTH_RATIO"

definition nearest_iq_sample_rate :: "f64 \<Rightarrow> f64" where
  "nearest_iq_sample_rate requested =
     (case min_by (\<lambda>a. fabs (fsub B64 a requested)) iq_sample_rates of
        Some r \<Rightarrow> r | None \<Rightarrow> IQ_CLOCK_HZ)"

definition iq_sample_rate_for_bandwidth :: "f64 \<Rightarrow> f64" where
  "iq_sample_rate_for_bandwidth bandwidth =
     (let needed = fdiv B64 bandwidth USABLE_BANDWIDTH_RATIO;
          best = fold (\<lambda>rate best. Some (case best of
                     Some b \<Rightarrow> if fle b rate then b else rate
                   | None \<Rightarrow> rate))
                   (filter (\<lambda>rate. fle needed rate) iq_sample_rates) None
      in case best of Some b \<Rightarrow> b | None \<Rightarrow> IQ_CLOCK_HZ)"

definition iq_sample_rate_for_decimation_index :: "nat \<Rightarrow> f64" where
  "iq_sample_rate_for_decimation_index index =
     (let rates = iq_sample_rates in rates ! min index (length rates - 1))"

definition decimation_index_for_rate :: "f64 \<Rightarrow> nat" where
  "decimation_index_for_rate rate =
     (case min_by (\<lambda>(i, a). fabs (fsub B64 a rate)) (enumerate 0 iq_sample_rates) of
        Some (i, a) \<Rightarrow> i | None \<Rightarrow> 0)"

definition decimation_index_for_bandwidth :: "f64 \<Rightarrow> nat" where
  "decimation_index_for_bandwidth bandwidth =
     decimation_index_for_rate (iq_sample_rate_for_bandwidth bandwidth)"

text \<open>The exact rungs of the default clock.\<close>

lemma iq_sample_rates_eq:
  "iq_sample_rates = map (\<lambda>n. Fin False n)
     [61440000, 30720000, 15360000, 7680000, 3840000, 1920000, 960000, 480000, 240000, 120000]"
  by (simp add: iq_sample_rates_def iq_sample_rates_for_clock_def iq_ladder_from_top_def
      DEFAULT_RECEIVER_CLOCK_HZ_def IQ_RATE_CLOCK_RATIO_def lit_def of_nat_fl_def upt_rec
      round_simps)

lemma length_iq_sample_rates [simp]: "length iq_sample_rates = 10"
  by (simp add: iq_sample_rates_eq)

section \<open>The searches agree\<close>

lemma decimation_index_bound: "decimation_index_for_rate r < 10"
proof -
  obtain i a where "min_by (\<lambda>(i, a). fabs (fsub B64 a r)) (enumerate 0 iq_sample_rates) = Some (i, a)"
    by (cases "min_by (\<lambda>(i, a). fabs (fsub B64 a r)) (enumerate 0 iq_sample_rates)")
       (auto simp: iq_sample_rates_eq)
  with min_by_least [OF this] show ?thesis
    by (auto simp: decimation_index_for_rate_def in_set_enumerate_eq)
qed

text \<open>
  The index search and the rate search are one search: for every requested rate, NaN and
  infinities included, the rung at the chosen enum index is the rate the nearest-rate search
  reports, and no rung is nearer.
\<close>

theorem index_and_rate_search_agree:
  "iq_sample_rate_for_decimation_index (decimation_index_for_rate r) = nearest_iq_sample_rate r \<and>
   list_all (\<lambda>rung. fabs (fsub B64 (nearest_iq_sample_rate r) r) \<le> fabs (fsub B64 rung r))
     iq_sample_rates"
proof -
  let ?k = "\<lambda>a. fabs (fsub B64 a r)"
  let ?e = "enumerate 0 iq_sample_rates"
  obtain i a where e: "min_by (?k \<circ> snd) ?e = Some (i, a)"
    by (cases "min_by (?k \<circ> snd) ?e") (auto simp: iq_sample_rates_eq)
  have "min_by ?k (map snd ?e) = Some a" by (simp only: min_by_map e option.map snd_conv)
  then have m: "min_by ?k iq_sample_rates = Some a" by (simp only: map_snd_enumerate)
  have "(i, a) \<in> set ?e" using min_by_least [OF e] by simp
  then have ia: "i < 10" "iq_sample_rates ! i = a" by (auto simp: in_set_enumerate_eq)
  have pairs: "(\<lambda>(i, a). ?k a) = ?k \<circ> snd" by auto
  have "decimation_index_for_rate r = i"
    unfolding decimation_index_for_rate_def pairs e by simp
  moreover have "nearest_iq_sample_rate r = a" by (simp add: nearest_iq_sample_rate_def m)
  ultimately show ?thesis
    using ia min_by_least [OF m] by (simp add: iq_sample_rate_for_decimation_index_def min_def list_all_iff)
qed


lemma min_by_unique:
  assumes "x \<in> set xs" and "\<And>y. y \<in> set xs \<Longrightarrow> y \<noteq> x \<Longrightarrow> k x < k y"
  shows "min_by k xs = Some x"
proof -
  obtain z where z: "min_by k xs = Some z" using assms(1) by (cases "min_by k xs") auto
  have "z = x" using min_by_least [OF z] assms by fastforce
  with z show ?thesis by simp
qed

lemma fabs_fsub_self: "fabs (fsub B64 (Fin False p) (Fin False p)) = Fin False 0"
  by (simp add: fsub_def)

lemma fabs_fsub_far:
  assumes "1 \<le> \<bar>p - q\<bar>"
  shows "Fin False 0 < fabs (fsub B64 (Fin False p) (Fin False q))"
proof -
  have one: "rnd_mag B64 1 = 1" by (simp add: round_simps)
  have ge: "1 \<le> rnd_mag B64 \<bar>p - q\<bar>" using rnd_mag_mono [of 1 "\<bar>p - q\<bar>" B64] assms one by simp
  have "p \<noteq> q" using assms by auto
  with ge show ?thesis
    by (simp add: fsub_def rnds_def rnd_def Let_def less_fl_def less_eq_fl_def)
qed

lemma rungs_apart:
  "list_all (\<lambda>x. list_all (\<lambda>y. x = y \<or> \<not> is_nan x \<and> 1 \<le> \<bar>val x - val y\<bar>) iq_sample_rates) iq_sample_rates"
  by (simp add: iq_sample_rates_eq)

lemma rungs_positive: "x \<in> set iq_sample_rates \<Longrightarrow> \<exists>p. x = Fin False p \<and> 0 < p"
  by (auto simp: iq_sample_rates_eq)

lemma rungs_distinct: "distinct iq_sample_rates"
  by (simp add: iq_sample_rates_eq)

lemma decimation_index_for_rung:
  assumes "i < 10"
  shows "decimation_index_for_rate (iq_sample_rates ! i) = i"
proof -
  let ?r = "iq_sample_rates ! i"
  have "min_by (\<lambda>(j, a). fabs (fsub B64 a ?r)) (enumerate 0 iq_sample_rates) = Some (i, ?r)"
  proof (rule min_by_unique)
    show "(i, ?r) \<in> set (enumerate 0 iq_sample_rates)"
      using assms by (simp add: in_set_enumerate_eq)
    fix y assume y: "y \<in> set (enumerate 0 iq_sample_rates)" "y \<noteq> (i, ?r)"
    obtain j a where ja: "y = (j, a)" by (rule prod.exhaust)
    with y have j: "y = (j, iq_sample_rates ! j)" "j < 10" "j \<noteq> i"
      by (auto simp: in_set_enumerate_eq)
    then have ne: "iq_sample_rates ! j \<noteq> ?r"
      using assms rungs_distinct by (simp add: nth_eq_iff_index_eq)
    have mem: "iq_sample_rates ! j \<in> set iq_sample_rates" "?r \<in> set iq_sample_rates"
      using j assms by simp_all
    then obtain p q where pq: "iq_sample_rates ! j = Fin False p" "?r = Fin False q"
      using rungs_positive by blast
    have "1 \<le> \<bar>p - q\<bar>" using rungs_apart mem ne pq by (fastforce simp: list_all_iff)
    then show "(case (i, ?r) of (j, a) \<Rightarrow> fabs (fsub B64 a ?r))
        < (case y of (j, a) \<Rightarrow> fabs (fsub B64 a ?r))"
      by (simp only: j(1) prod.case pq fabs_fsub_self fabs_fsub_far)
  qed
  then show ?thesis by (simp add: decimation_index_for_rate_def)
qed

text \<open>
  Writing back the enum index of an adopted rate is lossless: the index found for the rate
  of any enum index is that index, clamped to the slowest rung.
\<close>

theorem decimation_index_roundtrip:
  "decimation_index_for_rate (iq_sample_rate_for_decimation_index i) = min i 9"
  by (simp add: iq_sample_rate_for_decimation_index_def decimation_index_for_rung)

lemma fold_least:
  assumes "\<And>x. x \<in> set xs \<Longrightarrow> \<not> is_nan x" and "\<not> is_nan a"
  shows "\<exists>b \<in> set (a # xs). fold (\<lambda>rate best. Some (case best of
           Some b \<Rightarrow> if fle b rate then b else rate | None \<Rightarrow> rate)) xs (Some a) = Some b \<and>
         (\<forall>x \<in> set (a # xs). fle b x)"
  using assms
proof (induction xs arbitrary: a)
  case Nil
  then show ?case by simp
next
  case (Cons y ys)
  let ?f = "\<lambda>rate best. Some (case best of Some b \<Rightarrow> if fle b rate then b else rate | None \<Rightarrow> rate)"
  show ?case
  proof (cases "fle a y")
    case True
    have "\<exists>b \<in> set (a # ys). fold ?f ys (Some a) = Some b \<and> (\<forall>x \<in> set (a # ys). fle b x)"
      by (rule Cons.IH) (use Cons.prems in auto)
    then obtain b where "b \<in> set (a # ys)" "fold ?f ys (Some a) = Some b" "\<forall>x \<in> set (a # ys). fle b x"
      by blast
    with True show ?thesis using fle_trans [of b a y] by (intro bexI [of _ b]) auto
  next
    case False
    then have ya: "fle y a" using Cons.prems not_flt [of y a] flt_imp_fle fle_def
      by (metis list.set_intros(1) not_flt)
    have "\<exists>b \<in> set (y # ys). fold ?f ys (Some y) = Some b \<and> (\<forall>x \<in> set (y # ys). fle b x)"
      by (rule Cons.IH) (use Cons.prems in auto)
    then obtain b where "b \<in> set (y # ys)" "fold ?f ys (Some y) = Some b" "\<forall>x \<in> set (y # ys). fle b x"
      by blast
    with False ya show ?thesis using fle_trans [of b y a] by (intro bexI [of _ b]) auto
  qed
qed

text \<open>
  The rate chosen for a bandwidth is a rung of the ladder, the enum index chosen for the
  same bandwidth selects exactly that rate, and the rate is the lowest rung that covers the
  request, or the fastest rung when none does.
\<close>

theorem rate_for_bandwidth_least:
  "iq_sample_rate_for_decimation_index (decimation_index_for_bandwidth b) = iq_sample_rate_for_bandwidth b \<and>
   (if list_ex (fle (fdiv B64 b USABLE_BANDWIDTH_RATIO)) iq_sample_rates
    then fle (fdiv B64 b USABLE_BANDWIDTH_RATIO) (iq_sample_rate_for_bandwidth b) \<and>
         list_all (fle (iq_sample_rate_for_bandwidth b))
           (filter (fle (fdiv B64 b USABLE_BANDWIDTH_RATIO)) iq_sample_rates)
    else iq_sample_rate_for_bandwidth b = IQ_CLOCK_HZ)"
proof -
  let ?n = "fdiv B64 b USABLE_BANDWIDTH_RATIO"
  let ?r = "iq_sample_rate_for_bandwidth b"
  have top: "IQ_CLOCK_HZ \<in> set iq_sample_rates"
    by (simp add: iq_sample_rates_eq IQ_CLOCK_HZ_def lit_def round_simps)
  have core: "?r \<in> set iq_sample_rates \<and>
     (if list_ex (fle ?n) iq_sample_rates
      then fle ?n ?r \<and> (\<forall>rung \<in> set iq_sample_rates. fle ?n rung \<longrightarrow> fle ?r rung)
      else ?r = IQ_CLOCK_HZ)"
  proof (cases "filter (\<lambda>rate. fle ?n rate) iq_sample_rates")
    case Nil
    then have "\<not> list_ex (fle ?n) iq_sample_rates" by (auto simp: list_ex_iff filter_empty_conv)
    with Nil top show ?thesis by (simp add: iq_sample_rate_for_bandwidth_def Let_def)
  next
    case (Cons x xs)
    have eq: "set (x # xs) = {y \<in> set iq_sample_rates. fle ?n y}" using Cons by (metis set_filter)
    then have sub: "set (x # xs) \<subseteq> set iq_sample_rates" "\<forall>y \<in> set (x # xs). fle ?n y" by blast+
    have nn: "\<not> is_nan y" if "y \<in> set (x # xs)" for y
      using sub(2) that fle_not_nan by blast
    obtain m where m: "m \<in> set (x # xs)" "\<forall>y \<in> set (x # xs). fle m y"
      "fold (\<lambda>rate best. Some (case best of
           Some b \<Rightarrow> if fle b rate then b else rate | None \<Rightarrow> rate)) xs (Some x) = Some m"
      using fold_least [of xs x] nn by auto
    have r: "?r = m" by (simp add: iq_sample_rate_for_bandwidth_def Let_def Cons m(3))
    have "list_ex (fle ?n) iq_sample_rates" using sub m(1) by (auto simp: list_ex_iff)
    moreover have "y \<in> set (x # xs)" if "y \<in> set iq_sample_rates" "fle ?n y" for y
      using that eq by blast
    ultimately show ?thesis using r m(1,2) sub by auto
  qed
  then obtain i where "i < 10" "iq_sample_rates ! i = ?r" by (auto simp: in_set_conv_nth)
  then have "iq_sample_rate_for_decimation_index (decimation_index_for_bandwidth b) = ?r"
    using decimation_index_for_rung [of i]
    by (auto simp: decimation_index_for_bandwidth_def iq_sample_rate_for_decimation_index_def min_def)
  with core show ?thesis by (auto simp: list_all_iff)
qed

end
