(* ===== verification/Utils.thy ===== *)
theory Utils
  imports Ladder
begin

text \<open>
  The rest of \<open>src/src/utils.rs\<close> (rate checks, epoch conversions, frequency strings,
  receiver channels, dual-channel packets) and \<open>src/src/stream_geometry.rs\<close>.
\<close>

section \<open>Rate checks\<close>

definition validate_iq_mode :: "f64 \<Rightarrow> f64 \<Rightarrow> unit result" where
  "validate_iq_mode rate clock =
     (if \<not> is_finite rate \<or> fle rate zero
      then Err (Config ''sample rate must be a finite positive number (got '')
      else if \<not> is_finite clock \<or> fle clock zero
      then Err (Config ''receiver_clock must be a finite positive number (got '')
      else if flt (fdiv B64 clock IQ_RATE_CLOCK_RATIO) rate
      then Err (Config ''IQ Mode constraint violated: sample rate '')
      else Ok ())"

section \<open>Epoch seconds and nanoseconds\<close>

definition checked_i64 :: "int \<Rightarrow> int option" where
  "checked_i64 i = (if - (2 ^ 63) \<le> i \<and> i < 2 ^ 63 then Some i else None)"

definition to_i64 :: "f64 \<Rightarrow> int" where
  "to_i64 x = to_int (- (2 ^ 63)) (2 ^ 63 - 1) x"

definition epoch_seconds_to_nanos :: "f64 \<Rightarrow> int option" where
  "epoch_seconds_to_nanos seconds =
     (if \<not> is_finite seconds \<or> flt seconds zero then None
      else let whole = ffloor seconds
           in Option.bind (checked_i64 (to_i64 whole * 1000000000)) (\<lambda>w.
              checked_i64 (w + to_i64 (fround (fmul B64 (fsub B64 seconds whole) (flit 1000000000))))))"

definition epoch_nanos_to_seconds :: "int \<Rightarrow> f64" where
  "epoch_nanos_to_seconds nanos =
     (let whole = nanos div 1000000000; rem = nanos mod 1000000000
      in fadd B64 (of_int_fl B64 whole) (fmul B64 (of_int_fl B64 rem) (flit (1 / 10 ^ 9))))"

section \<open>Frequency strings\<close>

definition parse_frequency :: "string \<Rightarrow> f64 result" where
  "parse_frequency text =
     (let s = str_trim text;
          (value_str, unit_str) =
            (if ends_with s ''k'' \<or> ends_with s ''K'' then (take (length s - 1) s, ''k'')
             else if ends_with s ''m'' \<or> ends_with s ''M'' then (take (length s - 1) s, ''M'')
             else if ends_with s ''g'' \<or> ends_with s ''G'' then (take (length s - 1) s, ''G'')
             else (s, ''''))
      in case parse_f64 value_str of
           None \<Rightarrow> Err (Config ''Invalid frequency value: '')
         | Some v \<Rightarrow>
             if unit_str = ''k'' then Ok (fmul B64 v (flit 1000))
             else if unit_str = ''M'' then Ok (fmul B64 v (flit 1000000))
             else if unit_str = ''G'' then Ok (fmul B64 v (flit 1000000000))
             else Ok v)"

definition parse_sample_rate :: "string \<Rightarrow> f64 result" where
  "parse_sample_rate s = parse_frequency s"

text \<open>The environment variable is the argument: \<open>None\<close> when it is not set.\<close>

definition user_agent :: "string option \<Rightarrow> string \<Rightarrow> string" where
  "user_agent env version =
     (case env of
        Some s \<Rightarrow> if str_trim s \<noteq> [] then s else ''sdr-aaronia-rs/'' @ version
      | None \<Rightarrow> ''sdr-aaronia-rs/'' @ version)"

section \<open>Receiver channels\<close>

datatype rx_channel = Rx1 | Rx2 | Rx1And2

fun as_config_str :: "rx_channel \<Rightarrow> string" where
  "as_config_str Rx1 = ''Rx1''"
| "as_config_str Rx2 = ''Rx2''"
| "as_config_str Rx1And2 = ''Rx12''"

type_synonym iq = "f32 \<times> f32"

definition deinterleave_dual_iq :: "f32 list \<Rightarrow> nat \<Rightarrow> nat \<Rightarrow> ((iq \<times> iq) list) result" where
  "deinterleave_dual_iq floats num_samples stride =
     (let pairs = map (\<lambda>i. let base = i * stride
                           in ((floats ! base, floats ! (base + 1)),
                               (floats ! (base + 2), floats ! (base + 3)))) [0..<num_samples]
      in if stride < 4 then Err (Sdk ''packet stride '')
         else if 0 < num_samples
         then case Option.bind (checked_mul (num_samples - 1) stride) (\<lambda>n. checked_add n 4) of
                None \<Rightarrow> Err (Sdk ''dual-channel packet dimensions overflow: '')
              | Some needed \<Rightarrow>
                  if length floats < needed then Err (Sdk ''dual-channel packet too short: '')
                  else Ok pairs
         else Ok pairs)"

section \<open>Packet geometry\<close>

record iq_geometry =
  geo_rate_hz :: f64
  geo_bandwidth_hz :: "f64 option"
  geo_center_hz :: "f64 option"

definition from_packet :: "f64 \<Rightarrow> f64 \<Rightarrow> f64 \<Rightarrow> iq_geometry option" where
  "from_packet start rate width_hz =
     (if \<not> is_finite rate \<or> fle rate zero then None
      else let bw = (if is_finite width_hz \<and> flt zero width_hz \<and> fle width_hz rate then Some width_hz else None);
               center = Option.bind bw (\<lambda>width.
                 let c = fadd B64 start (fdiv B64 width (flit 2))
                 in if is_finite c \<and> fle zero c then Some c else None)
           in Some \<lparr>geo_rate_hz = rate, geo_bandwidth_hz = bw, geo_center_hz = center\<rparr>)"

definition validate_eco_span :: "f64 \<Rightarrow> f64 \<Rightarrow> f64 \<Rightarrow> unit result" where
  "validate_eco_span width_hz minimum maximum =
     (if \<not> (is_finite width_hz \<and> flt zero width_hz \<and> is_finite maximum \<and> flt zero maximum \<and>
             is_finite minimum \<and> fle zero minimum \<and> fle minimum width_hz \<and> fle width_hz maximum)
      then Err (Config ''ECO IQ span '') else Ok ())"

section \<open>A measured rate names at most one rung\<close>

lemma fabs_fsub_rnd:
  "fabs (fsub B64 (Fin s p) (Fin t q)) = rnd B64 False \<bar>val (Fin s p) - val (Fin t q)\<bar>"
  by (auto simp: fsub_def rnds_def rnd_def Let_def abs_if)

lemma fdiv_rnd_mono:
  assumes "0 \<le> a" and "a \<le> b" and "0 < q"
  shows "fle (fdiv g (rnd f False a) (Fin False q)) (fdiv g (rnd f False b) (Fin False q))"
proof -
  have "rnd_mag f a \<le> rnd_mag f b" using assms by (intro rnd_mag_mono)
  then have "rnd_mag f a / q \<le> rnd_mag f b / q" "0 \<le> rnd_mag f a / q"
    using assms by (simp_all add: divide_right_mono rnd_mag_nonneg)
  then have "fle (rnd g False (rnd_mag f a / q)) (rnd g False (rnd_mag f b / q))" by (intro rnd_mono)
  then show ?thesis
    using assms \<open>rnd_mag f a \<le> rnd_mag f b\<close> by (auto simp: rnd_def [of f] Let_def)
      (auto simp: rnd_def Let_def)
qed

definition ladder_tops :: "f64 list" where
  "ladder_tops = map (\<lambda>clock. fdiv B64 clock IQ_RATE_CLOCK_RATIO) RECEIVER_CLOCKS_HZ"

lemma ladder_tops_eq:
  "ladder_tops = map (Fin False)
     [30720000, 40960000, 51200000, 61440000, 81920000, 122880000, 163840000, 327680000]"
  by (simp add: ladder_tops_def RECEIVER_CLOCKS_HZ_def IQ_RATE_CLOCK_RATIO_def lit_def round_simps)

definition near_top :: "f64 \<Rightarrow> f64 \<Rightarrow> bool" where
  "near_top m t = fle (fdiv B64 (fabs (fsub B64 m t)) t) LADDER_TOP_TOLERANCE"

lemma tolerance_brackets:
  "list_all (\<lambda>t.
     fle (fdiv B64 (rnd B64 False (99 / 10000 * val t)) t) LADDER_TOP_TOLERANCE \<and>
     flt LADDER_TOP_TOLERANCE (fdiv B64 (rnd B64 False (101 / 10000 * val t)) t)) ladder_tops"
  by (simp add: ladder_tops_eq LADDER_TOP_TOLERANCE_def lit_def round_simps)

lemma ladder_tops_positive: "t \<in> set ladder_tops \<Longrightarrow> \<exists>q. t = Fin False q \<and> 0 < q"
  by (auto simp: ladder_tops_eq)

lemma ladder_tops_apart:
  "list_all (\<lambda>x. list_all (\<lambda>y. x = y \<or> 1 / 7 * val x \<le> \<bar>val x - val y\<bar>) ladder_tops) ladder_tops"
  by (simp add: ladder_tops_eq)

lemma near_top_if:
  assumes "t \<in> set ladder_tops" and "is_finite m" and "\<bar>val m - val t\<bar> \<le> 99 / 10000 * val t"
  shows "near_top m t"
proof -
  obtain q where q: "t = Fin False q" "0 < q" using assms(1) ladder_tops_positive by blast
  obtain s p where m: "m = Fin s p" using assms(2) by (cases m) auto
  have "fle (fdiv B64 (fabs (fsub B64 m t)) t) (fdiv B64 (rnd B64 False (99 / 10000 * val t)) t)"
    unfolding m q fabs_fsub_rnd using assms(3) q m by (intro fdiv_rnd_mono) auto
  moreover have "fle (fdiv B64 (rnd B64 False (99 / 10000 * val t)) t) LADDER_TOP_TOLERANCE"
    using tolerance_brackets assms(1) by (auto simp: list_all_iff)
  ultimately show ?thesis unfolding near_top_def by (rule fle_trans)
qed

lemma near_top_only_if:
  assumes "t \<in> set ladder_tops" and "is_finite m" and "near_top m t"
  shows "\<bar>val m - val t\<bar> < 101 / 10000 * val t"
proof (rule ccontr)
  assume far: "\<not> ?thesis"
  obtain q where q: "t = Fin False q" "0 < q" using assms(1) ladder_tops_positive by blast
  obtain s p where m: "m = Fin s p" using assms(2) by (cases m) auto
  have "fle (fdiv B64 (rnd B64 False (101 / 10000 * val t)) t) (fdiv B64 (fabs (fsub B64 m t)) t)"
    unfolding m q fabs_fsub_rnd using far q m by (intro fdiv_rnd_mono) auto
  moreover have "flt LADDER_TOP_TOLERANCE (fdiv B64 (rnd B64 False (101 / 10000 * val t)) t)"
    using tolerance_brackets assms(1) by (auto simp: list_all_iff)
  ultimately have "flt LADDER_TOP_TOLERANCE (fdiv B64 (fabs (fsub B64 m t)) t)"
    by (blast intro: flt_fle_trans)
  then have "flt LADDER_TOP_TOLERANCE LADDER_TOP_TOLERANCE"
    using assms(3) unfolding near_top_def by (rule flt_fle_trans)
  then show False by simp
qed

lemma near_top_unique:
  assumes "t \<in> set ladder_tops" "u \<in> set ladder_tops" "is_finite m" "near_top m t" "near_top m u"
  shows "t = u"
proof (rule ccontr)
  assume "t \<noteq> u"
  then have tu: "1 / 7 * val t \<le> \<bar>val t - val u\<bar>" "1 / 7 * val u \<le> \<bar>val u - val t\<bar>"
    using ladder_tops_apart assms(1,2) by (auto simp: list_all_iff)
  have "0 < val t" "0 < val u" using assms(1,2) ladder_tops_positive by fastforce+
  with tu near_top_only_if [of t m] near_top_only_if [of u m] assms show False by linarith
qed

lemma snap_eq:
  "snap_to_ladder_top m =
     (if \<not> is_finite m \<or> fle m zero then None else find (near_top m) ladder_tops)"
  by (simp add: snap_to_ladder_top_def ladder_tops_def near_top_def [abs_def])

text \<open>
  A measured native rate is snapped to a rung only when it lies within 1.01 per cent of
  it, every finite measurement within 0.99 per cent of a rung is snapped to that rung, and no
  measurement is close enough to two rungs to be snapped to the wrong one.
\<close>

theorem snap_names_the_rung:
  "(snap_to_ladder_top m = Some t \<longrightarrow>
      t \<in> set ladder_tops \<and> \<bar>val m - val t\<bar> < 101 / 10000 * val t) \<and>
   (t \<in> set ladder_tops \<and> is_finite m \<and> \<bar>val m - val t\<bar> \<le> 99 / 10000 * val t \<longrightarrow>
      snap_to_ladder_top m = Some t)"
proof (intro conjI impI)
  assume s: "snap_to_ladder_top m = Some t"
  then have m: "is_finite m" "find (near_top m) ladder_tops = Some t"
    by (auto simp: snap_eq split: if_splits)
  from m(2) have "t \<in> set ladder_tops" "near_top m t"
    by (auto simp: find_Some_iff)
  with m near_top_only_if show "t \<in> set ladder_tops" "\<bar>val m - val t\<bar> < 101 / 10000 * val t"
    by blast+
next
  assume a: "t \<in> set ladder_tops \<and> is_finite m \<and> \<bar>val m - val t\<bar> \<le> 99 / 10000 * val t"
  then have near: "near_top m t" using near_top_if by blast
  have "0 < val t" using a ladder_tops_positive by fastforce
  with a have "0 < val m" by linarith
  then have "\<not> fle m zero" by (cases m) (auto simp: zero_def)
  moreover have "find (near_top m) ladder_tops = Some t"
    using a near near_top_unique by (intro find_unique) blast+
  ultimately show "snap_to_ladder_top m = Some t" using a by (simp add: snap_eq)
qed

theorem snap_names_the_rung_witness:
  "snap_to_ladder_top (Fin False 61411246) = Some (Fin False 61440000)"
proof -
  have "Fin False 61440000 \<in> set ladder_tops" by (simp add: ladder_tops_eq)
  then show ?thesis
    using snap_names_the_rung [of "Fin False 61411246" "Fin False 61440000"] by simp
qed

section \<open>The ladder and the rate check\<close>

text \<open>
  The ladder never offers a rate the device refuses: every non-zero rung computed for a
  finite positive receiver clock passes the IQ-mode check at that clock.
\<close>

theorem ladder_rungs_pass_iq_mode:
  assumes "wf B64 clock" "is_finite clock" "flt zero clock"
    and "rate \<in> set (iq_sample_rates_for_clock clock)" "flt zero rate"
  shows "validate_iq_mode rate clock = Ok ()"
proof -
  obtain c where c: "clock = Fin False c" "0 < c"
    using assms(1-3) by (cases clock) (auto simp: zero_def split: if_splits intro: that)
  have ratio: "IQ_RATE_CLOCK_RATIO = Fin False (3 / 2)"
    by (simp add: IQ_RATE_CLOCK_RATIO_def lit_def round_simps)
  define u where "u = rnd_mag B64 (c / (3 / 2))"
  have wfc: "wf B64 (Fin False c)" using assms(1) c(1) by (simp only:)
  have "fdiv B64 clock IQ_RATE_CLOCK_RATIO = rnd B64 False (c / (3 / 2))"
    by (simp only: ratio c(1) fdiv.simps) simp
  then have u: "fdiv B64 clock IQ_RATE_CLOCK_RATIO = Fin False u" "0 \<le> u"
    unfolding u_def using c(2) rnd_le_finite(1) [OF _ _ wfc, of "c / (3 / 2)" False]
    by (simp_all add: rnd_mag_nonneg)
  have wfu: "wf B64 (Fin False u)"
    using u(1) assms(1) wf_fdiv [of B64 clock IQ_RATE_CLOCK_RATIO] by (simp add: ratio round_simps)
  obtain n where n: "rate = fdiv B64 (Fin False u) (of_nat_fl B64 (2 ^ n))" "n < 10"
    using assms(4) by (auto simp: iq_sample_rates_for_clock_def iq_ladder_from_top_def u(1))
  have p2: "of_nat_fl B64 (2 ^ n) = Fin False (2 ^ n)"
  proof -
    have "rnd_mag B64 (of_int 1 * 2 powi int n) = of_int 1 * 2 powi int n"
      by (rule rnd_mag_exact) (simp_all add: emin_def)
    then have "rnd_mag B64 (2 ^ n) = 2 ^ n" by simp
    moreover have "(2 :: rat) ^ n < 2 powi (emax B64 + 1)"
      using n(2) powi_strict_mono [of "int n" 1024] by simp
    ultimately show ?thesis by (simp add: of_nat_fl_def rnd_def Let_def del: powi_less_iff)
  qed
  have "u * 1 \<le> u * 2 ^ n" using u(2) by (intro mult_left_mono) simp_all
  then have le: "u / 2 ^ n \<le> u" "0 \<le> u / 2 ^ n"
    using u(2) by (simp_all add: divide_le_eq)
  have r: "rate = Fin False (rnd_mag B64 (u / 2 ^ n))" "rnd_mag B64 (u / 2 ^ n) \<le> u"
    using rnd_le_finite [OF le(2,1) wfu] n(1) p2 by simp_all
  show ?thesis
    using assms(3,5) c(2) r(2) u(1)
    by (simp add: validate_iq_mode_def u(1) r(1) not_le zero_def del: fdiv.simps) (simp add: c(1) zero_def)
qed

section \<open>Accuracy of the epoch conversion\<close>

lemma nanos_of_fraction:
  assumes "0 \<le> d" "d < 1" "rnd_mag B64 d = d"
  defines "n \<equiv> to_i64 (fround (fmul B64 (Fin False d) (flit 1000000000)))"
  shows "0 \<le> n" "n \<le> 1000000000" "\<bar>of_int n - d * 1000000000\<bar> \<le> (1 :: rat)"
proof -
  have lit9: "flit 1000000000 = Fin False 1000000000" by (simp add: lit_def round_simps)
  define p where "p = d * 1000000000"
  have p: "0 \<le> p" "p < 1000000000" using assms(1,2) by (simp_all add: p_def)
  have wf9: "wf B64 (Fin False 1000000000)" by (simp add: round_simps)
  have r: "rnd B64 False p = Fin False (rnd_mag B64 p)" "rnd_mag B64 p \<le> 1000000000"
    using rnd_le_finite [of p 1000000000 B64 False] p wf9 by simp_all
  have "ulp_exp B64 p \<le> - 1"
  proof (cases "p = 0")
    case True
    have "0 \<le> bitlen (- 1)" by (rule bitlen_nonneg)
    with True show ?thesis by (simp add: ulp_exp_def ilog2_def emin_def)
  next
    case False
    then have "(2 :: rat) powi ilog2 p < 2 powi 30"
      using p ilog2_bounds [of p] by simp
    then have "ilog2 p < 30" by (simp only: powi_less_iff)
    then show ?thesis by (simp add: ulp_exp_def emin_def)
  qed
  then have "2 powi ulp_exp B64 p \<le> (2 :: rat) powi (- 1)" by (rule powi_mono)
  then have err: "\<bar>rnd_mag B64 p - p\<bar> \<le> 1 / 4"
    using rnd_mag_error [of p B64] p by (simp add: power_int_minus)
  define k where "k = \<lfloor>rnd_mag B64 p + 1 / 2\<rfloor>"
  have k: "0 \<le> k" "k \<le> 1000000000" "\<bar>of_int k - rnd_mag B64 p\<bar> \<le> 1 / 2"
  proof -
    have g: "0 \<le> rnd_mag B64 p" using p(1) by (rule rnd_mag_nonneg)
    then show "0 \<le> k" by (simp add: k_def)
    show "k \<le> 1000000000" using r(2) by (simp add: k_def floor_le_iff)
    show "\<bar>of_int k - rnd_mag B64 p\<bar> \<le> 1 / 2" unfolding k_def by linarith
  qed
  have "n = k"
    using r(1) k(1,2) by (simp add: n_def to_i64_def lit9 k_def flip: p_def)
  with k err show "0 \<le> n" "n \<le> 1000000000" "\<bar>of_int n - d * 1000000000\<bar> \<le> (1 :: rat)"
    unfolding p_def by linarith+
qed

text \<open>
  Every representable non-negative time before the end of the 63-bit nanosecond range
  converts to a nanosecond count within one nanosecond of its exact value, never below the
  whole second; only times at or past that range are refused.
\<close>

theorem epoch_nanos_accurate:
  assumes "wf B64 (Fin False q)"
  shows "case epoch_seconds_to_nanos (Fin False q) of
      Some n \<Rightarrow> \<lfloor>q\<rfloor> * 1000000000 \<le> n \<and> \<bar>of_int n - q * 1000000000\<bar> \<le> (1 :: rat)
    | None \<Rightarrow> 9223372036 \<le> q"
proof -
  define w where "w = \<lfloor>q\<rfloor>"
  define d where "d = q - of_int w"
  have q: "0 \<le> q" "rnd_mag B64 q = q" using assms by simp_all
  have w: "0 \<le> w" and d: "0 \<le> d" "d < 1"
    using q(1) unfolding w_def d_def by (simp_all add: of_int_floor_le) linarith
  have dm: "rnd_mag B64 d = d" using rnd_mag_frac [OF q] by (simp add: d_def w_def)
  have frac: "fsub B64 (Fin False q) (Fin False (of_int w)) = Fin False d"
  proof -
    have "rnd B64 False d = Fin False d" using dm d by (simp add: rnd_def less_trans [of d 1])
    then show ?thesis using d by (simp add: fsub_def rnds_def flip: d_def)
  qed
  define m where "m = to_i64 (fround (fmul B64 (Fin False d) (flit 1000000000)))"
  note m = nanos_of_fraction [OF d dm, folded m_def]
  have e: "epoch_seconds_to_nanos (Fin False q) =
      Option.bind (checked_i64 (min (2 ^ 63 - 1) w * 1000000000)) (\<lambda>a. checked_i64 (a + m))"
  proof -
    have "\<not> flt (Fin False q) zero" using q(1) by (simp add: zero_def)
    moreover have "ffloor (Fin False q) = Fin False (of_int w)" by (simp add: w_def)
    moreover have "to_i64 (Fin False (of_int w)) = min (2 ^ 63 - 1) w" using w by (simp add: to_i64_def)
    ultimately show ?thesis
      by (simp add: epoch_seconds_to_nanos_def frac m_def Let_def del: fround.simps fmul.simps)
  qed
  show ?thesis
  proof (cases "w < 9223372036")
    case True
    then have "epoch_seconds_to_nanos (Fin False q) = Some (w * 1000000000 + m)"
      using m w by (simp add: e checked_i64_def)
    moreover have "of_int (w * 1000000000 + m) - q * 1000000000 = of_int m - d * (1000000000 :: rat)"
      by (simp add: d_def algebra_simps)
    ultimately show ?thesis using m by (simp add: w_def)
  next
    case False
    then have big: "9223372036 \<le> q" unfolding w_def by linarith
    show ?thesis
    proof (cases "epoch_seconds_to_nanos (Fin False q)")
      case None
      with big show ?thesis by simp
    next
      case (Some n)
      then have n: "n = min (2 ^ 63 - 1) w * 1000000000 + m" "min (2 ^ 63 - 1) w * 1000000000 < 2 ^ 63"
        by (auto simp: e checked_i64_def split: if_splits bind_splits)
      then have "n = w * 1000000000 + m" using False by (auto simp: min_def split: if_splits)
      then show ?thesis using Some m by (simp add: w_def d_def algebra_simps)
    qed
  qed
qed

theorem epoch_nanos_accurate_witness:
  "case epoch_seconds_to_nanos (Fin False (3 / 2)) of
      Some n \<Rightarrow> \<lfloor>3 / 2 :: rat\<rfloor> * 1000000000 \<le> n \<and> \<bar>of_int n - 3 / 2 * 1000000000\<bar> \<le> (1 :: rat)
    | None \<Rightarrow> 9223372036 \<le> (3 / 2 :: rat)"
  by (rule epoch_nanos_accurate) (simp add: round_simps)

section \<open>Dual-channel packets\<close>

text \<open>
  A dual-channel packet is accepted exactly when every sample it declares is in the
  buffer, so no read leaves it; the pairs are then the four channel floats of each sample, in
  order, and padding floats are never delivered.
\<close>

theorem deinterleave_in_bounds:
  assumes "length floats \<le> USIZE_MAX"
  shows "(if 4 \<le> stride \<and> (n = 0 \<or> (n - 1) * stride + 4 \<le> length floats)
          then deinterleave_dual_iq floats n stride = Ok (map (\<lambda>i. case slice (i * stride) (i * stride + 4) floats of
                 [i1, q1, i2, q2] \<Rightarrow> ((i1, q1), (i2, q2))) [0..<n])
          else \<not> is_ok (deinterleave_dual_iq floats n stride))"
proof (cases "4 \<le> stride \<and> (n = 0 \<or> (n - 1) * stride + 4 \<le> length floats)")
  case True
  have pair: "((floats ! (i * stride), floats ! (i * stride + 1)),
               (floats ! (i * stride + 2), floats ! (i * stride + 3)))
      = (case slice (i * stride) (i * stride + 4) floats of [i1, q1, i2, q2] \<Rightarrow> ((i1, q1), (i2, q2)))"
    if "i < n" for i
  proof -
    have "i * stride \<le> (n - 1) * stride" using that by (intro mult_right_mono) auto
    moreover have "(n - 1) * stride + 4 \<le> length floats" using True that by blast
    ultimately have len: "i * stride + 4 \<le> length floats" by linarith
    have "slice (i * stride) (i * stride + 4) floats
        = [floats ! (i * stride), floats ! (i * stride + 1), floats ! (i * stride + 2), floats ! (i * stride + 3)]"
      using len by (intro nth_equalityI) (auto simp: nth_slice less_Suc_eq numeral_eq_Suc)
    then show ?thesis by simp
  qed
  have "checked_mul (n - 1) stride = Some ((n - 1) * stride)"
    "checked_add ((n - 1) * stride) 4 = Some ((n - 1) * stride + 4)" if "0 < n"
    using True assms that by auto
  then show ?thesis
    using True pair by (auto simp: deinterleave_dual_iq_def Let_def simp del: checked_mul_Some checked_add_Some)
next
  case False
  then show ?thesis
    by (auto simp: deinterleave_dual_iq_def Let_def split: option.splits bind_splits)
qed

theorem deinterleave_in_bounds_witness:
  "deinterleave_dual_iq [zero, zero, zero, zero, zero, cnan, zero, zero, zero] 2 5
     = Ok [((zero, zero), (zero, zero)), ((cnan, zero), (zero, zero))]"
  using deinterleave_in_bounds [of "[zero, zero, zero, zero, zero, cnan, zero, zero, zero]" 5 2]
  by (simp add: USIZE_MAX_def slice_def upt_rec)

theorem ladder_rungs_pass_iq_mode_witness:
  "validate_iq_mode (Fin False 61440000) DEFAULT_RECEIVER_CLOCK_HZ = Ok ()"
proof (rule ladder_rungs_pass_iq_mode)
  show "wf B64 DEFAULT_RECEIVER_CLOCK_HZ" by (simp add: DEFAULT_RECEIVER_CLOCK_HZ_def lit_def)
  show "is_finite DEFAULT_RECEIVER_CLOCK_HZ" "flt zero DEFAULT_RECEIVER_CLOCK_HZ"
    by (simp_all add: DEFAULT_RECEIVER_CLOCK_HZ_def lit_def zero_def round_simps)
  show "Fin False 61440000 \<in> set (iq_sample_rates_for_clock DEFAULT_RECEIVER_CLOCK_HZ)"
    using iq_sample_rates_eq by (simp add: iq_sample_rates_def)
  show "flt zero (Fin False 61440000)" by (simp add: zero_def)
qed

end
