(* ===== verification/Float_Bits.thy ===== *)
theory Float_Bits
  imports Softfloat
begin

text \<open>
  The bit patterns of \<open>f32\<close> and \<open>f64\<close> (\<open>to_bits\<close>, \<open>from_bits\<close>, the
  little-endian byte forms), with the two round trips.
\<close>

fun ebits :: "fmt \<Rightarrow> nat" where
  "ebits B16 = 5"
| "ebits B32 = 8"
| "ebits B64 = 11"

definition mbits :: "fmt \<Rightarrow> nat" where "mbits f = nat (prec f) - 1"

definition from_bits :: "fmt \<Rightarrow> nat \<Rightarrow> fl" where
  "from_bits f n =
     (let m = mbits f; mant = n mod 2 ^ m; e = n div 2 ^ m mod 2 ^ ebits f;
          s = odd (n div 2 ^ (m + ebits f))
      in if e = 2 ^ ebits f - 1 then (if mant = 0 then Inf s else NaN s mant)
         else if e = 0 then Fin s (of_nat mant * 2 powi (emin f - int m))
         else Fin s (of_nat (2 ^ m + mant) * 2 powi (int e - 1 + emin f - int m)))"

definition mag_bits :: "fmt \<Rightarrow> rat \<Rightarrow> nat" where
  "mag_bits f q =
     (if q = 0 then 0
      else let e = max (ilog2 q) (emin f)
           in nat \<lfloor>q / 2 powi (e - int (mbits f))\<rfloor> + nat (e - emin f) * 2 ^ mbits f)"

fun to_bits :: "fmt \<Rightarrow> fl \<Rightarrow> nat" where
  "to_bits f (Fin s q) = (if s then 2 ^ (mbits f + ebits f) else 0) + mag_bits f q"
| "to_bits f (Inf s) = (if s then 2 ^ (mbits f + ebits f) else 0) + (2 ^ ebits f - 1) * 2 ^ mbits f"
| "to_bits f (NaN s n) = (if s then 2 ^ (mbits f + ebits f) else 0) + (2 ^ ebits f - 1) * 2 ^ mbits f + n"

lemma mbits_values [simp]: "mbits B16 = 10" "mbits B32 = 23" "mbits B64 = 52"
  by (simp_all add: mbits_def)

lemma mbits_prec: "int (mbits f) = prec f - 1"
  by (cases f) simp_all

lemma ebits_emax: "2 * emax f = 2 ^ ebits f - 2"
  by (cases f) simp_all

text \<open>Splitting a pattern into sign, exponent and fraction loses nothing.\<close>

lemma fields_split:
  fixes n :: nat
  assumes "n < 2 ^ (m + e + 1)"
  shows "n = (if odd (n div 2 ^ (m + e)) then 2 ^ (m + e) else 0)
           + (n div 2 ^ m mod 2 ^ e) * 2 ^ m + n mod 2 ^ m"
proof -
  have a: "n = n div 2 ^ m * 2 ^ m + n mod 2 ^ m" by (rule div_mult_mod_eq [symmetric])
  have b: "n div 2 ^ m = n div 2 ^ m div 2 ^ e * 2 ^ e + n div 2 ^ m mod 2 ^ e"
    by (rule div_mult_mod_eq [symmetric])
  have c: "n div 2 ^ m div 2 ^ e = n div 2 ^ (m + e)" by (simp add: div_mult2_eq power_add)
  have "n div 2 ^ (m + e) < 2" using assms by (simp add: less_mult_imp_div_less)
  then have d: "n div 2 ^ (m + e) = (if odd (n div 2 ^ (m + e)) then 1 else 0)"
    by (metis One_nat_def even_zero less_2_cases odd_one)
  have "n = (n div 2 ^ (m + e) * 2 ^ e + n div 2 ^ m mod 2 ^ e) * 2 ^ m + n mod 2 ^ m"
    using a b c by metis
  then show ?thesis using d by (auto simp: power_add algebra_simps split: if_splits)
qed

lemma mag_bits_normal:
  assumes "mant < 2 ^ mbits f" and "1 \<le> e"
  shows "mag_bits f (of_nat (2 ^ mbits f + mant) * 2 powi (int e - 1 + emin f - int (mbits f)))
       = e * 2 ^ mbits f + mant"
proof -
  let ?m = "mbits f"
  define E where "E = int e - 1 + emin f"
  let ?q = "of_nat (2 ^ ?m + mant) * 2 powi (E - int ?m) :: rat"
  have p: "2 powi (E - int ?m) = 2 powi E / (2 :: rat) ^ ?m" by (simp add: powi_diff)
  have "(2 :: rat) ^ ?m \<le> of_nat (2 ^ ?m + mant)" by simp
  then have lo: "2 powi E \<le> ?q" unfolding p by (simp add: field_simps)
  have "of_nat (2 ^ ?m + mant) < (of_nat (2 ^ ?m * 2) :: rat)"
    using assms(1) by (subst of_nat_less_iff) simp
  then have "of_nat (2 ^ ?m + mant) < (2 :: rat) ^ ?m * 2" by simp
  then have "?q < 2 powi E * 2" unfolding p by (simp add: field_simps)
  then have hi: "?q < 2 powi (E + 1)" by (simp add: powi_add)
  have l: "ilog2 ?q = E" using lo hi by (rule ilog2_unique)
  have ge: "emin f \<le> E" using assms(2) by (simp add: E_def)
  have "?q / 2 powi (E - int ?m) = of_nat (2 ^ ?m + mant)"
    using powi_pos [of "E - int ?m"] by (simp del: powi_pos)
  then have "nat \<lfloor>?q / 2 powi (E - int ?m)\<rfloor> = 2 ^ ?m + mant"
    by (metis floor_of_nat nat_int)
  moreover have "nat (E - emin f) = e - 1" using assms(2) by (simp add: E_def)
  moreover have "(e - 1) * 2 ^ ?m + 2 ^ ?m = e * 2 ^ ?m"
    using assms(2) by (metis Suc_diff_1 add.commute less_eq_Suc_le mult_Suc One_nat_def)
  moreover have "?q \<noteq> 0" using lo powi_pos [of E] by linarith
  ultimately show ?thesis
    using l ge unfolding mag_bits_def E_def [symmetric] by (simp add: Let_def max_absorb1)
qed

lemma mag_bits_subnormal:
  assumes "mant < 2 ^ mbits f"
  shows "mag_bits f (of_nat mant * 2 powi (emin f - int (mbits f))) = mant"
proof (cases "mant = 0")
  case True
  then show ?thesis by (simp add: mag_bits_def)
next
  case False
  let ?m = "mbits f"
  let ?q = "of_nat mant * 2 powi (emin f - int ?m) :: rat"
  have p: "2 powi (emin f - int ?m) = 2 powi emin f / (2 :: rat) ^ ?m" by (simp add: powi_diff)
  have pos: "0 < ?q" using False by simp
  have "of_nat mant < (of_nat (2 ^ ?m) :: rat)" using assms by (subst of_nat_less_iff)
  then have "of_nat mant < (2 :: rat) ^ ?m" by simp
  then have "?q < 2 powi emin f" unfolding p by (simp add: field_simps)
  moreover have "2 powi ilog2 ?q \<le> ?q" using ilog2_bounds [OF pos] by simp
  ultimately have "ilog2 ?q < emin f" using powi_less_iff [of "ilog2 ?q" "emin f"] by linarith
  then have l: "max (ilog2 ?q) (emin f) = emin f" by simp
  have "?q / 2 powi (emin f - int ?m) = of_nat mant"
    using powi_pos [of "emin f - int ?m"] by (simp del: powi_pos)
  then have "nat \<lfloor>?q / 2 powi (emin f - int ?m)\<rfloor> = mant" by (metis floor_of_nat nat_int)
  then show ?thesis using pos l unfolding mag_bits_def by (simp add: Let_def)
qed

text \<open>Every bit pattern is the pattern of the value it decodes to.\<close>

theorem to_from_bits:
  assumes "n < 2 ^ (mbits f + ebits f + 1)"
  shows "to_bits f (from_bits f n) = n"
proof -
  let ?m = "mbits f" and ?e = "ebits f"
  define s where "s = odd (n div 2 ^ (?m + ?e))"
  define e where "e = n div 2 ^ ?m mod 2 ^ ?e"
  define mant where "mant = n mod 2 ^ ?m"
  have n: "n = (if s then 2 ^ (?m + ?e) else 0) + e * 2 ^ ?m + mant"
    using fields_split [OF assms] by (simp add: s_def e_def mant_def)
  have fr: "mant < 2 ^ ?m" by (simp add: mant_def)
  have fb: "from_bits f n =
      (if e = 2 ^ ?e - 1 then (if mant = 0 then Inf s else NaN s mant)
       else if e = 0 then Fin s (of_nat mant * 2 powi (emin f - int ?m))
       else Fin s (of_nat (2 ^ ?m + mant) * 2 powi (int e - 1 + emin f - int ?m)))"
    by (simp only: from_bits_def Let_def s_def e_def mant_def)
  consider "e = 2 ^ ?e - 1" | "e \<noteq> 2 ^ ?e - 1" "e = 0" | "e \<noteq> 2 ^ ?e - 1" "1 \<le> e" by linarith
  then show ?thesis
  proof cases
    case 1
    have "to_bits f (from_bits f n) = (if s then 2 ^ (?m + ?e) else 0) + (2 ^ ?e - 1) * 2 ^ ?m + mant"
      unfolding fb using 1 by simp
    with n 1 show ?thesis by metis
  next
    case 2
    have "to_bits f (from_bits f n) = (if s then 2 ^ (?m + ?e) else 0) + mant"
      unfolding fb using 2 fr by (simp add: mag_bits_subnormal)
    with n 2 show ?thesis by simp
  next
    case 3
    then have "e \<noteq> 0" by simp
    with 3 fr have "to_bits f (from_bits f n)
        = (if s then 2 ^ (?m + ?e) else 0) + (e * 2 ^ ?m + mant)"
      by (simp only: fb if_False to_bits.simps mag_bits_normal)
    with n show ?thesis by simp
  qed
qed

text \<open>The other way round: a value of the format is recovered from its pattern.\<close>

lemma bit_fields:
  fixes m e mant ex :: nat and s :: bool
  assumes "mant < 2 ^ m" and "ex < 2 ^ e"
  defines "n \<equiv> (if s then 2 ^ (m + e) else 0) + ex * 2 ^ m + mant"
  shows "n mod 2 ^ m = mant" and "n div 2 ^ m mod 2 ^ e = ex"
    and "odd (n div 2 ^ (m + e)) = s" and "n < 2 ^ (m + e + 1)"
proof -
  have n: "n = ((if s then 2 ^ e else 0) + ex) * 2 ^ m + mant"
    by (simp add: n_def power_add algebra_simps)
  have d: "n div 2 ^ m = (if s then 2 ^ e else 0) + ex"
    unfolding n using assms(1) by simp
  let ?c = "(if s then 2 ^ e else 0) + ex"
  have "Suc ?c \<le> 2 * 2 ^ e" using assms(2) by auto
  then have "Suc ?c * 2 ^ m \<le> 2 * 2 ^ e * 2 ^ m" by (rule mult_le_mono1)
  moreover have "n < Suc ?c * 2 ^ m" unfolding n using assms(1) by simp
  ultimately have "n < 2 * 2 ^ e * 2 ^ m" by (rule less_le_trans [rotated])
  then show "n < 2 ^ (m + e + 1)" by (simp add: power_add algebra_simps)
  show "n mod 2 ^ m = mant" unfolding n using assms(1) by simp
  show "n div 2 ^ m mod 2 ^ e = ex" unfolding d using assms(2) by auto
  have "n div 2 ^ (m + e) = n div 2 ^ m div 2 ^ e" by (simp add: power_add div_mult2_eq)
  also have "\<dots> = (if s then 1 else 0)" unfolding d using assms(2) by auto
  finally show "odd (n div 2 ^ (m + e)) = s" by simp
qed

lemma from_bits_fields:
  assumes "mant < 2 ^ mbits f" and "ex < 2 ^ ebits f"
  shows "from_bits f ((if s then 2 ^ (mbits f + ebits f) else 0) + ex * 2 ^ mbits f + mant) =
     (if ex = 2 ^ ebits f - 1 then (if mant = 0 then Inf s else NaN s mant)
      else if ex = 0 then Fin s (of_nat mant * 2 powi (emin f - int (mbits f)))
      else Fin s (of_nat (2 ^ mbits f + mant) * 2 powi (int ex - 1 + emin f - int (mbits f))))"
  unfolding from_bits_def Let_def bit_fields(1) [OF assms] bit_fields(2) [OF assms]
    bit_fields(3) [OF assms] by simp

text \<open>Every value of a format is the decoding of some pattern of its width.\<close>

lemma finite_pattern:
  assumes wf: "wf f (Fin s q)"
  shows "\<exists>n < 2 ^ (mbits f + ebits f + 1). from_bits f n = Fin s q"
proof -
  let ?m = "mbits f" and ?e = "ebits f"
  have pattern: "\<exists>n < 2 ^ (?m + ?e + 1). from_bits f n = x"
    if "mant < 2 ^ ?m" "ex < 2 ^ ?e" "x = (if ex = 2 ^ ?e - 1 then (if mant = 0 then Inf s else NaN s mant)
      else if ex = 0 then Fin s (of_nat mant * 2 powi (emin f - int ?m))
      else Fin s (of_nat (2 ^ ?m + mant) * 2 powi (int ex - 1 + emin f - int ?m)))" for mant ex x
    using bit_fields(4) [OF that(1,2), where s = s] from_bits_fields [OF that(1,2), where s = s] that(3)
    by (intro exI [of _ "(if s then 2 ^ (?m + ?e) else 0) + ex * 2 ^ ?m + mant"]) simp
  have e2: "(0 :: nat) < 2 ^ ?e - 1" by (cases f) simp_all
  show ?thesis
  proof (cases "q = 0")
    case True
    show ?thesis by (rule pattern [of 0 0]) (use True e2 in auto)
  next
    case False
    with wf have q: "0 < q" and r: "rnd_mag f q = q" and hi: "q < 2 powi (emax f + 1)" by auto
    define E where "E = max (ilog2 q) (emin f)"
    define k where "k = rne (q / 2 powi (E - int ?m))"
    have u: "ulp_exp f q = E - int ?m" by (simp add: ulp_exp_def E_def mbits_prec)
    have k: "q = of_int k * 2 powi (E - int ?m)"
      using r False by (simp add: rnd_mag_def Let_def u k_def)
    have k0: "0 < k"
      using q powi_pos [of "E - int ?m"] unfolding k zero_less_mult_iff by (auto simp: not_less)
    have ln: "2 powi ilog2 q \<le> q" "q < 2 powi (ilog2 q + 1)" using ilog2_bounds [OF q] by auto
    have "2 powi ilog2 q < (2 :: rat) powi (emax f + 1)" using ln(1) hi by linarith
    then have le: "ilog2 q \<le> emax f" by (simp only: powi_less_iff)
    have split: "2 powi (E + d - int ?m) * 2 ^ ?m = (2 :: rat) powi (E + d)" for d
      by (simp add: powi_diff)
    show ?thesis
    proof (cases "ilog2 q < emin f")
      case True
      then have E: "E = emin f" by (simp add: E_def)
      have "2 powi (ilog2 q + 1) \<le> (2 :: rat) powi E" using True E by (intro powi_mono) simp
      then have "(of_int k :: rat) * 2 powi (E - int ?m) < 2 powi (E - int ?m) * (2 :: rat) ^ ?m"
        using ln(2) k split [of 0] by simp
      then have "of_int k < (of_int (2 ^ ?m) :: rat)" by (simp add: mult.commute)
      then have km: "nat k < 2 ^ ?m" using k0 by (simp add: nat_less_iff)
      show ?thesis
        by (rule pattern [of "nat k" 0]) (use km e2 k k0 E in auto)
    next
      case False
      then have E: "E = ilog2 q" by (simp add: E_def)
      have two: "2 powi (E + 1) = 2 powi (E - int ?m) * (2 * (2 :: rat) ^ ?m)"
        unfolding powi_add powi_diff by simp
      have "(of_int k :: rat) * 2 powi (E - int ?m) < 2 powi (E + 1)" using ln(2) unfolding E [symmetric] by (subst k [symmetric])
      then have "(of_int k :: rat) * 2 powi (E - int ?m) < 2 powi (E - int ?m) * (2 * (2 :: rat) ^ ?m)"
        unfolding two .
      then have "of_int k < (of_int (2 * 2 ^ ?m) :: rat)" by (simp add: mult.commute)
      then have up: "k < 2 * 2 ^ ?m" by (simp only: of_int_less_iff)
      have "2 powi (E - int ?m) * (2 :: rat) ^ ?m = 2 powi E" unfolding powi_diff by simp
      moreover have "2 powi E \<le> (of_int k :: rat) * 2 powi (E - int ?m)"
        using ln(1) unfolding E [symmetric] by (subst k [symmetric])
      ultimately have "2 powi (E - int ?m) * (2 :: rat) ^ ?m \<le> of_int k * 2 powi (E - int ?m)" by simp
      then have "(of_int (2 ^ ?m) :: rat) \<le> of_int k" by (simp add: mult.commute)
      then have lo: "2 ^ ?m \<le> k" by (simp only: of_int_le_iff)
      define ex where "ex = nat (E - emin f + 1)"
      have ex: "int ex = E - emin f + 1" using False E by (simp add: ex_def)
      have ex1: "ex < 2 ^ ?e - 1" using ex le E ebits_emax [of f]
        by (cases f) (simp_all add: emin_def)
      obtain K where K: "k = int K" using k0 by (metis pos_int_cases)
      have "int K < int (2 * 2 ^ ?m)" "int (2 ^ ?m) \<le> int K" using up lo K by simp_all
      then have "K < 2 * 2 ^ ?m" "2 ^ ?m \<le> K" by (simp_all only: of_nat_less_iff of_nat_le_iff)
      then have fr: "K - 2 ^ ?m < 2 ^ ?m" and add: "2 ^ ?m + (K - 2 ^ ?m) = K" by linarith+
      have "int ex - 1 + emin f = E" "ex \<noteq> 0" using ex False E by auto
      moreover have "of_int k = (of_nat K :: rat)" using K by simp
      ultimately have "Fin s q = Fin s (of_nat (2 ^ ?m + (K - 2 ^ ?m)) * 2 powi (int ex - 1 + emin f - int ?m))"
        unfolding add by (subst k) simp
      then show ?thesis
        using ex1 fr \<open>ex \<noteq> 0\<close> by (intro pattern [of "K - 2 ^ ?m" ex]) simp_all
    qed
  qed
qed

lemma wf_pattern:
  assumes "wf f x"
  obtains n where "n < 2 ^ (mbits f + ebits f + 1)" and "from_bits f n = x"
proof (cases x)
  case (Fin s q)
  with assms finite_pattern [of f s q] that show ?thesis by blast
next
  case (Inf s)
  have "from_bits f ((if s then 2 ^ (mbits f + ebits f) else 0) + (2 ^ ebits f - 1) * 2 ^ mbits f + 0) = Inf s"
    by (subst from_bits_fields) simp_all
  moreover note bit_fields(4) [of 0 "mbits f" "2 ^ ebits f - 1" "ebits f" s]
  ultimately show ?thesis using that Inf by simp
next
  case (NaN s n)
  with assms have n: "0 < n" "n < 2 ^ mbits f" by (simp_all add: mbits_def nat_diff_distrib)
  have "from_bits f ((if s then 2 ^ (mbits f + ebits f) else 0) + (2 ^ ebits f - 1) * 2 ^ mbits f + n) = NaN s n"
    using n by (subst from_bits_fields) simp_all
  moreover note bit_fields(4) [of n "mbits f" "2 ^ ebits f - 1" "ebits f" s]
  ultimately show ?thesis using that NaN n by simp
qed

theorem from_to_bits:
  assumes "wf f x"
  shows "from_bits f (to_bits f x) = x" and "to_bits f x < 2 ^ (mbits f + ebits f + 1)"
  using assms by (auto elim!: wf_pattern simp: to_from_bits)

end
