(* ===== verification/Stream_Format.thy ===== *)
theory Stream_Format
  imports Text Float_Bits
begin

text \<open>
  The data of \<open>src/src/http_streaming.rs\<close>: wire formats, payload types, packet metadata
  and the configuration derived from it, the packets themselves, and what the parser takes
  from other crates (\<open>deps\<close>): the JSON reader of \<open>serde_json\<close> and the half-float
  conversion of \<open>half\<close>.
\<close>

datatype stream_format = Json | Int16 | Float16 | Float32

datatype payload_type = Iq | Spectra | Histogram | Categories

definition CAPTURE_DEFAULT :: stream_format where "CAPTURE_DEFAULT = Int16"

fun iq_bytes_per_sample :: "stream_format \<Rightarrow> nat option" where
  "iq_bytes_per_sample Int16 = Some 4"
| "iq_bytes_per_sample Float16 = Some 4"
| "iq_bytes_per_sample Float32 = Some 8"
| "iq_bytes_per_sample Json = None"

fun format_as_str :: "stream_format \<Rightarrow> string" where
  "format_as_str Json = ''json''"
| "format_as_str Int16 = ''int16''"
| "format_as_str Float16 = ''float16''"
| "format_as_str Float32 = ''float32''"

definition format_from_str :: "string \<Rightarrow> stream_format result" where
  "format_from_str s =
     (let l = map to_lower s
      in if l = ''json'' then Ok Json
         else if l = ''int16'' then Ok Int16
         else if l = ''float16'' then Ok Float16
         else if l = ''float32'' then Ok Float32
         else Err (Protocol ''Unsupported stream format: ''))"

record antenna_spec =
  ant_name :: string
  latitude :: "f64 option"
  longitude :: "f64 option"
  azimuth :: "f64 option"
  declination :: "f64 option"

record category_spec =
  cat_name :: string
  cat_start_frequency :: f64
  cat_end_frequency :: f64

record packet_metadata =
  start_time :: f64
  end_time :: f64
  start_time_day :: "f64 option"
  end_time_day :: "f64 option"
  start_frequency :: f64
  end_frequency :: f64
  sample_frequency :: "f64 option"
  samples_count :: nat
  sample_unit :: string
  payload :: payload_type
  min_power :: int
  max_power :: int
  sample_depth :: "nat option"
  sample_size :: nat
  wire_scale :: "f64 option"
  antenna :: "antenna_spec option"
  categories :: "(category_spec list) option"
  compression :: "nat option"

text \<open>The \<open>samples\<close> field as the JSON reader hands it over, and the visitor that counts it.\<close>

datatype samples_field = CountU64 nat | CountI64 int | CountF64 f64 | ValueSeq nat | OtherValue

definition U64_MAX_F64 :: f64 where "U64_MAX_F64 = of_nat_fl B64 USIZE_MAX"

fun deserialize_samples_count :: "samples_field \<Rightarrow> nat option" where
  "deserialize_samples_count (CountU64 v) = Some v"
| "deserialize_samples_count (CountI64 v) = (if 0 \<le> v then Some (nat v) else None)"
| "deserialize_samples_count (CountF64 v) =
     (if is_finite v \<and> fle zero v \<and> fle v U64_MAX_F64 then Some (nat (to_int 0 (int USIZE_MAX) v)) else None)"
| "deserialize_samples_count (ValueSeq n) = Some (min n USIZE_MAX)"
| "deserialize_samples_count OtherValue = None"

section \<open>Derived configuration\<close>

definition RATE_CHANGE_BAND :: f64 where "RATE_CHANGE_BAND = lit B64 (1 / 10)"

definition rate_moved :: "f64 \<Rightarrow> f64 \<Rightarrow> bool" where
  "rate_moved previous current =
     flt RATE_CHANGE_BAND (fdiv B64 (fabs (fsub B64 current previous)) previous)"

definition meta_sample_rate_hz :: "packet_metadata \<Rightarrow> f64" where
  "meta_sample_rate_hz m =
     (let duration = fsub B64 (end_time m) (start_time m)
      in case sample_frequency m of
           Some r \<Rightarrow> r
         | None \<Rightarrow> if flt zero duration then fdiv B64 (of_nat_fl B64 (samples_count m)) duration else zero)"

record streaming_sdr_config =
  cfg_center_frequency_hz :: f64
  cfg_bandwidth_hz :: f64
  cfg_sample_rate_hz :: f64
  power_range :: "int \<times> int"
  cfg_unit :: string
  data_format :: string
  antenna_name :: string
  packet_duration_ms :: f64
  samples_per_packet :: nat

fun payload_debug :: "payload_type \<Rightarrow> string" where
  "payload_debug Iq = ''Iq''"
| "payload_debug Spectra = ''Spectra''"
| "payload_debug Histogram = ''Histogram''"
| "payload_debug Categories = ''Categories''"

definition from_metadata :: "packet_metadata \<Rightarrow> streaming_sdr_config" where
  "from_metadata m =
     \<lparr>cfg_center_frequency_hz = fdiv B64 (fadd B64 (start_frequency m) (end_frequency m)) (lit B64 2),
      cfg_bandwidth_hz = fsub B64 (end_frequency m) (start_frequency m),
      cfg_sample_rate_hz = meta_sample_rate_hz m,
      power_range = (min_power m, max_power m),
      cfg_unit = sample_unit m,
      data_format = payload_debug (payload m),
      antenna_name = (case antenna m of Some a \<Rightarrow> ant_name a | None \<Rightarrow> ''Unknown''),
      packet_duration_ms = fmul B64 (fsub B64 (end_time m) (start_time m)) (lit B64 1000),
      samples_per_packet = samples_count m\<rparr>"

definition frequency_range_mhz :: "streaming_sdr_config \<Rightarrow> f64 \<times> f64" where
  "frequency_range_mhz c =
     (let half = fdiv B64 (cfg_bandwidth_hz c) (lit B64 2)
      in (fdiv B64 (fsub B64 (cfg_center_frequency_hz c) half) (lit B64 1000000),
          fdiv B64 (fadd B64 (cfg_center_frequency_hz c) half) (lit B64 1000000)))"

definition sample_rate_mhz :: "streaming_sdr_config \<Rightarrow> f64" where
  "sample_rate_mhz c = fdiv B64 (cfg_sample_rate_hz c) (lit B64 1000000)"

definition bandwidth_mhz :: "streaming_sdr_config \<Rightarrow> f64" where
  "bandwidth_mhz c = fdiv B64 (cfg_bandwidth_hz c) (lit B64 1000000)"

section \<open>Packets\<close>

type_synonym complex32 = "f32 \<times> f32"

record stream_packet =
  metadata :: packet_metadata
  pkt_samples :: "complex32 list"
  sdr_config :: streaming_sdr_config

definition stream_packet_new :: "packet_metadata \<Rightarrow> complex32 list \<Rightarrow> stream_packet" where
  "stream_packet_new m xs = \<lparr>metadata = m, pkt_samples = xs, sdr_config = from_metadata m\<rparr>"

definition get_timing_info :: "stream_packet \<Rightarrow> f64 \<times> f64 \<times> f64" where
  "get_timing_info p =
     (start_time (metadata p), end_time (metadata p), packet_duration_ms (sdr_config p))"

definition contains_frequency :: "stream_packet \<Rightarrow> f64 \<Rightarrow> bool" where
  "contains_frequency p f = (fle (start_frequency (metadata p)) f \<and> fle f (end_frequency (metadata p)))"

section \<open>What other crates provide\<close>

text \<open>
  A JSON document as \<open>serde_json::Value\<close> presents it; an object keeps its members as pairs.
\<close>

datatype json = JNull | JBool bool | JNum f64 | JStr string | JArr "json list"
  | JObj "(string \<times> json) list"

fun as_array :: "json \<Rightarrow> (json list) option" where
  "as_array (JArr xs) = Some xs"
| "as_array _ = None"

fun as_f64 :: "json \<Rightarrow> f64 option" where
  "as_f64 (JNum x) = Some x"
| "as_f64 _ = None"

fun json_index :: "json \<Rightarrow> string \<Rightarrow> json" where
  "json_index (JObj ms) k = (case map_of ms k of Some v \<Rightarrow> v | None \<Rightarrow> JNull)"
| "json_index _ k = JNull"

record deps =
  meta_of :: "bytes \<Rightarrow> packet_metadata option"
  json_of :: "bytes \<Rightarrow> json option"
  f16_to_f32 :: "nat \<Rightarrow> f32"
  f32_to_f16 :: "f32 \<Rightarrow> nat"

text \<open>An IQ packet of four samples, for the concrete instances below.\<close>

definition example_metadata :: packet_metadata where
  "example_metadata =
     \<lparr>start_time = zero, end_time = lit B64 1, start_time_day = None, end_time_day = None,
      start_frequency = zero, end_frequency = lit B64 8, sample_frequency = Some (lit B64 4),
      samples_count = 4, sample_unit = ''volt'', payload = Iq, min_power = 0, max_power = 0,
      sample_depth = None, sample_size = 2, wire_scale = None, antenna = None, categories = None,
      compression = None\<rparr>"

definition example_deps :: deps where
  "example_deps =
     \<lparr>meta_of = (\<lambda>bs. if bs = [0x7B, 0x7D] then Some example_metadata
        else if bs = [0x7B, 0x20, 0x7D] then Some (example_metadata\<lparr>samples_count := 2 ^ 27\<rparr>)
        else if bs = [0x7B, 0x21, 0x7D] then Some (example_metadata\<lparr>payload := Spectra, compression := Some 1\<rparr>)
        else None),
      json_of = (\<lambda>bs. None), f16_to_f32 = (\<lambda>n. zero), f32_to_f16 = (\<lambda>x. 0)\<rparr>"

lemma format_roundtrip: "format_from_str (format_as_str f) = Ok f"
  by (cases f) (simp_all add: format_from_str_def to_lower_def Let_def)

end
