(* ===== verification/Header_Scan.thy ===== *)
theory Header_Scan
  imports Stream_Format
begin

text \<open>
  \<open>scan_packet_header\<close> of \<open>src/src/http_streaming.rs\<close>: the search of a buffer for
  the first complete packet header. Every \<open>{\<close> before a terminator is a candidate that ends
  at that terminator; the JSON reader decides which candidate is a header.
\<close>

definition OPEN_BRACE :: byte where "OPEN_BRACE = 0x7B"
definition ASCII_RECORD_SEPARATOR :: byte where "ASCII_RECORD_SEPARATOR = 30"
definition ASCII_LINE_FEED :: byte where "ASCII_LINE_FEED = 10"

definition is_brace :: "byte \<Rightarrow> bool" where "is_brace b = (b = OPEN_BRACE)"

definition is_terminator :: "byte \<Rightarrow> bool" where
  "is_terminator b = (b = ASCII_RECORD_SEPARATOR \<or> b = ASCII_LINE_FEED)"

datatype header_scan =
    Header packet_metadata nat nat nat nat
    \<comment> \<open>metadata, start and end of the JSON text, start of the payload, candidates rejected\<close>
  | Incomplete nat nat
    \<comment> \<open>bytes that may be discarded, candidates rejected\<close>

text \<open>The candidates of one region: the first that parses, or how many were rejected.\<close>

function scan_region ::
  "(bytes \<Rightarrow> packet_metadata option) \<Rightarrow> bytes \<Rightarrow> nat \<Rightarrow> nat \<Rightarrow> nat \<Rightarrow> (packet_metadata \<times> nat) option \<times> nat"
where
  "scan_region mo buf candidate finish rejected =
     (case mo (slice candidate finish buf) of
        Some m \<Rightarrow> (Some (m, candidate), rejected)
      | None \<Rightarrow>
          (case position is_brace (slice (candidate + 1) finish buf) of
             Some next \<Rightarrow> scan_region mo buf (candidate + 1 + next) finish (rejected + 1)
           | None \<Rightarrow> (None, rejected + 1)))"
  by pat_completeness auto
termination
proof (relation "measure (\<lambda>(mo, buf, c, e, r). e - c)", goal_cases)
  case (2 mo buf c e r nxt)
  from position_bound [OF 2(2)] show ?case by simp arith
qed simp

declare scan_region.simps [simp del]

definition payload_start_of :: "bytes \<Rightarrow> nat \<Rightarrow> nat" where
  "payload_start_of buf finish =
     (if buf ! finish = ASCII_LINE_FEED \<and> finish + 1 < length buf \<and> buf ! (finish + 1) = ASCII_RECORD_SEPARATOR
      then finish + 2 else finish + 1)"

function scan_from ::
  "(bytes \<Rightarrow> packet_metadata option) \<Rightarrow> bytes \<Rightarrow> nat \<Rightarrow> nat \<Rightarrow> header_scan" where
  "scan_from mo buf pos rejected =
     (case position is_brace (drop pos buf) of
        None \<Rightarrow> Incomplete (length buf) rejected
      | Some s \<Rightarrow>
          let start = pos + s in
          (case position is_terminator (drop start buf) of
             None \<Rightarrow> Incomplete start rejected
           | Some e \<Rightarrow>
               let finish = start + e in
               (case scan_region mo buf start finish rejected of
                  (Some (m, candidate), rej) \<Rightarrow> Header m candidate finish (payload_start_of buf finish) rej
                | (None, rej) \<Rightarrow> scan_from mo buf (finish + 1) rej)))"
  by pat_completeness auto
termination
proof (relation "measure (\<lambda>(mo, buf, pos, r). length buf - pos)", goal_cases)
  case (2 mo buf pos r s x e)
  from position_bound [OF 2(1)] have "pos + s < length buf" by simp
  with 2 show ?case by simp
qed simp

declare scan_from.simps [simp del]

definition scan_packet_header :: "(bytes \<Rightarrow> packet_metadata option) \<Rightarrow> bytes \<Rightarrow> header_scan" where
  "scan_packet_header mo buf = scan_from mo buf 0 0"

section \<open>What a scan finds\<close>

definition header_at :: "(bytes \<Rightarrow> packet_metadata option) \<Rightarrow> bytes \<Rightarrow> nat \<Rightarrow> nat \<Rightarrow> bool" where
  "header_at mo buf c f =
     (c < f \<and> f < length buf \<and> is_brace (buf ! c) \<and> is_terminator (buf ! f) \<and>
      list_all (\<lambda>b. \<not> is_terminator b) (slice c f buf) \<and> mo (slice c f buf) \<noteq> None)"

text \<open>No header can begin before \<open>k\<close>, whatever bytes follow the buffer.\<close>

definition spent :: "(bytes \<Rightarrow> packet_metadata option) \<Rightarrow> bytes \<Rightarrow> nat \<Rightarrow> bool" where
  "spent mo buf k = (\<forall>zs c f. c < k \<longrightarrow> \<not> header_at mo (buf @ zs) c f)"

lemma brace_not_terminator [simp]: "is_brace b \<Longrightarrow> \<not> is_terminator b"
  by (simp add: is_brace_def is_terminator_def OPEN_BRACE_def ASCII_RECORD_SEPARATOR_def
      ASCII_LINE_FEED_def)

lemma in_slice: "j \<in> {c..<f} \<Longrightarrow> f \<le> length buf \<Longrightarrow> buf ! j \<in> set (slice c f buf)"
proof -
  assume a: "j \<in> {c..<f}" "f \<le> length buf"
  then have "slice c f buf ! (j - c) = buf ! (c + (j - c))" by (intro nth_slice) auto
  with a show ?thesis by (auto simp: in_set_conv_nth intro!: exI [of _ "j - c"])
qed

lemma slice_memberE:
  assumes "b \<in> set (slice c f buf)" "f \<le> length buf"
  obtains j where "c \<le> j" "j < f" "b = buf ! j"
proof -
  obtain i where "i < length (slice c f buf)" "b = slice c f buf ! i"
    using assms(1) by (metis in_set_conv_nth)
  with assms(2) that [of "c + i"] show ?thesis by (auto simp: nth_slice)
qed

lemma header_at_finish:
  assumes "header_at mo buf c f" "c \<le> g" "g < length buf" "is_terminator (buf ! g)"
    and "list_all (\<lambda>b. \<not> is_terminator b) (slice c g buf)"
  shows "f = g"
proof (rule ccontr)
  assume "f \<noteq> g"
  then consider "f < g" | "g < f" by linarith
  then show False
  proof cases
    case 1
    with assms in_slice [of f c g buf] show False by (auto simp: header_at_def list_all_iff)
  next
    case 2
    with assms in_slice [of g c f buf] show False by (auto simp: header_at_def list_all_iff)
  qed
qed

lemma slice_sub_all:
  "list_all P (slice s f buf) \<Longrightarrow> s \<le> c \<Longrightarrow> f \<le> length buf \<Longrightarrow> list_all P (slice c f buf)"
proof -
  assume a: "list_all P (slice s f buf)" "s \<le> c" "f \<le> length buf"
  have "P b" if "b \<in> set (slice c f buf)" for b
  proof -
    from that a(3) obtain j where "c \<le> j" "j < f" "b = buf ! j" by (rule slice_memberE)
    with a show "P b" using in_slice [of j s f buf] by (simp add: list_all_iff)
  qed
  then show ?thesis by (simp add: list_all_iff)
qed

lemma spent_0 [simp]: "spent mo buf 0"
  by (simp add: spent_def)

lemma spent_mono: "spent mo buf k \<Longrightarrow> j \<le> k \<Longrightarrow> spent mo buf j"
  by (auto simp: spent_def)

text \<open>One more byte is spent when it is no brace, or when its candidate does not parse.\<close>

lemma spent_skip:
  assumes "spent mo buf j" "j \<le> k" "k \<le> length buf"
    and "\<And>i. j \<le> i \<Longrightarrow> i < k \<Longrightarrow> \<not> is_brace (buf ! i)"
  shows "spent mo buf k"
  unfolding spent_def
proof (intro allI impI notI)
  fix zs c f assume c: "c < k" and h: "header_at mo (buf @ zs) c f"
  then have "j \<le> c" using assms(1) by (meson not_le spent_def)
  then have "\<not> is_brace ((buf @ zs) ! c)" using assms(3,4) c by (simp add: nth_append)
  with h show False by (simp add: header_at_def)
qed

lemma spent_reject:
  assumes "spent mo buf c" "c < f" "f < length buf" "is_terminator (buf ! f)"
    and "list_all (\<lambda>b. \<not> is_terminator b) (slice c f buf)" "mo (slice c f buf) = None"
  shows "spent mo buf (Suc c)"
  unfolding spent_def
proof (intro allI impI notI)
  fix zs d g assume d: "d < Suc c" and h: "header_at mo (buf @ zs) d g"
  show False
  proof (cases "d < c")
    case True
    with assms(1) h show False by (auto simp: spent_def)
  next
    case False
    with d have "d = c" by simp
    have "g = f"
      using h unfolding \<open>d = c\<close>
      by (rule header_at_finish) (use assms in \<open>auto simp: nth_append slice_append\<close>)
    with h assms \<open>d = c\<close> show False by (auto simp: header_at_def slice_append)
  qed
qed

lemma scan_region_cases:
  "mo (slice c f buf) = Some m \<Longrightarrow> scan_region mo buf c f r = (Some (m, c), r)"
  "mo (slice c f buf) = None \<Longrightarrow> position is_brace (slice (c + 1) f buf) = None \<Longrightarrow>
     scan_region mo buf c f r = (None, r + 1)"
  "mo (slice c f buf) = None \<Longrightarrow> position is_brace (slice (c + 1) f buf) = Some nxt \<Longrightarrow>
     scan_region mo buf c f r = scan_region mo buf (c + 1 + nxt) f (r + 1)"
  by (subst scan_region.simps, simp only: option.case)+

lemma scan_region_spec:
  assumes "scan_region mo buf c f r = (res, r')"
    and "c < f" "f < length buf" "is_brace (buf ! c)" "is_terminator (buf ! f)"
    and "list_all (\<lambda>b. \<not> is_terminator b) (slice c f buf)" "spent mo buf c"
  shows "case res of
      Some (m, d) \<Rightarrow> header_at mo buf d f \<and> mo (slice d f buf) = Some m \<and> spent mo buf d
    | None \<Rightarrow> spent mo buf (Suc f)"
  using assms
proof (induction mo buf c f r arbitrary: res r' rule: scan_region.induct)
  case (1 mo buf c f r)
  show ?case
  proof (cases "mo (slice c f buf)")
    case (Some m)
    with "1.prems" show ?thesis by (auto simp: scan_region_cases(1) header_at_def)
  next
    case None
    have sp: "spent mo buf (Suc c)" using "1.prems" None by (intro spent_reject) auto
    show ?thesis
    proof (cases "position is_brace (slice (c + 1) f buf)")
      case p: None
      have sf: "spent mo buf f"
      proof (rule spent_skip [OF sp])
        fix i assume "Suc c \<le> i" "i < f"
        then have "buf ! i \<in> set (slice (c + 1) f buf)"
          using "1.prems"(3) by (intro in_slice) auto
        with p show "\<not> is_brace (buf ! i)" by simp
      qed (use "1.prems"(2,3) in auto)
      have nb: "\<not> is_brace (buf ! f)" using "1.prems"(5) brace_not_terminator by blast
      have "spent mo buf (Suc f)"
      proof (rule spent_skip [OF sf])
        fix i assume "f \<le> i" "i < Suc f"
        then have "i = f" by simp
        with nb show "\<not> is_brace (buf ! i)" by simp
      qed (use "1.prems"(3) in auto)
      moreover have "(res, r') = (None, r + 1)"
        using "1.prems"(1) scan_region_cases(2) [of mo c f buf r, OF None p] by metis
      ultimately show ?thesis by simp
    next
      case p: (Some nxt)
      let ?d = "c + 1 + nxt"
      have nth: "slice (c + 1) f buf ! j = buf ! (c + 1 + j)" if "j < f - Suc c" for j
        using that "1.prems"(3) by (intro nth_slice) auto
      from p have n: "nxt < f - Suc c" "is_brace (slice (c + 1) f buf ! nxt)"
        "\<forall>j < nxt. \<not> is_brace (slice (c + 1) f buf ! j)"
        by (simp_all add: position_Some)
      have d: "is_brace (buf ! ?d)" using n(1,2) nth [of nxt] by simp
      have "\<not> is_brace (buf ! i)" if "Suc c \<le> i" "i < ?d" for i
      proof -
        have "i - Suc c < nxt" "i - Suc c < f - Suc c" "c + 1 + (i - Suc c) = i"
          using that n(1) by auto
        with n(3) nth [of "i - Suc c"] show ?thesis by metis
      qed
      then have "spent mo buf ?d" using n(1) "1.prems"(3) by (intro spent_skip [OF sp]) auto
      moreover have "scan_region mo buf ?d f (r + 1) = (res, r')"
        using "1.prems"(1) scan_region_cases(3) [of mo c f buf nxt r, OF None p] by metis
      moreover have "list_all (\<lambda>b. \<not> is_terminator b) (slice ?d f buf)"
        using "1.prems" by (intro slice_sub_all [of _ c f buf ?d]) auto
      moreover have "?d < f" using n(1) by simp
      ultimately show ?thesis using "1.IH" [OF None p] d "1.prems"(3,5) by blast
    qed
  qed
qed

lemma scan_from_cases:
  "position is_brace (drop pos buf) = None \<Longrightarrow> scan_from mo buf pos r = Incomplete (length buf) r"
  "position is_brace (drop pos buf) = Some s \<Longrightarrow> position is_terminator (drop (pos + s) buf) = None \<Longrightarrow>
     scan_from mo buf pos r = Incomplete (pos + s) r"
  "position is_brace (drop pos buf) = Some s \<Longrightarrow> position is_terminator (drop (pos + s) buf) = Some e \<Longrightarrow>
     scan_region mo buf (pos + s) (pos + s + e) r = (Some (m, d), rej) \<Longrightarrow>
     scan_from mo buf pos r = Header m d (pos + s + e) (payload_start_of buf (pos + s + e)) rej"
  "position is_brace (drop pos buf) = Some s \<Longrightarrow> position is_terminator (drop (pos + s) buf) = Some e \<Longrightarrow>
     scan_region mo buf (pos + s) (pos + s + e) r = (None, rej) \<Longrightarrow>
     scan_from mo buf pos r = scan_from mo buf (pos + s + e + 1) rej"
  by (subst scan_from.simps, simp only: option.case prod.case Let_def)+

text \<open>The four ways one round of the scan can go, with what is known of the buffer in each.\<close>

lemma scan_round_facts:
  assumes "position is_brace (drop pos buf) = Some s" "position is_terminator (drop (pos + s) buf) = Some e"
  shows "pos + s + e < length buf" "is_brace (buf ! (pos + s))" "is_terminator (buf ! (pos + s + e))"
    "0 < e" "list_all (\<lambda>b. \<not> is_terminator b) (slice (pos + s) (pos + s + e) buf)"
proof -
  have s: "s < length buf - pos" "is_brace (buf ! (pos + s))"
    using assms(1) by (auto simp: position_Some)
  have e: "e < length buf - (pos + s)" "is_terminator (buf ! (pos + s + e))"
    "\<forall>j < e. \<not> is_terminator (drop (pos + s) buf ! j)"
    using assms(2) by (auto simp: position_Some)
  show "pos + s + e < length buf" "is_brace (buf ! (pos + s))" "is_terminator (buf ! (pos + s + e))"
    using s e by simp_all
  show "0 < e" using s(2) e(2) by (cases e) auto
  have "\<not> is_terminator b" if "b \<in> set (slice (pos + s) (pos + s + e) buf)" for b
  proof -
    have "pos + s + e \<le> length buf" using e(1) by simp
    with that obtain j where j: "pos + s \<le> j" "j < pos + s + e" "b = buf ! j" by (rule slice_memberE)
    then have "j - (pos + s) < e" "buf ! j = drop (pos + s) buf ! (j - (pos + s))"
      using e(1) by auto
    with e(3) j(3) show ?thesis by simp
  qed
  then show "list_all (\<lambda>b. \<not> is_terminator b) (slice (pos + s) (pos + s + e) buf)"
    by (simp add: list_all_iff)
qed

lemma no_brace_spent:
  assumes "spent mo buf pos" "pos \<le> length buf"
  shows "position is_brace (drop pos buf) = None \<Longrightarrow> spent mo buf (length buf)"
    and "position is_brace (drop pos buf) = Some s \<Longrightarrow> spent mo buf (pos + s)"
proof -
  assume n: "position is_brace (drop pos buf) = None"
  show "spent mo buf (length buf)"
  proof (rule spent_skip [OF assms])
    fix i assume "pos \<le> i" "i < length buf"
    then have "buf ! i \<in> set (drop pos buf)"
      by (auto simp: in_set_conv_nth intro!: exI [of _ "i - pos"])
    with n show "\<not> is_brace (buf ! i)" by simp
  qed simp
next
  assume p: "position is_brace (drop pos buf) = Some s"
  show "spent mo buf (pos + s)"
  proof (rule spent_skip [OF assms(1)])
    fix i assume i: "pos \<le> i" "i < pos + s"
    then have "\<not> is_brace (drop pos buf ! (i - pos))" using p by (auto simp: position_Some)
    with i assms(2) show "\<not> is_brace (buf ! i)" by simp
  qed (use position_bound [OF p] in auto)
qed

lemma scan_from_spec:
  assumes "spent mo buf pos" "pos \<le> length buf"
  shows "case scan_from mo buf pos r of
      Header m d f ps rej \<Rightarrow> header_at mo buf d f \<and> mo (slice d f buf) = Some m \<and> spent mo buf d \<and>
        ps = payload_start_of buf f
    | Incomplete k rej \<Rightarrow> spent mo buf k \<and> pos \<le> k \<and> k \<le> length buf \<and>
        (k < length buf \<longrightarrow> is_brace (buf ! k) \<and> list_all (\<lambda>b. \<not> is_terminator b) (drop k buf))"
  using assms
proof (induction mo buf pos r rule: scan_from.induct)
  case (1 mo buf pos r)
  show ?case
  proof (cases "position is_brace (drop pos buf)")
    case None
    with no_brace_spent(1) [OF "1.prems" None] "1.prems" show ?thesis
      by (simp add: scan_from_cases(1) [OF None])
  next
    case s: (Some s)
    have sp: "spent mo buf (pos + s)" using no_brace_spent(2) [OF "1.prems" s] .
    show ?thesis
    proof (cases "position is_terminator (drop (pos + s) buf)")
      case None
      have "is_brace (buf ! (pos + s))" "pos + s < length buf" using s by (auto simp: position_Some)
      with None sp show ?thesis
        by (simp add: scan_from_cases(2) [OF s None] list_all_iff)
    next
      case e: (Some e)
      note f = scan_round_facts [OF s e]
      obtain res rej where reg: "scan_region mo buf (pos + s) (pos + s + e) r = (res, rej)"
        by (rule prod.exhaust)
      have spec: "case res of
          Some (m, d) \<Rightarrow> header_at mo buf d (pos + s + e) \<and> mo (slice d (pos + s + e) buf) = Some m \<and> spent mo buf d
        | None \<Rightarrow> spent mo buf (Suc (pos + s + e))"
        by (rule scan_region_spec [OF reg]) (use f sp in auto)
      show ?thesis
      proof (cases res)
        case None
        have eq: "scan_from mo buf pos r = scan_from mo buf (pos + s + e + 1) rej"
          by (rule scan_from_cases(4) [OF s e]) (simp add: reg None)
        have "case scan_from mo buf (pos + s + e + 1) rej of
            Header m d f ps rej \<Rightarrow> header_at mo buf d f \<and> mo (slice d f buf) = Some m \<and> spent mo buf d \<and>
              ps = payload_start_of buf f
          | Incomplete k rej \<Rightarrow> spent mo buf k \<and> pos + s + e + 1 \<le> k \<and> k \<le> length buf \<and>
              (k < length buf \<longrightarrow> is_brace (buf ! k) \<and> list_all (\<lambda>b. \<not> is_terminator b) (drop k buf))"
          by (rule "1.IH" [OF s refl e refl]) (use reg None spec f in auto)
        then show ?thesis unfolding eq by (auto split: header_scan.splits)
      next
        case (Some md)
        obtain m d where md: "md = (m, d)" by (rule prod.exhaust)
        have "scan_from mo buf pos r = Header m d (pos + s + e) (payload_start_of buf (pos + s + e)) rej"
          by (rule scan_from_cases(3) [OF s e]) (simp add: reg Some md)
        with spec Some md show ?thesis by simp
      qed
    qed
  qed
qed

section \<open>Scanning a buffer that grows\<close>

lemma scan_region_append:
  "f \<le> length buf \<Longrightarrow> scan_region mo (buf @ zs) c f r = scan_region mo buf c f r"
proof (induction mo buf c f r rule: scan_region.induct)
  case (1 mo buf c f r)
  have sl: "slice c f (buf @ zs) = slice c f buf" "slice (c + 1) f (buf @ zs) = slice (c + 1) f buf"
    using "1.prems" by (simp_all add: slice_append)
  show ?case
  proof (cases "mo (slice c f buf)")
    case (Some m)
    with sl show ?thesis by (simp add: scan_region_cases(1))
  next
    case None
    show ?thesis
    proof (cases "position is_brace (slice (c + 1) f buf)")
      case p: None
      show ?thesis
        by (simp only: scan_region_cases(2) [of mo c f "buf @ zs", unfolded sl, OF None p]
            scan_region_cases(2) [of mo c f buf, OF None p])
    next
      case p: (Some nxt)
      show ?thesis
        by (simp only: scan_region_cases(3) [of mo c f "buf @ zs" nxt r, unfolded sl, OF None p]
            scan_region_cases(3) [of mo c f buf nxt r, OF None p] "1.IH" [OF None p "1.prems"])
    qed
  qed
qed

lemma scan_from_append:
  assumes "pos \<le> length buf"
  shows "case scan_from mo buf pos r of
      Header m d f ps rej \<Rightarrow> scan_from mo (buf @ zs) pos r = Header m d f (payload_start_of (buf @ zs) f) rej
    | Incomplete k rej \<Rightarrow> scan_from mo (buf @ zs) pos r = scan_from mo (buf @ zs) k rej"
  using assms
proof (induction mo buf pos r rule: scan_from.induct)
  case (1 mo buf pos r)
  have dp: "drop pos (buf @ zs) = drop pos buf @ zs" using "1.prems" by simp
  show ?case
  proof (cases "position is_brace (drop pos buf)")
    case None
    have "scan_from mo (buf @ zs) pos r = scan_from mo (buf @ zs) (length buf) r"
    proof (cases "position is_brace zs")
      case n: None
      have "position is_brace (drop pos (buf @ zs)) = None"
        "position is_brace (drop (length buf) (buf @ zs)) = None"
        using None n by (simp_all only: dp position_append option.case option.map) simp
      then show ?thesis by (simp only: scan_from_cases(1))
    next
      case n: (Some s)
      have a: "position is_brace (drop pos (buf @ zs)) = Some (length buf - pos + s)"
        using None n by (simp only: dp position_append option.case option.map length_drop)
      have b: "position is_brace (drop (length buf) (buf @ zs)) = Some s" using n by simp
      have c: "pos + (length buf - pos + s) = length buf + s" using "1.prems" by simp
      show ?thesis
        by (subst (1 2) scan_from.simps) (simp only: a b c option.case Let_def)
    qed
    then show ?thesis by (simp add: scan_from_cases(1) [OF None])
  next
    case s: (Some s)
    have s': "position is_brace (drop pos (buf @ zs)) = Some s"
      using s by (simp only: dp position_append option.case)
    have le: "pos + s \<le> length buf" using position_bound [OF s] by simp
    have ds: "drop (pos + s) (buf @ zs) = drop (pos + s) buf @ zs" using le by simp
    show ?thesis
    proof (cases "position is_terminator (drop (pos + s) buf)")
      case None
      have lt: "pos + s < length buf" "is_brace (buf ! (pos + s))" using s by (auto simp: position_Some)
      then have "drop (pos + s) (buf @ zs) = buf ! (pos + s) # drop (Suc (pos + s)) buf @ zs"
        by (simp add: Cons_nth_drop_Suc [symmetric])
      then have b: "position is_brace (drop (pos + s) (buf @ zs)) = Some 0" using lt by simp
      have "scan_from mo (buf @ zs) pos r = scan_from mo (buf @ zs) (pos + s) r"
        by (subst (1 2) scan_from.simps) (simp only: s' b option.case Let_def add_0_right)
      then show ?thesis by (simp add: scan_from_cases(2) [OF s None])
    next
      case e: (Some e)
      have e': "position is_terminator (drop (pos + s) (buf @ zs)) = Some e"
        using e by (simp only: ds position_append option.case)
      have fl: "pos + s + e \<le> length buf" using scan_round_facts(1) [OF s e] by simp
      obtain res rej where reg: "scan_region mo buf (pos + s) (pos + s + e) r = (res, rej)"
        by (rule prod.exhaust)
      have reg': "scan_region mo (buf @ zs) (pos + s) (pos + s + e) r = (res, rej)"
        using reg by (simp only: scan_region_append [OF fl])
      show ?thesis
      proof (cases res)
        case None
        have "case scan_from mo buf (pos + s + e + 1) rej of
            Header m d f ps rej' \<Rightarrow> scan_from mo (buf @ zs) (pos + s + e + 1) rej
              = Header m d f (payload_start_of (buf @ zs) f) rej'
          | Incomplete k rej' \<Rightarrow> scan_from mo (buf @ zs) (pos + s + e + 1) rej = scan_from mo (buf @ zs) k rej'"
          by (rule "1.IH" [OF s refl e refl]) (use reg None scan_round_facts(1) [OF s e] in auto)
        then show ?thesis
          by (simp only: scan_from_cases(4) [OF s e reg [unfolded None]]
              scan_from_cases(4) [OF s' e' reg' [unfolded None]])
      next
        case (Some md)
        obtain m d where md: "md = (m, d)" by (rule prod.exhaust)
        show ?thesis
          by (simp add: scan_from_cases(3) [OF s e reg [unfolded Some md]]
              scan_from_cases(3) [OF s' e' reg' [unfolded Some md]])
      qed
    qed
  qed
qed

text \<open>Positions in a buffer with a prefix are positions without it, moved by its length.\<close>

fun shift_scan :: "nat \<Rightarrow> nat \<Rightarrow> header_scan \<Rightarrow> header_scan" where
  "shift_scan n q (Header m d f ps rej) = Header m (n + d) (n + f) (n + ps) (q + rej)"
| "shift_scan n q (Incomplete k rej) = Incomplete (n + k) (q + rej)"

lemma slice_prefix: "slice (length g + i) (length g + j) (g @ xs) = slice i j xs"
  by (simp add: slice_def)

lemma scan_region_shift:
  "scan_region mo (g @ xs) (length g + c) (length g + f) (q + r)
     = map_prod (map_option (map_prod id ((+) (length g)))) ((+) q) (scan_region mo xs c f r)"
proof (induction mo xs c f r rule: scan_region.induct)
  case (1 mo xs c f r)
  have sl: "slice (length g + c) (length g + f) (g @ xs) = slice c f xs"
    "slice (length g + c + 1) (length g + f) (g @ xs) = slice (c + 1) f xs"
    using slice_prefix [of g c f xs] slice_prefix [of g "c + 1" f xs] by (simp_all add: add.assoc)
  show ?case
  proof (cases "mo (slice c f xs)")
    case (Some m)
    with sl show ?thesis by (simp add: scan_region_cases(1))
  next
    case None
    show ?thesis
    proof (cases "position is_brace (slice (c + 1) f xs)")
      case p: None
      show ?thesis
        by (simp add: scan_region_cases(2) [of mo "length g + c" "length g + f" "g @ xs", unfolded sl, OF None p]
            scan_region_cases(2) [of mo c f xs, OF None p])
    next
      case p: (Some nxt)
      have a: "length g + c + 1 + nxt = length g + (c + 1 + nxt)" "q + r + 1 = q + (r + 1)" by simp_all
      show ?thesis
        by (simp only: scan_region_cases(3) [of mo "length g + c" "length g + f" "g @ xs" nxt "q + r",
              unfolded sl, OF None p] a "1.IH" [OF None p] scan_region_cases(3) [of mo c f xs nxt r, OF None p])
    qed
  qed
qed

lemma payload_start_of_shift:
  "f < length xs \<Longrightarrow> payload_start_of (g @ xs) (length g + f) = length g + payload_start_of xs f"
  by (simp add: payload_start_of_def nth_append)

lemma scan_from_shift:
  "pos \<le> length xs \<Longrightarrow>
   scan_from mo (g @ xs) (length g + pos) (q + r) = shift_scan (length g) q (scan_from mo xs pos r)"
proof (induction mo xs pos r rule: scan_from.induct)
  case (1 mo xs pos r)
  have dp: "drop (length g + pos) (g @ xs) = drop pos xs" by simp
  show ?case
  proof (cases "position is_brace (drop pos xs)")
    case None
    then have "position is_brace (drop (length g + pos) (g @ xs)) = None" by (simp only: dp)
    from scan_from_cases(1) [OF this] scan_from_cases(1) [OF None] show ?thesis by simp
  next
    case s: (Some s)
    have s': "position is_brace (drop (length g + pos) (g @ xs)) = Some s" using s by (simp only: dp)
    have ds: "drop (length g + pos + s) (g @ xs) = drop (pos + s) xs" by simp
    show ?thesis
    proof (cases "position is_terminator (drop (pos + s) xs)")
      case None
      then have "position is_terminator (drop (length g + pos + s) (g @ xs)) = None" by (simp only: ds)
      from scan_from_cases(2) [OF s' this] scan_from_cases(2) [OF s None] show ?thesis by simp
    next
      case e: (Some e)
      have e': "position is_terminator (drop (length g + pos + s) (g @ xs)) = Some e"
        using e by (simp only: ds)
      have fl: "pos + s + e < length xs" using scan_round_facts(1) [OF s e] .
      obtain res rej where reg: "scan_region mo xs (pos + s) (pos + s + e) r = (res, rej)"
        by (rule prod.exhaust)
      have reg': "scan_region mo (g @ xs) (length g + pos + s) (length g + pos + s + e) (q + r)
          = (map_option (map_prod id ((+) (length g))) res, q + rej)"
        using scan_region_shift [of mo g xs "pos + s" "pos + s + e" q r] reg by (simp add: add.assoc)
      show ?thesis
      proof (cases res)
        case None
        have ih: "scan_from mo (g @ xs) (length g + (pos + s + e + 1)) (q + rej)
            = shift_scan (length g) q (scan_from mo xs (pos + s + e + 1) rej)"
          by (rule "1.IH" [OF s refl e refl]) (use reg None fl in auto)
        have a: "length g + pos + s + e + 1 = length g + (pos + s + e + 1)" by simp
        show ?thesis
          by (simp only: scan_from_cases(4) [OF s e reg [unfolded None]] a
              scan_from_cases(4) [OF s' e' reg' [unfolded None option.map]] ih)
      next
        case (Some md)
        obtain m d where md: "md = (m, d)" by (rule prod.exhaust)
        show ?thesis
          using scan_from_cases(3) [OF s' e' reg' [unfolded Some md option.map map_prod_simp]]
            payload_start_of_shift [OF fl, of g]
          by (simp add: scan_from_cases(3) [OF s e reg [unfolded Some md]] add.assoc)
      qed
    qed
  qed
qed

text \<open>What a whole scan returns, in the terms the clients use.\<close>

lemma scan_spec:
  "case scan_packet_header mo buf of
      Header m d f ps rej \<Rightarrow> header_at mo buf d f \<and> mo (slice d f buf) = Some m \<and> spent mo buf d \<and>
        ps = payload_start_of buf f
    | Incomplete k rej \<Rightarrow> spent mo buf k \<and> k \<le> length buf \<and>
        (k < length buf \<longrightarrow> is_brace (buf ! k) \<and> list_all (\<lambda>b. \<not> is_terminator b) (drop k buf))"
  using scan_from_spec [of mo buf 0 0]
  by (simp add: scan_packet_header_def [symmetric] split: header_scan.splits)

lemma scan_header_bounds:
  assumes "scan_packet_header mo buf = Header m c f ps rej"
  shows "c < f" "f < ps" "ps \<le> length buf"
  using scan_spec [of mo buf] assms by (auto simp: header_at_def payload_start_of_def)

section \<open>The scan as a specification\<close>

text \<open>
  C7: The scan returns the first header of the buffer: what it reports is a candidate that
  parses and runs to its terminator, no header begins before it, and the payload begins one
  byte past the terminator, or two when a line feed is followed by a record separator. When
  it reports none, the bytes it gives up can begin no header whatever arrives after them, and
  what it keeps is an unterminated candidate.
\<close>

theorem scan_finds_first_header:
  "case scan_packet_header mo buf of
     Header m c f ps rej \<Rightarrow>
       header_at mo buf c f \<and> mo (slice c f buf) = Some m \<and> spent mo buf c \<and>
       ps = f + (if buf ! f = ASCII_LINE_FEED \<and> take 1 (drop (f + 1) buf) = [ASCII_RECORD_SEPARATOR] then 2 else 1) \<and>
       ps \<le> length buf
   | Incomplete k rej \<Rightarrow>
       spent mo buf k \<and>
       (k = length buf \<or> k < length buf \<and> is_brace (buf ! k) \<and> list_all (\<lambda>b. \<not> is_terminator b) (drop k buf))"
proof -
  have t: "take 1 (drop (f + 1) buf) = [ASCII_RECORD_SEPARATOR] \<longleftrightarrow>
      f + 1 < length buf \<and> buf ! (f + 1) = ASCII_RECORD_SEPARATOR" for f
  proof (cases "f + 1 < length buf")
    case True
    then have "drop (f + 1) buf = buf ! (f + 1) # drop (Suc (f + 1)) buf"
      by (rule Cons_nth_drop_Suc [symmetric])
    with True show ?thesis by (simp add: take_Suc)
  qed simp
  show ?thesis
  proof (cases "scan_packet_header mo buf")
    case (Header m c f ps rej)
    with scan_spec [of mo buf] have "f < length buf" by (simp add: header_at_def)
    with scan_spec [of mo buf] Header show ?thesis
      by (auto simp: t [simplified] payload_start_of_def)
  next
    case (Incomplete k rej)
    with scan_spec [of mo buf] show ?thesis by auto
  qed
qed

end
