(* ===== verification/Scan_Growth.thy ===== *)
theory Scan_Growth
  imports Header_Scan
begin

text \<open>
  How the header scan behaves as its buffer is cut, drained and extended: a header is found
  again wherever the buffer begins at or before it, the bytes a scan gives up never matter
  again, and more bytes only move a payload's start past a separator that came late.
\<close>

section \<open>Bytes that no longer matter\<close>

definition unspent :: "(bytes \<Rightarrow> packet_metadata option) \<Rightarrow> bytes \<Rightarrow> bytes" where
  "unspent mo buf =
     (case scan_packet_header mo buf of
        Header m c f ps rej \<Rightarrow> drop c buf
      | Incomplete k rej \<Rightarrow> drop k buf)"

lemma scan_header_unique:
  assumes "header_at mo buf d g" "spent mo buf d" "mo (slice d g buf) = Some m'"
  shows "\<exists>rej. scan_packet_header mo buf = Header m' d g (payload_start_of buf g) rej"
proof -
  note s = scan_spec [of mo buf]
  have sp: "\<not> d < k" if "spent mo buf k" for k
    using that assms(1) unfolding spent_def by (metis append_Nil2)
  have g: "d < g" "g < length buf" "is_terminator (buf ! g)"
    "list_all (\<lambda>b. \<not> is_terminator b) (slice d g buf)"
    using assms(1) by (simp_all add: header_at_def)
  show ?thesis
  proof (cases "scan_packet_header mo buf")
    case (Header m c f ps rej)
    with s have h: "header_at mo buf c f" "mo (slice c f buf) = Some m" "spent mo buf c"
      "ps = payload_start_of buf f" by simp_all
    have "\<not> c < d" using h(1) assms(2) unfolding spent_def by (metis append_Nil2)
    with sp [OF h(3)] have "c = d" by linarith
    moreover have "f = g"
      using h(1) g unfolding \<open>c = d\<close> by (intro header_at_finish) auto
    ultimately show ?thesis using h assms(3) Header by simp
  next
    case (Incomplete k rej)
    with s have k: "spent mo buf k" "k < length buf \<longrightarrow> list_all (\<lambda>b. \<not> is_terminator b) (drop k buf)"
      by simp_all
    have "k \<le> d" using sp [OF k(1)] by simp
    then have "buf ! g \<in> set (drop k buf)"
      using g(1,2) by (auto simp: in_set_conv_nth intro!: exI [of _ "g - k"])
    with k(2) g \<open>k \<le> d\<close> show ?thesis by (auto simp: list_all_iff)
  qed
qed

lemma header_facts:
  assumes "scan_packet_header mo buf = Header m c f ps rej"
  shows "header_at mo buf c f" "mo (slice c f buf) = Some m" "spent mo buf c"
    "ps = payload_start_of buf f" "c < f" "f < ps" "ps \<le> length buf" "f < length buf"
  using scan_spec [of mo buf] scan_header_bounds [OF assms] assms by simp_all

lemma payload_start_of_drop:
  "c \<le> f \<Longrightarrow> f < length buf \<Longrightarrow> payload_start_of (drop c buf) (f - c) = payload_start_of buf f - c"
  by (auto simp: payload_start_of_def)

lemma scan_drop_header:
  assumes "scan_packet_header mo buf = Header m c f ps rej"
  shows "\<exists>rej'. scan_packet_header mo (drop c buf) = Header m 0 (f - c) (ps - c) rej'"
proof -
  note h = header_facts [OF assms]
  have sl: "slice 0 (f - c) (drop c buf) = slice c f buf" using h(5) by (simp add: slice_drop)
  have "header_at mo (drop c buf) 0 (f - c)"
    using h unfolding header_at_def sl by simp
  from scan_header_unique [OF this, of m] h sl show ?thesis
    by (simp add: payload_start_of_drop)
qed

lemma incomplete_facts:
  assumes "scan_packet_header mo buf = Incomplete k rej"
  shows "k \<le> length buf" "spent mo buf k"
    "scan_packet_header mo (drop k buf) = Incomplete 0 0"
proof -
  have s: "spent mo buf k \<and> (k = length buf \<or> k < length buf \<and> is_brace (buf ! k) \<and>
      list_all (\<lambda>b. \<not> is_terminator b) (drop k buf))"
    using scan_spec [of mo buf] assms by auto
  then show "k \<le> length buf" "spent mo buf k" by auto
  show "scan_packet_header mo (drop k buf) = Incomplete 0 0"
  proof (cases "k = length buf")
    case True
    then show ?thesis by (simp add: scan_packet_header_def scan_from_cases(1))
  next
    case False
    with s have k: "k < length buf" "is_brace (buf ! k)" "list_all (\<lambda>b. \<not> is_terminator b) (drop k buf)"
      by auto
    then have "drop k buf = buf ! k # drop (Suc k) buf" by (simp add: Cons_nth_drop_Suc)
    with k(2) have a: "position is_brace (drop 0 (drop k buf)) = Some 0" by simp
    have b: "position is_terminator (drop (0 + 0) (drop k buf)) = None"
      using k(3) by (simp add: list_all_iff)
    show ?thesis unfolding scan_packet_header_def by (simp add: scan_from_cases(2) [OF a b])
  qed
qed

lemma scan_append_header:
  assumes "scan_packet_header mo buf = Header m c f ps rej"
  shows "scan_packet_header mo (buf @ zs) = Header m c f (payload_start_of (buf @ zs) f) rej"
  using scan_from_append [of 0 buf mo zs 0] assms by (simp add: scan_packet_header_def)

lemma scan_append_incomplete:
  assumes "scan_packet_header mo buf = Incomplete k rej"
  shows "scan_packet_header mo (buf @ zs) = shift_scan k rej (scan_packet_header mo (drop k buf @ zs))"
proof -
  have k: "k \<le> length buf" using incomplete_facts(1) [OF assms] .
  have "scan_packet_header mo (buf @ zs) = scan_from mo (buf @ zs) k rej"
    using scan_from_append [of 0 buf mo zs 0] assms by (simp add: scan_packet_header_def)
  also have "\<dots> = shift_scan k rej (scan_from mo (drop k buf @ zs) 0 0)"
    using scan_from_shift [of 0 "drop k buf @ zs" mo "take k buf" rej 0] k
    by (simp add: min_absorb2 flip: append_assoc)
  finally show ?thesis by (simp add: scan_packet_header_def)
qed

lemma scan_skip_byte:
  assumes "\<not> is_brace b"
  shows "scan_packet_header mo (b # t) = shift_scan 1 0 (scan_packet_header mo t)"
proof -
  have "scan_from mo (b # t) 0 0 = scan_from mo (b # t) 1 0"
  proof (cases "position is_brace t")
    case None
    with assms have "position is_brace (drop 0 (b # t)) = None" "position is_brace (drop 1 (b # t)) = None"
      by simp_all
    then show ?thesis by (simp only: scan_from_cases(1))
  next
    case (Some s)
    with assms have a: "position is_brace (drop 0 (b # t)) = Some (Suc s)"
      and b: "position is_brace (drop 1 (b # t)) = Some s" by simp_all
    have c: "0 + Suc s = 1 + s" by simp
    show ?thesis by (subst (1 2) scan_from.simps) (simp only: a b c option.case Let_def)
  qed
  also have "\<dots> = shift_scan 1 0 (scan_from mo t 0 0)"
    using scan_from_shift [of 0 t mo "[b]" 0 0] by simp
  finally show ?thesis by (simp add: scan_packet_header_def)
qed

lemma unspent_skip_byte: "\<not> is_brace b \<Longrightarrow> unspent mo (b # t) = unspent mo t"
  by (cases "scan_packet_header mo t") (simp_all add: unspent_def scan_skip_byte)

lemma unspent_append: "unspent mo (unspent mo xs @ zs) = unspent mo (xs @ zs)"
proof (cases "scan_packet_header mo xs")
  case (Header m c f ps rej)
  obtain rej' where "scan_packet_header mo (drop c xs) = Header m 0 (f - c) (ps - c) rej'"
    using scan_drop_header [OF Header] by blast
  from scan_append_header [OF this, of zs] scan_append_header [OF Header, of zs] header_facts [OF Header]
  show ?thesis by (simp add: unspent_def Header)
next
  case (Incomplete k rej)
  have k: "k \<le> length xs" using incomplete_facts(1) [OF Incomplete] .
  have d: "drop (k + j) (xs @ zs) = drop j (drop k xs @ zs)" for j
  proof -
    have "drop (k + j) (xs @ zs) = drop j (drop k (xs @ zs))" by (simp only: drop_drop add.commute)
    with k show ?thesis by simp
  qed
  have a: "unspent mo xs = drop k xs" by (simp add: unspent_def Incomplete)
  show ?thesis
    using scan_append_incomplete [OF Incomplete, of zs]
    unfolding a by (cases "scan_packet_header mo (drop k xs @ zs)")
      (simp_all only: unspent_def header_scan.case shift_scan.simps d)
qed

section \<open>Where the payload starts\<close>

text \<open>
  More bytes can only move the payload's start, by the record separator behind a line feed
  that was the last byte; the item is then complete and the separator is a byte to skip.
\<close>

lemma payload_start_append:
  assumes "f < length xs"
  shows "payload_start_of (xs @ zs) f = payload_start_of xs f \<or>
    payload_start_of xs f = length xs \<and> payload_start_of (xs @ zs) f = length xs + 1 \<and>
    zs \<noteq> [] \<and> hd zs = ASCII_RECORD_SEPARATOR"
proof (cases "f + 1 < length xs")
  case True
  then show ?thesis by (simp add: payload_start_of_def nth_append)
next
  case False
  with assms have "length xs = f + 1" by simp
  then show ?thesis by (cases zs) (auto simp: payload_start_of_def nth_append)
qed

lemma separator_not_brace: "\<not> is_brace ASCII_RECORD_SEPARATOR"
  by (simp add: is_brace_def OPEN_BRACE_def ASCII_RECORD_SEPARATOR_def)

lemma drop_start_append:
  assumes "scan_packet_header mo xs = Header m c f ps rej"
  shows "unspent mo (drop (payload_start_of (xs @ zs) f) (xs @ zs)) = unspent mo (drop ps xs @ zs)"
proof -
  note h = header_facts [OF assms]
  consider "payload_start_of (xs @ zs) f = ps" |
    "ps = length xs" "payload_start_of (xs @ zs) f = length xs + 1" "zs \<noteq> []" "hd zs = ASCII_RECORD_SEPARATOR"
    using payload_start_append [OF h(8), of zs] h(4) by auto
  then show ?thesis
  proof cases
    case 1
    with h(7) show ?thesis by simp
  next
    case 2
    then obtain t where "zs = ASCII_RECORD_SEPARATOR # t" by (cases zs) auto
    with 2 show ?thesis by (simp add: unspent_skip_byte separator_not_brace)
  qed
qed

end
