(* ===== verification/Payload_Decode.thy ===== *)
theory Payload_Decode
  imports Stream_Format Decompression Rice_Code
begin

text \<open>
  The payload half of \<open>src/src/http_streaming.rs\<close>: how many bytes a packet's header says
  follow it, and how those bytes become samples in each wire format. The parser's format and
  its \<open>?scale=N\<close> fallback are the first arguments of every operation that reads them.
\<close>

section \<open>Scales\<close>

definition DEFAULT_INT16_ENCODE_SCALE :: f64 where "DEFAULT_INT16_ENCODE_SCALE = lit B64 32768"

definition int16_encode_scale :: "f64 option \<Rightarrow> packet_metadata \<Rightarrow> f64" where
  "int16_encode_scale default_scale m =
     (case (case wire_scale m of Some s \<Rightarrow> Some s | None \<Rightarrow> default_scale) of
        Some s \<Rightarrow> if is_finite s \<and> flt zero s then s else DEFAULT_INT16_ENCODE_SCALE
      | None \<Rightarrow> DEFAULT_INT16_ENCODE_SCALE)"

definition int16_decode_scale :: "f64 option \<Rightarrow> packet_metadata \<Rightarrow> f32" where
  "int16_decode_scale default_scale m =
     cast_fl B32 (fdiv B64 (lit B64 1) (int16_encode_scale default_scale m))"

section \<open>The payload's extent\<close>

definition calculate_binary_size :: "stream_format \<Rightarrow> packet_metadata \<Rightarrow> nat result" where
  "calculate_binary_size format m =
     (case iq_bytes_per_sample format of
        None \<Rightarrow> Err (Protocol ''JSON streams have no fixed-size binary payload to frame'')
      | Some bps \<Rightarrow>
          if payload m = Iq
          then (case checked_mul (samples_count m) bps of
                  Some n \<Rightarrow> Ok n
                | None \<Rightarrow> Err (Protocol ''IQ sample count ''))
          else if payload m = Spectra \<or> payload m = Histogram
          then if (case compression m of Some c \<Rightarrow> 0 < c | None \<Rightarrow> False)
               then Err (Protocol (payload_debug (payload m) @ '' packet with compression factor ''))
               else let depth = max (case sample_depth m of Some d \<Rightarrow> d | None \<Rightarrow> 1) 1
                    in (case Option.bind (checked_mul (samples_count m) (sample_size m)) (\<lambda>n.
                             Option.bind (checked_mul n depth) (\<lambda>n. checked_mul n (bps div 2))) of
                          Some n \<Rightarrow> Ok n
                        | None \<Rightarrow> Err (Protocol ''spectra frame count ''))
          else let num = (case categories m of Some cs \<Rightarrow> length cs | None \<Rightarrow> sample_size m)
               in (case Option.bind (checked_mul (max (samples_count m) 1) num)
                          (\<lambda>n. checked_mul n (bps div 2)) of
                     Some n \<Rightarrow> Ok n
                   | None \<Rightarrow> Err (Protocol ''categories payload size overflows'')))"

section \<open>IQ payloads\<close>

definition i16_of :: "bytes \<Rightarrow> int" where "i16_of bs = twos 16 (le_nat bs)"

definition f32_of :: "bytes \<Rightarrow> f32" where "f32_of bs = from_bits B32 (le_nat bs)"

definition parse_iq_int16_optimized :: "bytes \<Rightarrow> f32 \<Rightarrow> complex32 list" where
  "parse_iq_int16_optimized data scale =
     map (\<lambda>chunk. (fmul B32 (of_int_fl B32 (i16_of (slice 0 2 chunk))) scale,
                   fmul B32 (of_int_fl B32 (i16_of (slice 2 4 chunk))) scale))
       (as_chunks 4 data)"

text \<open>\<open>chunks(k)\<close>: like \<open>as_chunks\<close>, with the remainder as a last shorter chunk.\<close>

function chunks :: "nat \<Rightarrow> 'a list \<Rightarrow> 'a list list" where
  "chunks k xs = (if k = 0 \<or> xs = [] then [] else take k xs # chunks k (drop k xs))"
  by pat_completeness auto
termination
  by (relation "measure (\<lambda>(k, xs). length xs)") auto

declare chunks.simps [simp del]

definition pairs :: "'a list \<Rightarrow> ('a \<times> 'a) list" where
  "pairs xs = map (\<lambda>c. (c ! 0, c ! 1)) (as_chunks 2 xs)"

text \<open>
  The block loop of the unaligned path: the scratch block keeps what an earlier block left in
  it, and as many values are taken from it as the output block has room for.
\<close>

fun convert_blocks :: "(nat \<Rightarrow> f32) \<Rightarrow> nat list \<Rightarrow> bytes list \<Rightarrow> nat list \<Rightarrow> f32 list" where
  "convert_blocks half scratch (block # blocks) (room # rooms) =
     (let halves = map le_nat (as_chunks 2 block);
          scratch' = take (length scratch) halves @ drop (length halves) scratch
      in map half (take room scratch') @ convert_blocks half scratch' blocks rooms)"
| "convert_blocks half scratch [] rooms = []"
| "convert_blocks half scratch blocks [] = []"

definition parse_iq_float16_optimized :: "(nat \<Rightarrow> f32) \<Rightarrow> bool \<Rightarrow> bytes \<Rightarrow> complex32 list" where
  "parse_iq_float16_optimized half aligned data =
     (let num_samples = length data div 4;
          body = take (num_samples * 4) data
      in if aligned
         then pairs (map (\<lambda>h. half (le_nat h)) (as_chunks 2 body))
         else pairs (convert_blocks half (replicate 512 0) (chunks 1024 body)
                       (map length (chunks 512 (replicate (num_samples * 2) zero)))))"

definition parse_iq_float32_optimized :: "bytes \<Rightarrow> complex32 list" where
  "parse_iq_float32_optimized data =
     map (\<lambda>chunk. (f32_of (slice 0 4 chunk), f32_of (slice 4 8 chunk))) (as_chunks 8 data)"

definition parse_iq_samples ::
  "(nat \<Rightarrow> f32) \<Rightarrow> bool \<Rightarrow> stream_format \<Rightarrow> f64 option \<Rightarrow> packet_metadata \<Rightarrow> bytes \<Rightarrow> (complex32 list) result"
where
  "parse_iq_samples half aligned format default_scale m data =
     (case format of
        Int16 \<Rightarrow> Ok (parse_iq_int16_optimized data (int16_decode_scale default_scale m))
      | Float16 \<Rightarrow> Ok (parse_iq_float16_optimized half aligned data)
      | Float32 \<Rightarrow> Ok (parse_iq_float32_optimized data)
      | Json \<Rightarrow> Err (Protocol ''Binary IQ parsing not applicable for JSON format''))"

section \<open>Spectra payloads\<close>

definition spectra_wavelet_grid :: "packet_metadata \<Rightarrow> (nat \<times> nat) result" where
  "spectra_wavelet_grid m =
     (if payload m \<noteq> Spectra then Err (Protocol ''compressed '')
      else if 1 < (case sample_depth m of Some d \<Rightarrow> d | None \<Rightarrow> 1)
      then Err (Protocol ''compressed spectra with sample depth '')
      else if samples_count m = 0 \<or> sample_size m = 0
      then Err (Protocol ''compressed spectra packet declares '')
      else if 16 < samples_count m
      then Err (Protocol ''compressed spectra packet holds '')
      else Ok (samples_count m, sample_size m))"

definition fclamp :: "f32 \<Rightarrow> f32 \<Rightarrow> f32 \<Rightarrow> f32" where
  "fclamp lo hi x = (if flt x lo then lo else if flt hi x then hi else x)"

definition to_i16 :: "f32 \<Rightarrow> int" where
  "to_i16 x = to_int (- 32768) 32767 x"

definition encode_i16 :: "f32 \<Rightarrow> f32 \<Rightarrow> bytes" where
  "encode_i16 scale v =
     le_bytes 2 (untwos 16 (to_i16
       (fclamp (of_int_fl B32 (- 32768)) (of_int_fl B32 32767) (fround (fmul B32 v scale)))))"

definition convert_f32_to_target_format ::
  "(f32 \<Rightarrow> nat) \<Rightarrow> stream_format \<Rightarrow> f32 list \<Rightarrow> f64 \<Rightarrow> bytes result" where
  "convert_f32_to_target_format to_half format xs encode_scale =
     (case format of
        Int16 \<Rightarrow> Ok (concat (map (encode_i16 (cast_fl B32 encode_scale)) xs))
      | Float16 \<Rightarrow> Ok (concat (map (\<lambda>v. le_bytes 2 (to_half v)) xs))
      | Float32 \<Rightarrow> Ok (concat (map (\<lambda>v. le_bytes 4 (to_bits B32 v)) xs))
      | Json \<Rightarrow> Err (Protocol ''Cannot convert to JSON format''))"

definition decompress_spectrum_data ::
  "(f32 \<Rightarrow> nat) \<Rightarrow> stream_format \<Rightarrow> f64 option \<Rightarrow> bytes \<Rightarrow> nat \<Rightarrow> packet_metadata \<Rightarrow> bytes result" where
  "decompress_spectrum_data to_half format default_scale data factor m =
     bind_result (spectra_wavelet_grid m) (\<lambda>(rows, cols).
     bind_result (the (decompress data factor rows cols)) (\<lambda>values.
     convert_f32_to_target_format to_half format values (int16_encode_scale default_scale m)))"

definition parse_spectrum_samples ::
  "deps \<Rightarrow> stream_format \<Rightarrow> f64 option \<Rightarrow> packet_metadata \<Rightarrow> bytes \<Rightarrow> (complex32 list) result" where
  "parse_spectrum_samples D format default_scale m data =
     bind_result
       (case compression m of
          Some c \<Rightarrow> if 0 < c then decompress_spectrum_data (f32_to_f16 D) format default_scale data c m else Ok data
        | None \<Rightarrow> Ok data)
       (\<lambda>body. case format of
          Int16 \<Rightarrow> Ok (map (\<lambda>c. (fmul B32 (of_int_fl B32 (i16_of c)) (int16_decode_scale default_scale m), zero))
                         (as_chunks 2 body))
        | Float16 \<Rightarrow> Ok (map (\<lambda>c. (f16_to_f32 D (le_nat c), zero)) (as_chunks 2 body))
        | Float32 \<Rightarrow> Ok (map (\<lambda>c. (f32_of c, zero)) (as_chunks 4 body))
        | Json \<Rightarrow> Err (Protocol ''Binary spectrum parsing not applicable for JSON format''))"

definition parse_histogram_samples ::
  "deps \<Rightarrow> stream_format \<Rightarrow> f64 option \<Rightarrow> packet_metadata \<Rightarrow> bytes \<Rightarrow> (complex32 list) result" where
  "parse_histogram_samples = parse_spectrum_samples"

definition parse_category_samples ::
  "deps \<Rightarrow> stream_format \<Rightarrow> f64 option \<Rightarrow> packet_metadata \<Rightarrow> bytes \<Rightarrow> (complex32 list) result" where
  "parse_category_samples = parse_spectrum_samples"

definition parse_binary_samples ::
  "deps \<Rightarrow> bool \<Rightarrow> stream_format \<Rightarrow> f64 option \<Rightarrow> packet_metadata \<Rightarrow> bytes \<Rightarrow> (complex32 list) result" where
  "parse_binary_samples D aligned format default_scale m data =
     (case payload m of
        Iq \<Rightarrow> parse_iq_samples (f16_to_f32 D) aligned format default_scale m data
      | Spectra \<Rightarrow> parse_spectrum_samples D format default_scale m data
      | Histogram \<Rightarrow> parse_histogram_samples D format default_scale m data
      | Categories \<Rightarrow> parse_category_samples D format default_scale m data)"

section \<open>JSON payloads\<close>

text \<open>Collecting results stops at the first error.\<close>

fun collect_results :: "('a result) list \<Rightarrow> ('a list) result" where
  "collect_results [] = Ok []"
| "collect_results (r # rs) = bind_result r (\<lambda>x. bind_result (collect_results rs) (\<lambda>xs. Ok (x # xs)))"

definition json_f32 :: "string \<Rightarrow> json \<Rightarrow> f32 result" where
  "json_f32 message v =
     (case as_f64 v of Some x \<Rightarrow> Ok (cast_fl B32 x) | None \<Rightarrow> Err (Protocol message))"

definition parse_json_samples :: "packet_metadata \<Rightarrow> json \<Rightarrow> (complex32 list) result" where
  "parse_json_samples m doc =
     (case as_array (json_index doc ''samples'') of
        None \<Rightarrow> Err (Protocol ''Missing samples array in JSON'')
      | Some xs \<Rightarrow>
          (case payload m of
             Iq \<Rightarrow> bind_result (collect_results (map (json_f32 ''Invalid sample value'') xs)) (\<lambda>vs. Ok (pairs vs))
           | Spectra \<Rightarrow>
               bind_result
                 (collect_results (map (json_f32 ''Invalid spectrum value'')
                   (concat (map (\<lambda>s. case as_array s of Some ys \<Rightarrow> ys | None \<Rightarrow> []) xs))))
                 (\<lambda>vs. Ok (map (\<lambda>v. (v, zero)) vs))
           | Histogram \<Rightarrow>
               bind_result (collect_results (map (json_f32 ''Invalid value'') xs)) (\<lambda>vs. Ok (map (\<lambda>v. (v, zero)) vs))
           | Categories \<Rightarrow>
               bind_result (collect_results (map (json_f32 ''Invalid value'') xs)) (\<lambda>vs. Ok (map (\<lambda>v. (v, zero)) vs))))"

section \<open>Every path decodes sample by sample\<close>

lemma as_chunks_dvd_append:
  "0 < k \<Longrightarrow> k dvd length xs \<Longrightarrow> as_chunks k (xs @ ys) = as_chunks k xs @ as_chunks k ys"
proof (induction k xs rule: as_chunks.induct)
  case (1 k xs)
  show ?case
  proof (cases "length xs < k")
    case True
    with "1.prems" have "xs = []" by (auto dest: dvd_imp_le)
    then show ?thesis by (simp add: "1.prems")
  next
    case False
    with "1.prems" have "as_chunks k (drop k xs @ ys) = as_chunks k (drop k xs) @ as_chunks k ys"
      by (intro "1.IH") (auto simp: dvd_diff_nat)
    with False "1.prems" show ?thesis by (simp add: as_chunks.simps [of k "xs @ ys"] as_chunks.simps [of k xs])
  qed
qed

lemma four_split:
  assumes "4 \<le> length d"
  obtains a b c e r where "d = a # b # c # e # r"
  using assms by (metis (no_types, lifting) Suc_le_length_iff numeral_eq_Suc pred_numeral_simps(2)
      pred_numeral_simps(3) pred_numeral_simps(1) semiring_norm(26) semiring_norm(27) One_nat_def BitM.simps)

lemma take_four: "take (4 + k) (a # b # c # e # xs) = a # b # c # e # take k xs"
  by (simp add: numeral_eq_Suc)

lemma pairs_of_halves:
  "pairs (map f (as_chunks 2 (take (length d div 4 * 4) d)))
     = map (\<lambda>c. (f (slice 0 2 c), f (slice 2 4 c))) (as_chunks 4 d)"
proof (induction d rule: length_induct)
  case (1 d)
  show ?case
  proof (cases "4 \<le> length d")
    case False
    then show ?thesis by (simp add: pairs_def)
  next
    case True
    then obtain a b c e r where d: "d = a # b # c # e # r" by (rule four_split)
    have t: "take (length d div 4 * 4) d = a # b # c # e # take (length r div 4 * 4) r"
      by (simp add: d take_four)
    have "pairs (map f (as_chunks 2 (take (length r div 4 * 4) r)))
        = map (\<lambda>c. (f (slice 0 2 c), f (slice 2 4 c))) (as_chunks 4 r)"
      using 1 d by simp
    then show ?thesis
      unfolding t by (simp add: d as_chunks.simps [of 2 "a # _"] as_chunks.simps [of 2 "c # _"]
          as_chunks.simps [of 4 "a # _"] pairs_def as_chunks.simps [of 2 "f _ # _"] slice_def)
  qed
qed

lemma chunks_Nil [simp]: "chunks k [] = []"
  by (simp add: chunks.simps)

lemma convert_blocks_all:
  "length scratch = 512 \<Longrightarrow> length body = 2 * n \<Longrightarrow>
   convert_blocks half scratch (chunks 1024 body) (map length (chunks 512 (replicate n x)))
     = map (\<lambda>h. half (le_nat h)) (as_chunks 2 body)"
proof (induction n arbitrary: body scratch rule: less_induct)
  case (less n)
  show ?case
  proof (cases "n = 0")
    case True
    with less.prems show ?thesis by simp
  next
    case False
    let ?block = "take 1024 body" and ?rest = "drop 1024 body"
    let ?halves = "map le_nat (as_chunks 2 ?block)"
    let ?s = "take 512 ?halves @ drop (length ?halves) scratch"
    have ne: "body \<noteq> []" "replicate n x \<noteq> []" using False less.prems(2) by auto
    have lb: "length ?block = 2 * min 512 n" using less.prems(2) by simp
    then have lh: "length ?halves = min 512 n" by (simp add: length_as_chunks)
    have room: "take (min 512 n) ?s = ?halves" using lh by simp
    have c1: "chunks 1024 body = ?block # chunks 1024 ?rest"
      using ne by (simp add: chunks.simps [of 1024 body])
    have c2: "chunks 512 (replicate n x) = replicate (min 512 n) x # chunks 512 (replicate (n - 512) x)"
      using ne by (simp add: chunks.simps [of 512 "replicate n x"])
    have ih: "convert_blocks half ?s (chunks 1024 ?rest) (map length (chunks 512 (replicate (n - 512) x)))
        = map (\<lambda>h. half (le_nat h)) (as_chunks 2 ?rest)"
      using less.IH [of "n - 512" ?s ?rest] False less.prems lh by simp
    have "as_chunks 2 (?block @ ?rest) = as_chunks 2 ?block @ as_chunks 2 ?rest"
      using lb by (intro as_chunks_dvd_append) simp_all
    then have split: "as_chunks 2 body = as_chunks 2 ?block @ as_chunks 2 ?rest" by simp
    have "convert_blocks half scratch (chunks 1024 body) (map length (chunks 512 (replicate n x)))
        = map half ?halves @ convert_blocks half ?s (chunks 1024 ?rest) (map length (chunks 512 (replicate (n - 512) x)))"
      unfolding c1 c2 by (simp only: list.map convert_blocks.simps Let_def length_replicate less.prems(1) room)
    then show ?thesis unfolding ih by (simp add: split)
  qed
qed

lemma float16_decoded:
  "parse_iq_float16_optimized half aligned data
     = map (\<lambda>c. (half (le_nat (slice 0 2 c)), half (le_nat (slice 2 4 c)))) (as_chunks 4 data)"
proof -
  have "length (take (length data div 4 * 4) data) = 2 * (length data div 4 * 2)" by simp
  then have "convert_blocks half (replicate 512 0) (chunks 1024 (take (length data div 4 * 4) data))
        (map length (chunks 512 (replicate (length data div 4 * 2) zero)))
      = map (\<lambda>h. half (le_nat h)) (as_chunks 2 (take (length data div 4 * 4) data))"
    by (intro convert_blocks_all) simp_all
  then show ?thesis
    using pairs_of_halves [of "\<lambda>h. half (le_nat h)" data]
    by (simp add: parse_iq_float16_optimized_def Let_def)
qed

text \<open>
  The half-float fast path is invisible: whether the payload lies aligned in memory (one
  bulk conversion) or not (blocks copied through a 512-entry scratch that is never cleared),
  the result is the conversion of each sample's two halves, in order.
\<close>

theorem float16_paths_agree:
  "parse_iq_float16_optimized half aligned data
     = map (\<lambda>c. (half (le_nat (slice 0 2 c)), half (le_nat (slice 2 4 c)))) (as_chunks 4 data)"
  by (rule float16_decoded)

section \<open>The declared size holds the declared samples\<close>

definition declared_values :: "packet_metadata \<Rightarrow> nat" where
  "declared_values m =
     (case payload m of
        Iq \<Rightarrow> samples_count m
      | Spectra \<Rightarrow> samples_count m * sample_size m * max (case sample_depth m of Some d \<Rightarrow> d | None \<Rightarrow> 1) 1
      | Histogram \<Rightarrow> samples_count m * sample_size m * max (case sample_depth m of Some d \<Rightarrow> d | None \<Rightarrow> 1) 1
      | Categories \<Rightarrow> max (samples_count m) 1 * (case categories m of Some cs \<Rightarrow> length cs | None \<Rightarrow> sample_size m))"

lemma spectrum_length:
  assumes "format \<noteq> Json" "\<not> (case compression m of Some c \<Rightarrow> 0 < c | None \<Rightarrow> False)"
    and "iq_bytes_per_sample format = Some bps"
  shows "\<exists>xs. parse_spectrum_samples D format ds m data = Ok xs \<and> length xs = length data div (bps div 2)"
  using assms
  by (cases format; cases "compression m") (auto simp: parse_spectrum_samples_def length_as_chunks)

lemma declared_size_decodes:
  assumes "calculate_binary_size format m = Ok (length data)"
    and "\<not> (case compression m of Some c \<Rightarrow> 0 < c | None \<Rightarrow> False)"
  shows "\<exists>xs. parse_binary_samples D aligned format ds m data = Ok xs \<and> length xs = declared_values m"
proof -
  obtain bps where bps: "iq_bytes_per_sample format = Some bps" "format \<noteq> Json"
    using assms(1) by (cases format) (auto simp: calculate_binary_size_def)
  then have b: "0 < bps div 2" by (cases format) auto
  show ?thesis
  proof (cases "payload m = Iq")
    case True
    then have n: "length data = samples_count m * bps"
      using assms(1) bps by (auto simp: calculate_binary_size_def split: option.splits)
    then show ?thesis
      using True bps
      by (cases format)
         (auto simp: parse_binary_samples_def parse_iq_samples_def parse_iq_int16_optimized_def
           parse_iq_float32_optimized_def float16_decoded length_as_chunks declared_values_def)
  next
    case False
    have n: "length data = declared_values m * (bps div 2)"
      using assms bps False
      by (cases "payload m")
         (auto simp: calculate_binary_size_def declared_values_def Let_def mult.assoc
           split: option.splits bind_splits if_splits)
    obtain xs where "parse_spectrum_samples D format ds m data = Ok xs" "length xs = declared_values m"
      using spectrum_length [OF bps(2) assms(2) bps(1), of D ds data] n b by auto
    with False show ?thesis
      by (cases "payload m")
         (auto simp: parse_binary_samples_def parse_histogram_samples_def parse_category_samples_def)
  qed
qed

text \<open>
  C34: Framing and decoding agree: a payload of exactly the size computed from an uncompressed
  packet's header always decodes, to exactly the number of samples the header declares.
\<close>

theorem declared_payload_decodes:
  assumes "calculate_binary_size format m = Ok (length data)"
    and "\<not> (case compression m of Some c \<Rightarrow> 0 < c | None \<Rightarrow> False)"
  shows "\<exists>xs. parse_binary_samples D aligned format ds m data = Ok xs \<and> length xs = declared_values m"
  using assms by (rule declared_size_decodes)

theorem declared_payload_decodes_witness:
  "\<exists>xs. parse_binary_samples example_deps True Int16 None example_metadata (replicate 16 0) = Ok xs \<and>
     length xs = declared_values example_metadata"
  by (rule declared_payload_decodes)
     (simp_all add: example_metadata_def calculate_binary_size_def USIZE_MAX_def checked_mul_def)

section \<open>Quantised samples survive the round trip\<close>

definition components :: "complex32 list \<Rightarrow> f32 list" where
  "components xs = concat (map (\<lambda>(i, q). [i, q]) xs)"

lemma concat_as_chunks:
  "0 < k \<Longrightarrow> k dvd length xs \<Longrightarrow> concat (as_chunks k xs) = xs"
proof (induction k xs rule: as_chunks.induct)
  case (1 k xs)
  show ?case
  proof (cases "length xs < k")
    case True
    with "1.prems" have "xs = []" by (auto dest: dvd_imp_le)
    then show ?thesis by (simp add: "1.prems")
  next
    case False
    with "1.prems" have "concat (as_chunks k (drop k xs)) = drop k xs"
      by (intro "1.IH") (auto simp: dvd_diff_nat)
    with False "1.prems" show ?thesis by (simp add: as_chunks.simps [of k xs])
  qed
qed

lemma rnd_i16_scaled:
  assumes "0 \<le> n" "n \<le> 32768" "t \<in> {0, - 15}"
  shows "rnd B32 s (of_int n * 2 powi t) = Fin s (of_int n * 2 powi t)"
proof -
  have "rnd_mag B32 (of_int n * 2 powi t) = of_int n * 2 powi t"
    using assms by (intro rnd_mag_exact) (auto simp: emin_def)
  moreover have "of_int n * 2 powi t \<le> (32768 :: rat) * 1"
    using assms by (intro mult_mono) (auto simp: power_int_minus)
  moreover have "(32768 :: rat) * 1 < 2 powi (emax B32 + 1)" by simp
  ultimately show ?thesis by (simp add: rnd_def)
qed

lemma i16_through_f32:
  assumes "- 32768 \<le> k" "k \<le> 32767"
  shows "encode_i16 (Fin False 32768) (fmul B32 (of_int_fl B32 k) (Fin False (1 / 32768)))
       = le_bytes 2 (untwos 16 k)"
proof -
  let ?s = "k < 0" and ?n = "\<bar>k\<bar>"
  have n: "0 \<le> ?n" "?n \<le> 32768" using assms by auto
  have a: "of_int_fl B32 k = Fin ?s (of_int ?n)"
    using rnd_i16_scaled [OF n, of 0 ?s] by (simp add: of_int_fl_def)
  have "fmul B32 (of_int_fl B32 k) (Fin False (1 / 32768)) = rnd B32 ?s (of_int ?n * 2 powi (- 15))"
    by (simp add: a power_int_minus)
  also have "\<dots> = Fin ?s (of_int ?n * 2 powi (- 15))" using n by (intro rnd_i16_scaled) auto
  finally have v: "fmul B32 (of_int_fl B32 k) (Fin False (1 / 32768)) = Fin ?s (of_int ?n / 32768)"
    by (simp add: power_int_minus)
  have "fmul B32 (Fin ?s (of_int ?n / 32768)) (Fin False 32768) = rnd B32 ?s (of_int ?n * 2 powi 0)"
    by simp
  also have "\<dots> = Fin ?s (of_int ?n * 2 powi 0)" using n by (intro rnd_i16_scaled) auto
  finally have e: "fmul B32 (Fin ?s (of_int ?n / 32768)) (Fin False 32768) = Fin ?s (of_int ?n)"
    by simp
  have r: "fround (Fin ?s (of_int ?n)) = Fin ?s (of_int ?n)"
    by (simp only: fround.simps) (simp add: floor_eq_iff)
  have lo: "of_int_fl B32 (- 32768) = Fin True 32768" and hi: "of_int_fl B32 32767 = Fin False 32767"
    by (simp_all add: of_int_fl_def round_simps)
  have c: "fclamp (of_int_fl B32 (- 32768)) (of_int_fl B32 32767) (Fin ?s (of_int ?n)) = Fin ?s (of_int ?n)"
    using assms by (auto simp: lo hi fclamp_def)
  have "to_i16 (Fin ?s (of_int ?n)) = k" using assms by (auto simp: to_i16_def)
  then show ?thesis by (simp only: encode_i16_def v e r c)
qed

lemma i16_of_bounds: "length c = 2 \<Longrightarrow> - 32768 \<le> i16_of c \<and> i16_of c \<le> 32767"
  using le_nat_bound [of c] twos_bounds [of "le_nat c" 16] by (simp add: i16_of_def)

lemma i16_bytes: "length c = 2 \<Longrightarrow> le_bytes 2 (untwos 16 (i16_of c)) = c"
  using le_nat_bound [of c] le_bytes_le_nat [of c] by (simp add: i16_of_def untwos_twos)

lemma chunk_halves:
  "length c = 2 * k \<Longrightarrow> slice 0 k c @ slice k (2 * k) c = c"
  by (simp add: slice_def)

text \<open>
  Decoding an int16 IQ payload at the full-scale default and quantising the samples again
  at the same scale gives back the payload byte for byte: no raw value, the extremes
  included, is moved by the trip through single precision.
\<close>

theorem int16_requantises_exactly:
  assumes "4 dvd length data" and "wire_scale m = None"
  shows "convert_f32_to_target_format to_half Int16
           (components (parse_iq_int16_optimized data (int16_decode_scale None m))) (int16_encode_scale None m)
         = Ok data"
proof -
  have es: "int16_encode_scale None m = Fin False 32768"
    using assms(2) by (simp add: int16_encode_scale_def DEFAULT_INT16_ENCODE_SCALE_def lit_def round_simps)
  have ds: "int16_decode_scale None m = Fin False (1 / 32768)"
    by (simp add: int16_decode_scale_def es lit_def round_simps)
  let ?e = "encode_i16 (Fin False 32768)"
  let ?d = "\<lambda>c. fmul B32 (of_int_fl B32 (i16_of c)) (Fin False (1 / 32768))"
  have half: "?e (?d c) = c" if "length c = 2" for c
    using i16_through_f32 [of "i16_of c"] i16_of_bounds [OF that] i16_bytes [OF that] by simp
  have "concat (map ?e (components (map (\<lambda>c. (?d (slice 0 2 c), ?d (slice 2 4 c))) cs))) = concat cs"
    if "\<forall>c \<in> set cs. length c = 4" for cs
    using that
  proof (induction cs)
    case (Cons c cs)
    then have "?e (?d (slice 0 2 c)) @ ?e (?d (slice 2 4 c)) = c"
      using chunk_halves [of c 2] by (simp add: half)
    with Cons show ?case by (simp add: components_def)
  qed (simp add: components_def)
  from this [of "as_chunks 4 data"] have
    "concat (map ?e (components (parse_iq_int16_optimized data (Fin False (1 / 32768))))) = data"
    using concat_as_chunks [OF _ assms(1)] by (simp add: parse_iq_int16_optimized_def in_as_chunks)
  moreover have "cast_fl B32 (Fin False 32768) = Fin False 32768" by (simp add: round_simps)
  ultimately show ?thesis by (simp add: convert_f32_to_target_format_def es ds del: cast_fl.simps)
qed

theorem int16_requantises_exactly_witness:
  "convert_f32_to_target_format (\<lambda>x. 0) Int16
     (components (parse_iq_int16_optimized [0, 0x80, 0xFF, 0x7F] (int16_decode_scale None example_metadata)))
     (int16_encode_scale None example_metadata) = Ok [0, 0x80, 0xFF, 0x7F]"
  by (rule int16_requantises_exactly) (simp_all add: example_metadata_def numeral_eq_Suc)

lemma f32_bytes: "length c = 4 \<Longrightarrow> le_bytes 4 (to_bits B32 (f32_of c)) = c"
  using le_nat_bound [of c] le_bytes_le_nat [of c] to_from_bits [of "le_nat c" B32]
  by (simp add: f32_of_def)

text \<open>
  A float32 IQ payload survives decoding bit for bit, NaN payloads, infinities, signed
  zeros and subnormals included: writing the decoded samples back gives the same bytes.
\<close>

theorem float32_bytes_roundtrip:
  assumes "8 dvd length data"
  shows "convert_f32_to_target_format to_half Float32
           (components (parse_iq_float32_optimized data)) encode_scale = Ok data"
proof -
  let ?e = "\<lambda>v. le_bytes 4 (to_bits B32 v)"
  have "concat (map ?e (components (map (\<lambda>c. (f32_of (slice 0 4 c), f32_of (slice 4 8 c))) cs))) = concat cs"
    if "\<forall>c \<in> set cs. length c = 8" for cs
    using that
  proof (induction cs)
    case (Cons c cs)
    then have "?e (f32_of (slice 0 4 c)) @ ?e (f32_of (slice 4 8 c)) = c"
      using chunk_halves [of c 4] by (simp add: f32_bytes)
    with Cons show ?case by (simp add: components_def)
  qed (simp add: components_def)
  from this [of "as_chunks 8 data"] have
    "concat (map ?e (components (parse_iq_float32_optimized data))) = data"
    using concat_as_chunks [OF _ assms] by (simp add: parse_iq_float32_optimized_def in_as_chunks)
  then show ?thesis by (simp add: convert_f32_to_target_format_def)
qed

theorem float32_bytes_roundtrip_witness:
  "convert_f32_to_target_format (\<lambda>x. 0) Float32
     (components (parse_iq_float32_optimized [1, 0, 0xC0, 0xFF, 0, 0, 0, 0x80])) zero
   = Ok [1, 0, 0xC0, 0xFF, 0, 0, 0, 0x80]"
  by (rule float32_bytes_roundtrip) (simp add: numeral_eq_Suc)

end
