(* ===== verification/Stream_Parser.thy ===== *)
theory Stream_Parser
  imports Header_Scan Payload_Decode
begin

text \<open>
  \<open>StreamParser\<close> of \<open>src/src/http_streaming.rs\<close>: the buffer that packets are framed
  in across HTTP chunks, one attempt at its front, the loop over it and the two entry points.
  An \<open>Err\<close> leaves the parser in the state the code leaves it in, so every operation
  returns its result together with the new parser.
\<close>

record stats_counters =
  packets_parsed :: nat
  bytes_processed :: nat
  samples_decoded :: nat
  parse_errors :: nat

definition no_counts :: stats_counters where
  "no_counts = \<lparr>packets_parsed = 0, bytes_processed = 0, samples_decoded = 0, parse_errors = 0\<rparr>"

record stream_parser =
  sp_format :: stream_format
  buffer :: bytes
  consumed :: nat
  skip_bytes :: nat
  default_encode_scale :: "f64 option"
  counters :: stats_counters

definition parser_new :: "stream_format \<Rightarrow> f64 option \<Rightarrow> stream_parser" where
  "parser_new format s =
     \<lparr>sp_format = format, buffer = [], consumed = 0, skip_bytes = 0, default_encode_scale = s,
      counters = no_counts\<rparr>"

record streaming_stats =
  st_packets_parsed :: nat
  st_bytes_processed :: nat
  st_samples_decoded :: nat
  st_parse_errors :: nat
  samples_per_second :: f64
  bytes_per_second :: f64
  packet_rate :: f64

text \<open>The elapsed time is the argument.\<close>

definition parser_stats :: "stream_parser \<Rightarrow> f64 \<Rightarrow> streaming_stats" where
  "parser_stats p elapsed_secs =
     (let elapsed = fmax elapsed_secs (lit B64 (1 / 10 ^ 9)); c = counters p
      in \<lparr>st_packets_parsed = packets_parsed c, st_bytes_processed = bytes_processed c,
          st_samples_decoded = samples_decoded c, st_parse_errors = parse_errors c,
          samples_per_second = fdiv B64 (of_nat_fl B64 (samples_decoded c)) elapsed,
          bytes_per_second = fdiv B64 (of_nat_fl B64 (bytes_processed c)) elapsed,
          packet_rate = fdiv B64 (of_nat_fl B64 (packets_parsed c)) elapsed\<rparr>)"

definition reset_stats :: "stream_parser \<Rightarrow> stream_parser" where
  "reset_stats p = p\<lparr>counters := no_counts\<rparr>"

definition parser_reset :: "stream_parser \<Rightarrow> stream_parser" where
  "parser_reset p = p\<lparr>buffer := [], consumed := 0, skip_bytes := 0\<rparr>"

datatype parsed_item = Packet stream_packet | Lost error | Skipped payload_type error

datatype parse_step =
    StepPacket stream_packet
  | NeedMore
  | StepLost error
  | Undecoded payload_type error

definition MAX_JSON_BUFFER :: nat where "MAX_JSON_BUFFER = 10 * 1024 * 1024"
definition MAX_BINARY_PAYLOAD :: nat where "MAX_BINARY_PAYLOAD = 256 * 1024 * 1024"
definition COMPACT_THRESHOLD :: nat where "COMPACT_THRESHOLD = 64 * 1024"

section \<open>The buffer\<close>

definition pending :: "stream_parser \<Rightarrow> bytes" where
  "pending p = drop (consumed p) (buffer p)"

definition consume_buffer :: "nat \<Rightarrow> stream_parser \<Rightarrow> stream_parser" where
  "consume_buffer n p =
     (let c = consumed p + n
      in if length (buffer p) \<le> c then p\<lparr>buffer := [], consumed := 0\<rparr>
         else if COMPACT_THRESHOLD \<le> c then p\<lparr>buffer := drop c (buffer p), consumed := 0\<rparr>
         else p\<lparr>consumed := c\<rparr>)"

definition count_errors :: "nat \<Rightarrow> stream_parser \<Rightarrow> stream_parser" where
  "count_errors n p = p\<lparr>counters := (counters p)\<lparr>parse_errors := parse_errors (counters p) + n\<rparr>\<rparr>"

definition count_packet :: "nat \<Rightarrow> stream_parser \<Rightarrow> stream_parser" where
  "count_packet n p = p\<lparr>counters := (counters p)\<lparr>packets_parsed := packets_parsed (counters p) + 1,
     samples_decoded := samples_decoded (counters p) + n\<rparr>\<rparr>"

section \<open>One attempt at the front of the buffer\<close>

definition json_step ::
  "deps \<Rightarrow> packet_metadata \<Rightarrow> nat \<Rightarrow> nat \<Rightarrow> nat \<Rightarrow> stream_parser \<Rightarrow> parse_step \<times> stream_parser" where
  "json_step D m lo hi payload_start p =
     (case json_of D (slice lo hi (pending p)) of
        None \<Rightarrow> (StepLost (Protocol ''packet header is not a JSON document: ''), consume_buffer payload_start p)
      | Some doc \<Rightarrow>
          (case parse_json_samples m doc of
             Inl e \<Rightarrow> (Undecoded (payload m) e, consume_buffer payload_start p)
           | Inr xs \<Rightarrow>
               (StepPacket (stream_packet_new (m\<lparr>samples_count := length xs\<rparr>) xs),
                consume_buffer payload_start (count_packet (length xs) p))))"

text \<open>
  \<open>aligned\<close> says whether a payload at a given offset of the buffer happens to lie aligned in
  memory; \<open>parse_binary_samples_aligned\<close> makes the answer immaterial.
\<close>

definition binary_step ::
  "deps \<Rightarrow> (nat \<Rightarrow> bool) \<Rightarrow> packet_metadata \<Rightarrow> nat \<Rightarrow> stream_parser \<Rightarrow> parse_step \<times> stream_parser" where
  "binary_step D aligned m payload_start p =
     (case calculate_binary_size (sp_format p) m of
        Inl e \<Rightarrow> (Undecoded (payload m) e, consume_buffer payload_start p)
      | Inr expected \<Rightarrow>
          if MAX_BINARY_PAYLOAD < expected
          then let buffered = length (pending p);
                   here = buffered - payload_start
               in (StepLost (Protocol ''packet declares a binary payload of ''),
                   consume_buffer buffered (p\<lparr>skip_bytes := expected - here\<rparr>))
          else let binary_end = payload_start + expected
               in if length (pending p) < binary_end then (NeedMore, p)
                  else case parse_binary_samples D (aligned (consumed p + payload_start)) (sp_format p) (default_encode_scale p) m
                              (slice payload_start binary_end (pending p)) of
                         Inl e \<Rightarrow> (Undecoded (payload m) e, consume_buffer binary_end p)
                       | Inr xs \<Rightarrow> (StepPacket (stream_packet_new m xs),
                                  consume_buffer binary_end (count_packet (length xs) p)))"

definition try_parse_complete_packet ::
  "deps \<Rightarrow> (nat \<Rightarrow> bool) \<Rightarrow> stream_parser \<Rightarrow> parse_step result \<times> stream_parser" where
  "try_parse_complete_packet D aligned p =
     (case scan_packet_header (meta_of D) (pending p) of
        Incomplete skippable rejected \<Rightarrow>
          (let q = consume_buffer skippable (count_errors rejected p)
           in if MAX_JSON_BUFFER < length (pending q)
              then (Err (Protocol ''packet JSON header exceeded ''), q)
              else (Ok NeedMore, q))
      | Header m lo hi payload_start rejected \<Rightarrow>
          (let q = count_errors rejected p;
               (step, q') = (if sp_format p = Json then json_step D m lo hi payload_start q
                             else binary_step D aligned m payload_start q)
           in (Ok step, q')))"

section \<open>Every attempt but a wait consumes bytes\<close>

lemma consume_buffer_frame [simp]:
  "sp_format (consume_buffer n p) = sp_format p"
  "skip_bytes (consume_buffer n p) = skip_bytes p"
  "default_encode_scale (consume_buffer n p) = default_encode_scale p"
  "counters (consume_buffer n p) = counters p"
  by (simp_all add: consume_buffer_def Let_def)

lemma count_frame [simp]:
  "pending (count_errors n p) = pending p" "sp_format (count_errors n p) = sp_format p"
  "skip_bytes (count_errors n p) = skip_bytes p"
  "default_encode_scale (count_errors n p) = default_encode_scale p"
  "buffer (count_errors n p) = buffer p" "consumed (count_errors n p) = consumed p"
  "pending (count_packet n p) = pending p" "sp_format (count_packet n p) = sp_format p"
  "skip_bytes (count_packet n p) = skip_bytes p"
  "default_encode_scale (count_packet n p) = default_encode_scale p"
  "buffer (count_packet n p) = buffer p" "consumed (count_packet n p) = consumed p"
  by (simp_all add: count_errors_def count_packet_def pending_def)

text \<open>Compaction is invisible: consuming drops exactly the bytes asked for.\<close>

lemma pending_consume_buffer [simp]: "pending (consume_buffer n p) = drop n (pending p)"
  by (simp add: consume_buffer_def pending_def Let_def add.commute)

lemma parse_binary_samples_aligned:
  "parse_binary_samples D a format ds m data = parse_binary_samples D True format ds m data"
  by (simp add: parse_binary_samples_def parse_iq_samples_def float16_decoded
      split: payload_type.splits stream_format.splits)

lemma json_step_consumes:
  "json_step D m lo hi ps p = (step, q) \<Longrightarrow> step \<noteq> NeedMore \<and> pending q = drop ps (pending p)"
  by (auto simp: json_step_def split: option.splits sum.splits)

lemma binary_step_consumes:
  "binary_step D aligned m ps p = (step, q) \<Longrightarrow> ps \<le> length (pending p) \<Longrightarrow>
   step = NeedMore \<and> q = p \<or> length (pending q) + ps \<le> length (pending p)"
  by (auto simp: binary_step_def Let_def pending_def [of "_\<lparr>skip_bytes := _\<rparr>"]
      pending_def [symmetric] split: sum.splits if_splits)

lemma try_parse_consumes:
  assumes "try_parse_complete_packet D aligned p = (Inr step, q)" "step \<noteq> NeedMore"
  shows "length (pending q) < length (pending p)"
proof (cases "scan_packet_header (meta_of D) (pending p)")
  case (Incomplete k rej)
  with assms show ?thesis
    by (auto simp: try_parse_complete_packet_def Let_def split: if_splits)
next
  case (Header m lo hi ps rej)
  note b = scan_header_bounds [OF Header]
  have "length (pending q) + ps \<le> length (pending p)"
  proof (cases "sp_format p = Json")
    case True
    with assms Header have "json_step D m lo hi ps (count_errors rej p) = (step, q)"
      by (simp add: try_parse_complete_packet_def Let_def split: prod.splits)
    from json_step_consumes [OF this] b show ?thesis by simp
  next
    case False
    with assms Header have "binary_step D aligned m ps (count_errors rej p) = (step, q)"
      by (simp add: try_parse_complete_packet_def Let_def split: prod.splits)
    from binary_step_consumes [OF this] assms(2) b show ?thesis by simp
  qed
  with b show ?thesis by simp
qed

section \<open>The loop and the entry points\<close>

function parse_loop ::
  "deps \<Rightarrow> (nat \<Rightarrow> bool) \<Rightarrow> bool \<Rightarrow> parsed_item list \<Rightarrow> stream_parser \<Rightarrow> (parsed_item list) result \<times> stream_parser"
where
  "parse_loop D aligned stop_at_loss items p =
     (case try_parse_complete_packet D aligned p of
        (Inl e, q) \<Rightarrow> (Err e, count_errors 1 q)
      | (Inr NeedMore, q) \<Rightarrow> (Ok items, q)
      | (Inr (StepPacket k), q) \<Rightarrow> parse_loop D aligned stop_at_loss (items @ [Packet k]) q
      | (Inr (StepLost e), q) \<Rightarrow>
          if stop_at_loss then (Ok (items @ [Lost e]), count_errors 1 q)
          else parse_loop D aligned stop_at_loss (items @ [Lost e]) (count_errors 1 q)
      | (Inr (Undecoded kind e), q) \<Rightarrow>
          let item = (if kind = Iq then Lost e else Skipped kind e)
          in if stop_at_loss then (Ok (items @ [item]), count_errors 1 q)
             else parse_loop D aligned stop_at_loss (items @ [item]) (count_errors 1 q))"
  by pat_completeness auto
termination
  by (relation "measure (\<lambda>(D, a, s, i, p). length (pending p))")
     (auto dest: try_parse_consumes [OF sym])

declare parse_loop.simps [simp del]

definition parse_buffered ::
  "deps \<Rightarrow> (nat \<Rightarrow> bool) \<Rightarrow> bool \<Rightarrow> bytes \<Rightarrow> stream_parser \<Rightarrow> (parsed_item list) result \<times> stream_parser"
where
  "parse_buffered D aligned stop_at_loss data p0 =
     (let p = p0\<lparr>counters := (counters p0)\<lparr>bytes_processed := bytes_processed (counters p0) + length data\<rparr>\<rparr>;
          skip = min (skip_bytes p) (length data);
          q = p\<lparr>skip_bytes := skip_bytes p - skip\<rparr>
      in if 0 < skip \<and> skip = length data then (Ok [], q)
         else parse_loop D aligned stop_at_loss [] (q\<lparr>buffer := buffer q @ drop skip data\<rparr>))"

definition process_data_recovering ::
  "deps \<Rightarrow> (nat \<Rightarrow> bool) \<Rightarrow> bytes \<Rightarrow> stream_parser \<Rightarrow> (parsed_item list) result \<times> stream_parser" where
  "process_data_recovering D aligned data p = parse_buffered D aligned False data p"

text \<open>The packets in front of the first loss are thrown away with it.\<close>

fun only_packets :: "parsed_item list \<Rightarrow> (stream_packet list) result" where
  "only_packets [] = Ok []"
| "only_packets (Packet k # items) = bind_result (only_packets items) (\<lambda>ks. Ok (k # ks))"
| "only_packets (Lost e # items) = Err e"
| "only_packets (Skipped kind e # items) = Err e"

definition process_data ::
  "deps \<Rightarrow> (nat \<Rightarrow> bool) \<Rightarrow> bytes \<Rightarrow> stream_parser \<Rightarrow> (stream_packet list) result \<times> stream_parser" where
  "process_data D aligned data p =
     (let (r, q) = parse_buffered D aligned True data p in (bind_result r only_packets, q))"

end
