(* ===== verification/Framing.thy ===== *)
theory Framing
  imports Prelude
begin

text \<open>
  The contract between a framed byte stream and whoever feeds it in pieces: one step takes
  the first complete item off the front of the buffer, and what it takes does not change when
  more bytes arrive behind it. \<open>norm\<close> forgets bytes that can no longer matter; an item with
  \<open>cut\<close> discards bytes without looking at them and is exempt. Under these laws the way the
  bytes were cut into chunks cannot be seen in the items.
\<close>

locale framing =
  fixes step :: "'b list \<Rightarrow> ('i \<times> 'b list) option"
    and norm :: "'b list \<Rightarrow> 'b list"
    and cut :: "'i \<Rightarrow> bool"
  assumes shorter: "step xs = Some (i, ys) \<Longrightarrow> length ys < length xs"
    and step_norm: "step (norm xs) = step xs"
    and norm_append: "norm (norm xs @ zs) = norm (xs @ zs)"
    and extend: "step xs = Some (i, ys) \<Longrightarrow> \<not> cut i \<Longrightarrow>
      \<exists>ys'. step (xs @ zs) = Some (i, ys') \<and> norm ys' = norm (ys @ zs)"
begin

inductive runs :: "'b list \<Rightarrow> 'i list \<Rightarrow> 'b list \<Rightarrow> bool" where
  stop: "step xs = None \<Longrightarrow> runs xs [] xs"
| more: "step xs = Some (i, ys) \<Longrightarrow> runs ys items r \<Longrightarrow> runs xs (i # items) r"

inductive_cases runs_NilE: "runs xs [] r"
inductive_cases runs_ConsE: "runs xs (i # items) r"

inductive feeds :: "'b list \<Rightarrow> 'b list list \<Rightarrow> 'i list \<Rightarrow> 'b list \<Rightarrow> bool" where
  fed_all: "feeds r [] [] r"
| fed_chunk: "runs (r @ c) items r1 \<Longrightarrow> norm r2 = norm r1 \<Longrightarrow> feeds r2 cs items' r' \<Longrightarrow>
    feeds r (c # cs) (items @ items') r'"

lemma norm_norm: "norm (norm xs) = norm xs"
  using norm_append [of xs "[]"] by simp

lemma norm_cong_append: "norm xs = norm ys \<Longrightarrow> norm (xs @ zs) = norm (ys @ zs)"
  by (metis norm_append)

lemma step_cong: "norm xs = norm ys \<Longrightarrow> step xs = step ys"
  by (metis step_norm)

text \<open>Every buffer runs to an end: no chunk can keep the loop going for ever.\<close>

lemma runs_total: "\<exists>items r. runs xs items r"
proof (induction xs rule: length_induct)
  case (1 xs)
  show ?case
  proof (cases "step xs")
    case None
    then show ?thesis by (blast intro: runs.stop)
  next
    case (Some iy)
    obtain i ys where iy: "iy = (i, ys)" by (rule prod.exhaust)
    with Some shorter have "length ys < length xs" by blast
    with 1 obtain items r where "runs ys items r" by blast
    with Some iy show ?thesis by (blast intro: runs.more)
  qed
qed

lemma runs_unique: "runs xs items r \<Longrightarrow> runs xs items' r' \<Longrightarrow> items = items' \<and> r = r'"
proof (induction arbitrary: items' r' rule: runs.induct)
  case (stop xs)
  from stop(2,1) show ?case by (cases rule: runs.cases) auto
next
  case (more xs i ys items r)
  from more.prems more.hyps(1) obtain js where "items' = i # js" "runs ys js r'"
    by (cases rule: runs.cases) auto
  with more.IH show ?case by blast
qed

lemma runs_norm:
  assumes "runs xs items r" and n: "norm xs = norm ys"
  shows "\<exists>r'. runs ys items r' \<and> norm r' = norm r"
  using assms(1)
proof (cases rule: runs.cases)
  case stop
  then have "runs ys items ys" using step_cong [OF n] runs.stop [of ys] by simp
  with stop n show ?thesis by auto
next
  case (more i zs js)
  then have "runs ys items r" using step_cong [OF n] runs.more [of ys i zs js r] by simp
  then show ?thesis by blast
qed

lemma runs_extend:
  "runs xs items r \<Longrightarrow> (\<And>i. i \<in> set items \<Longrightarrow> \<not> cut i) \<Longrightarrow> norm r1 = norm r \<Longrightarrow> runs (r1 @ zs) js s \<Longrightarrow>
   \<exists>s'. runs (xs @ zs) (items @ js) s' \<and> norm s' = norm s"
proof (induction rule: runs.induct)
  case (stop xs)
  then have "norm (r1 @ zs) = norm (xs @ zs)" by (intro norm_cong_append) simp
  with stop.prems(3) show ?case by (simp add: runs_norm)
next
  case (more xs i ys items r)
  then obtain s' where s': "runs (ys @ zs) (items @ js) s'" "norm s' = norm s" by auto
  obtain ys' where ys': "step (xs @ zs) = Some (i, ys')" "norm ys' = norm (ys @ zs)"
    using extend [OF more.hyps(1)] more.prems(1) by auto
  obtain s'' where "runs ys' (items @ js) s''" "norm s'' = norm s'"
    using runs_norm [OF s'(1) ys'(2) [symmetric]] by blast
  with ys'(1) s'(2) show ?case using runs.more [of "xs @ zs" i ys'] by auto
qed

lemma feeds_once:
  "feeds r chunks items r' \<Longrightarrow> chunks \<noteq> [] \<Longrightarrow> (\<And>i. i \<in> set items \<Longrightarrow> \<not> cut i) \<Longrightarrow>
   \<exists>s. runs (r @ concat chunks) items s \<and> norm s = norm r'"
proof (induction rule: feeds.induct)
  case (fed_all r)
  then show ?case by simp
next
  case (fed_chunk r c items r1 r2 cs items' r')
  show ?case
  proof (cases "cs = []")
    case True
    with fed_chunk.hyps(3) have "items' = []" "r' = r2" by (auto elim: feeds.cases)
    with fed_chunk True show ?thesis by auto
  next
    case False
    then obtain s where s: "runs (r2 @ concat cs) items' s" "norm s = norm r'"
      using fed_chunk.IH fed_chunk.prems(2) by auto
    then obtain s' where "runs ((r @ c) @ concat cs) (items @ items') s'" "norm s' = norm s"
      using runs_extend [OF fed_chunk.hyps(1) _ fed_chunk.hyps(2) s(1)] fed_chunk.prems(2) by auto
    with s(2) show ?thesis by auto
  qed
qed

end

end
