(* ===== verification/Stream_Chunking.thy ===== *)
theory Stream_Chunking
  imports Framing Scan_Growth Stream_Parser
begin

text \<open>
  What the stream parser promises: on plain byte lists, one step takes the first packet off
  the front; this step meets the framing contract, and the parser with its offset, its
  compaction and its counters refines it. From there: chunk boundaries are invisible, a
  stream of well-formed packets parses to exactly those packets, garbage costs only itself.
\<close>

section \<open>The abstract step\<close>

definition undecoded_item :: "packet_metadata \<Rightarrow> error \<Rightarrow> parsed_item" where
  "undecoded_item m e = (if payload m = Iq then Lost e else Skipped (payload m) e)"

definition json_item :: "deps \<Rightarrow> packet_metadata \<Rightarrow> bytes \<Rightarrow> parsed_item" where
  "json_item D m json_text =
     (case json_of D json_text of
        None \<Rightarrow> Lost (Protocol ''packet header is not a JSON document: '')
      | Some doc \<Rightarrow>
          (case parse_json_samples m doc of
             Inl e \<Rightarrow> undecoded_item m e
           | Inr xs \<Rightarrow> Packet (stream_packet_new (m\<lparr>samples_count := length xs\<rparr>) xs)))"

definition binary_item ::
  "deps \<Rightarrow> stream_format \<Rightarrow> f64 option \<Rightarrow> packet_metadata \<Rightarrow> bytes \<Rightarrow> parsed_item" where
  "binary_item D format ds m body =
     (case parse_binary_samples D True format ds m body of
        Inl e \<Rightarrow> undecoded_item m e
      | Inr xs \<Rightarrow> Packet (stream_packet_new m xs))"

definition frame_step ::
  "deps \<Rightarrow> stream_format \<Rightarrow> f64 option \<Rightarrow> bytes \<Rightarrow> (parsed_item \<times> bytes) option" where
  "frame_step D format ds buf =
     (case scan_packet_header (meta_of D) buf of
        Incomplete k rej \<Rightarrow> None
      | Header m lo hi ps rej \<Rightarrow>
          if format = Json then Some (json_item D m (slice lo hi buf), drop ps buf)
          else case calculate_binary_size format m of
                 Inl e \<Rightarrow> Some (undecoded_item m e, drop ps buf)
               | Inr n \<Rightarrow>
                   if MAX_BINARY_PAYLOAD < n
                   then Some (Lost (Protocol ''packet declares a binary payload of ''), [])
                   else if length buf < ps + n then None
                   else Some (binary_item D format ds m (slice ps (ps + n) buf), drop (ps + n) buf))"

definition over_cap :: "parsed_item \<Rightarrow> bool" where
  "over_cap i = (i = Lost (Protocol ''packet declares a binary payload of ''))"

section \<open>The abstract step meets the contract\<close>

lemma frame_step_unspent: "frame_step D format ds (unspent (meta_of D) xs) = frame_step D format ds xs"
proof (cases "scan_packet_header (meta_of D) xs")
  case (Header m c f ps rej)
  note h = header_facts [OF Header]
  obtain rej' where r: "scan_packet_header (meta_of D) (drop c xs) = Header m 0 (f - c) (ps - c) rej'"
    using scan_drop_header [OF Header] by blast
  have u: "unspent (meta_of D) xs = drop c xs" by (simp add: unspent_def Header)
  have sl: "slice 0 (f - c) (drop c xs) = slice c f xs"
    "slice (ps - c) (ps - c + n) (drop c xs) = slice ps (ps + n) xs" for n
    using h by (simp_all add: slice_drop)
  have len: "length (drop c xs) < ps - c + n \<longleftrightarrow> length xs < ps + n" for n
    using h by auto
  have dr: "drop (ps - c) (drop c xs) = drop ps xs" "drop (ps - c + n) (drop c xs) = drop (ps + n) xs" for n
    using h by (simp_all add: add.commute)
  show ?thesis
    unfolding frame_step_def u r Header by (simp only: header_scan.case sl len dr)
next
  case (Incomplete k rej)
  from incomplete_facts(3) [OF Incomplete] Incomplete show ?thesis
    by (simp add: frame_step_def unspent_def)
qed

lemma frame_step_shorter:
  assumes "frame_step D format ds xs = Some (i, ys)"
  shows "length ys < length xs"
proof (cases "scan_packet_header (meta_of D) xs")
  case (Header m c f ps rej)
  with header_facts [OF Header] assms show ?thesis
    by (auto simp: frame_step_def split: if_splits sum.splits)
next
  case (Incomplete k rej)
  with assms show ?thesis by (simp add: frame_step_def)
qed

lemma frame_step_extend:
  assumes s: "frame_step D format ds xs = Some (i, ys)" and "\<not> over_cap i"
  shows "\<exists>ys'. frame_step D format ds (xs @ zs) = Some (i, ys') \<and>
     unspent (meta_of D) ys' = unspent (meta_of D) (ys @ zs)"
proof (cases "scan_packet_header (meta_of D) xs")
  case (Incomplete k rej)
  with s show ?thesis by (simp add: frame_step_def)
next
  case (Header m c f ps rej)
  note h = header_facts [OF Header]
  let ?ps = "payload_start_of (xs @ zs) f"
  have a: "scan_packet_header (meta_of D) (xs @ zs) = Header m c f ?ps rej"
    using scan_append_header [OF Header] .
  have json_text: "slice c f (xs @ zs) = slice c f xs" using h by (simp add: slice_append)
  note u = drop_start_append [OF Header, of zs]
  show ?thesis
  proof (cases "format = Json \<or> (\<exists>e. calculate_binary_size format m = Inl e)")
    case True
    with s h u show ?thesis by (auto simp: frame_step_def Header a json_text)
  next
    case False
    then obtain n where n: "calculate_binary_size format m = Inr n" "format \<noteq> Json"
      by (cases "calculate_binary_size format m") auto
    have le: "n \<le> MAX_BINARY_PAYLOAD" "ps + n \<le> length xs"
      "i = binary_item D format ds m (slice ps (ps + n) xs)" "ys = drop (ps + n) xs"
      using s assms(2) n by (auto simp: frame_step_def Header over_cap_def split: if_splits)
    consider "?ps = ps" | "ps = length xs" "?ps = length xs + 1" "zs \<noteq> []"
      using payload_start_append [OF h(8), of zs] h(4) by auto
    then show ?thesis
    proof cases
      case 1
      with n le show ?thesis by (simp add: frame_step_def a slice_append)
    next
      case 2
      with le(2) have z: "n = 0" by simp
      have "frame_step D format ds (xs @ zs) = Some (i, drop ?ps (xs @ zs))"
        using n le(1,3) 2 by (simp add: frame_step_def a z slice_def)
      with u le(4) z show ?thesis by simp
    qed
  qed
qed

interpretation wire: framing "frame_step D format ds" "unspent (meta_of D)" over_cap
  for D format ds
  by unfold_locales (fact frame_step_shorter frame_step_unspent unspent_append frame_step_extend)+

section \<open>The parser refines the abstract step\<close>

text \<open>An unterminated header too long to wait for: the one error that skipping cannot cure.\<close>

definition stuck :: "(bytes \<Rightarrow> packet_metadata option) \<Rightarrow> bytes \<Rightarrow> bool" where
  "stuck mo buf =
     (case scan_packet_header mo buf of
        Header m c f ps rej \<Rightarrow> False
      | Incomplete k rej \<Rightarrow> MAX_JSON_BUFFER < length (unspent mo buf))"

lemma unspent_unspent [simp]: "unspent mo (unspent mo buf) = unspent mo buf"
  using unspent_append [of mo buf "[]"] by simp

lemma stuck_unspent: "stuck mo (unspent mo buf) = stuck mo buf"
proof (cases "scan_packet_header mo buf")
  case (Header m c f ps rej)
  with scan_drop_header [OF Header] show ?thesis by (auto simp: stuck_def unspent_def)
next
  case (Incomplete k rej)
  with incomplete_facts(3) [OF Incomplete] show ?thesis
    by (simp add: stuck_def unspent_unspent [of mo buf, unfolded unspent_def]) (simp add: unspent_def)
qed

lemma stuck_cong: "unspent mo xs = unspent mo ys \<Longrightarrow> stuck mo xs = stuck mo ys"
  by (metis stuck_unspent)

text \<open>The item a step of the parser pushes.\<close>

fun step_item :: "parse_step \<Rightarrow> parsed_item option" where
  "step_item (StepPacket k) = Some (Packet k)"
| "step_item NeedMore = None"
| "step_item (StepLost e) = Some (Lost e)"
| "step_item (Undecoded kind e) = Some (if kind = Iq then Lost e else Skipped kind e)"

lemma json_step_refines:
  assumes "json_step D m lo hi ps p = (step, q)"
  shows "step_item step = Some (json_item D m (slice lo hi (pending p)))" "pending q = drop ps (pending p)"
    "skip_bytes q = skip_bytes p" "sp_format q = sp_format p" "default_encode_scale q = default_encode_scale p"
  using assms by (auto simp: json_step_def json_item_def undecoded_item_def split: option.splits sum.splits)

lemma pending_skip [simp]: "pending (p\<lparr>skip_bytes := n\<rparr>) = pending p"
  by (simp add: pending_def)

lemma binary_step_refines:
  assumes "binary_step D aligned m ps p = (step, q)"
  shows "case calculate_binary_size (sp_format p) m of
      Inl e \<Rightarrow> step_item step = Some (undecoded_item m e) \<and> pending q = drop ps (pending p) \<and> skip_bytes q = skip_bytes p
    | Inr n \<Rightarrow>
        if MAX_BINARY_PAYLOAD < n
        then step_item step = Some (Lost (Protocol ''packet declares a binary payload of '')) \<and> pending q = [] \<and>
             skip_bytes q = n - (length (pending p) - ps)
        else if length (pending p) < ps + n then step = NeedMore \<and> q = p
        else step_item step = Some (binary_item D (sp_format p) (default_encode_scale p) m
               (slice ps (ps + n) (pending p))) \<and> pending q = drop (ps + n) (pending p) \<and> skip_bytes q = skip_bytes p"
    and "sp_format q = sp_format p" "default_encode_scale q = default_encode_scale p"
  using assms
  by (auto simp: binary_step_def binary_item_def undecoded_item_def Let_def
      parse_binary_samples_aligned [of D "aligned (consumed p + ps)"] split: sum.splits if_splits)

lemma try_parse_refines:
  assumes "try_parse_complete_packet D aligned p = (r, q)"
  shows "sp_format q = sp_format p" "default_encode_scale q = default_encode_scale p"
    and "case r of
        Inl e \<Rightarrow> frame_step D (sp_format p) (default_encode_scale p) (pending p) = None \<and>
          stuck (meta_of D) (pending p)
      | Inr step \<Rightarrow>
          (case step_item step of
             None \<Rightarrow> frame_step D (sp_format p) (default_encode_scale p) (pending p) = None \<and>
               unspent (meta_of D) (pending q) = unspent (meta_of D) (pending p) \<and> skip_bytes q = skip_bytes p \<and>
               \<not> stuck (meta_of D) (pending p)
           | Some i \<Rightarrow> frame_step D (sp_format p) (default_encode_scale p) (pending p) = Some (i, pending q) \<and>
               (over_cap i \<or> skip_bytes q = skip_bytes p))"
proof -
  let ?F = "frame_step D (sp_format p) (default_encode_scale p) (pending p)"
  have "sp_format q = sp_format p \<and> default_encode_scale q = default_encode_scale p \<and>
    (case r of
        Inl e \<Rightarrow> ?F = None \<and> stuck (meta_of D) (pending p)
      | Inr step \<Rightarrow>
          (case step_item step of
             None \<Rightarrow> ?F = None \<and>
               unspent (meta_of D) (pending q) = unspent (meta_of D) (pending p) \<and> skip_bytes q = skip_bytes p \<and>
               \<not> stuck (meta_of D) (pending p)
           | Some i \<Rightarrow> ?F = Some (i, pending q) \<and> (over_cap i \<or> skip_bytes q = skip_bytes p)))"
  proof (cases "scan_packet_header (meta_of D) (pending p)")
    case (Incomplete k rej)
    from incomplete_facts(3) [OF Incomplete] Incomplete assms show ?thesis
      by (auto simp: try_parse_complete_packet_def frame_step_def unspent_def stuck_def Let_def split: if_splits)
  next
    case (Header m lo hi ps rej)
    show ?thesis
    proof (cases "sp_format p = Json")
      case True
      with assms Header obtain step where r: "r = Inr step"
        and st: "json_step D m lo hi ps (count_errors rej p) = (step, q)"
        by (auto simp: try_parse_complete_packet_def Let_def split: prod.splits)
      from json_step_refines [OF st] True show ?thesis by (simp add: r frame_step_def stuck_def Header)
    next
      case False
      with assms Header obtain step where r: "r = Inr step"
        and st: "binary_step D aligned m ps (count_errors rej p) = (step, q)"
        by (auto simp: try_parse_complete_packet_def Let_def split: prod.splits)
      from binary_step_refines [OF st] False show ?thesis
        by (auto simp: r frame_step_def stuck_def Header over_cap_def split: sum.splits if_splits)
    qed
  qed
  then show "sp_format q = sp_format p" "default_encode_scale q = default_encode_scale p"
    "case r of
        Inl e \<Rightarrow> ?F = None \<and> stuck (meta_of D) (pending p)
      | Inr step \<Rightarrow>
          (case step_item step of
             None \<Rightarrow> ?F = None \<and>
               unspent (meta_of D) (pending q) = unspent (meta_of D) (pending p) \<and> skip_bytes q = skip_bytes p \<and>
               \<not> stuck (meta_of D) (pending p)
           | Some i \<Rightarrow> ?F = Some (i, pending q) \<and> (over_cap i \<or> skip_bytes q = skip_bytes p))"
    by blast+
qed

lemma step_item_None [simp]: "step_item s = None \<longleftrightarrow> s = NeedMore"
  by (cases s) auto

lemma parse_loop_cases:
  "try_parse_complete_packet D aligned p = (Inl e, q) \<Longrightarrow>
     parse_loop D aligned False items p = (Err e, count_errors 1 q)"
  "try_parse_complete_packet D aligned p = (Inr NeedMore, q) \<Longrightarrow>
     parse_loop D aligned False items p = (Ok items, q)"
  "try_parse_complete_packet D aligned p = (Inr step, q) \<Longrightarrow> step_item step = Some i \<Longrightarrow>
     \<exists>n. parse_loop D aligned False items p = parse_loop D aligned False (items @ [i]) (count_errors n q)"
proof -
  show "try_parse_complete_packet D aligned p = (Inl e, q) \<Longrightarrow>
     parse_loop D aligned False items p = (Err e, count_errors 1 q)"
    "try_parse_complete_packet D aligned p = (Inr NeedMore, q) \<Longrightarrow>
     parse_loop D aligned False items p = (Ok items, q)"
    by (simp_all add: parse_loop.simps [of D aligned False items p])
  assume t: "try_parse_complete_packet D aligned p = (Inr step, q)" "step_item step = Some i"
  have z: "count_errors 0 q = q" by (simp add: count_errors_def)
  show "\<exists>n. parse_loop D aligned False items p = parse_loop D aligned False (items @ [i]) (count_errors n q)"
  proof (cases step)
    case (StepPacket k)
    with t z show ?thesis
      by (intro exI [of _ 0]) (simp add: parse_loop.simps [of D aligned False items p])
  qed (use t in \<open>auto intro!: exI [of _ 1] simp: parse_loop.simps [of D aligned False items p]\<close>)
qed

lemma parse_loop_refines:
  "\<exists>new r. wire.runs D (sp_format p) (default_encode_scale p) (pending p) new r \<and>
     (case parse_loop D aligned False items p of
        (Inl e, q) \<Rightarrow> stuck (meta_of D) r
      | (Inr items', q) \<Rightarrow> items' = items @ new \<and> \<not> stuck (meta_of D) r \<and>
          unspent (meta_of D) (pending q) = unspent (meta_of D) r \<and>
          sp_format q = sp_format p \<and> default_encode_scale q = default_encode_scale p \<and>
          ((\<forall>i \<in> set new. \<not> over_cap i) \<longrightarrow> skip_bytes q = skip_bytes p))"
proof (induction "length (pending p)" arbitrary: p items rule: less_induct)
  case less
  obtain r q where t: "try_parse_complete_packet D aligned p = (r, q)" by (rule prod.exhaust)
  note ref = try_parse_refines [OF t]
  show ?case
  proof (cases r)
    case (Inl e)
    with ref(3) have "wire.runs D (sp_format p) (default_encode_scale p) (pending p) [] (pending p)"
      "stuck (meta_of D) (pending p)" by (auto intro: wire.runs.stop)
    with parse_loop_cases(1) [OF t [unfolded Inl]] show ?thesis by (intro exI conjI) auto
  next
    case (Inr step)
    show ?thesis
    proof (cases "step_item step")
      case None
      with ref(3) Inr have "wire.runs D (sp_format p) (default_encode_scale p) (pending p) [] (pending p)"
        by (auto intro: wire.runs.stop)
      with parse_loop_cases(2) [of D aligned p q items] None t Inr ref show ?thesis
        by (intro exI [of _ "[]"] exI [of _ "pending p"]) simp
    next
      case (Some i)
      obtain n where n: "parse_loop D aligned False items p
          = parse_loop D aligned False (items @ [i]) (count_errors n q)"
        using parse_loop_cases(3) [OF t [unfolded Inr] Some] by blast
      let ?q = "count_errors n q"
      have st: "frame_step D (sp_format p) (default_encode_scale p) (pending p) = Some (i, pending q)"
        and sk: "over_cap i \<or> skip_bytes q = skip_bytes p"
        using ref(3) Inr Some by auto
      have "length (pending ?q) < length (pending p)" using frame_step_shorter [OF st] by simp
      from less [OF this, of "items @ [i]", unfolded count_frame ref(1,2)] obtain new r' where
        "wire.runs D (sp_format p) (default_encode_scale p) (pending q) new r'"
        and c: "case parse_loop D aligned False (items @ [i]) ?q of
          (Inl e, q') \<Rightarrow> stuck (meta_of D) r'
        | (Inr items', q') \<Rightarrow> items' = (items @ [i]) @ new \<and> \<not> stuck (meta_of D) r' \<and>
            unspent (meta_of D) (pending q') = unspent (meta_of D) r' \<and>
            sp_format q' = sp_format p \<and> default_encode_scale q' = default_encode_scale p \<and>
            ((\<forall>i \<in> set new. \<not> over_cap i) \<longrightarrow> skip_bytes q' = skip_bytes q)"
        by (elim exE conjE) (rule that)
      with st have "wire.runs D (sp_format p) (default_encode_scale p) (pending p) (i # new) r'"
        by (blast intro: wire.runs.more)
      with c n sk ref(1,2) show ?thesis
        by (intro exI [of _ "i # new"] exI [of _ r'] conjI) (auto split: prod.splits sum.splits)
    qed
  qed
qed

section \<open>The parser between chunks\<close>

definition parser_ok :: "stream_parser \<Rightarrow> bool" where
  "parser_ok p = (consumed p \<le> length (buffer p) \<and> consumed p < COMPACT_THRESHOLD)"

lemma parser_ok_consume [simp]: "parser_ok (consume_buffer n p)"
  by (simp add: parser_ok_def consume_buffer_def Let_def COMPACT_THRESHOLD_def)

lemma parser_ok_frame [simp]:
  "parser_ok (count_errors n p) = parser_ok p" "parser_ok (count_packet n p) = parser_ok p"
  "parser_ok (parser_new format s)" "parser_ok (parser_reset p)"
  by (simp_all add: parser_ok_def parser_new_def parser_reset_def COMPACT_THRESHOLD_def)

lemma parser_ok_try:
  "try_parse_complete_packet D aligned p = (r, q) \<Longrightarrow> parser_ok p \<Longrightarrow> parser_ok q"
  by (auto simp: try_parse_complete_packet_def json_step_def binary_step_def Let_def
      split: header_scan.splits if_splits sum.splits option.splits prod.splits)

lemma parser_ok_loop:
  "parser_ok p \<Longrightarrow> parser_ok (snd (parse_loop D aligned stop items p))"
proof (induction D aligned stop items p rule: parse_loop.induct)
  case (1 D aligned stop items p)
  obtain r q where t: "try_parse_complete_packet D aligned p = (r, q)" by (rule prod.exhaust)
  with "1.prems" have q: "parser_ok q" using parser_ok_try by blast
  note IH = "1.IH" [OF t [symmetric]]
  show ?case
  proof (cases r)
    case (Inl e)
    with t q show ?thesis by (simp add: parse_loop.simps [of D aligned stop items p])
  next
    case (Inr step)
    then show ?thesis
      using q IH [OF Inr] by (cases step) (auto simp: parse_loop.simps [of D aligned stop items p] t Let_def)
  qed
qed

lemma parser_ok_buffered:
  assumes "parser_ok p"
  shows "parser_ok (snd (parse_buffered D aligned stop data p))"
proof -
  let ?p = "p\<lparr>counters := (counters p)\<lparr>bytes_processed := bytes_processed (counters p) + length data\<rparr>,
    skip_bytes := skip_bytes p - min (skip_bytes p) (length data)\<rparr>"
  have "parser_ok ?p" "parser_ok (?p\<lparr>buffer := buffer p @ drop n data\<rparr>)" for n
    using assms by (simp_all add: parser_ok_def)
  then show ?thesis by (auto simp: parse_buffered_def Let_def parser_ok_loop)
qed

lemma parser_ok_recovering:
  "parser_ok p \<Longrightarrow> parser_ok (snd (process_data_recovering D aligned data p))"
  by (simp add: process_data_recovering_def parser_ok_buffered)

text \<open>
  The buffer never carries more than 64 KiB of bytes already consumed, however the stream
  is cut and whatever is rejected in it: every call leaves the offset inside the buffer and
  below the compaction threshold.
\<close>

theorem consumed_prefix_bounded:
  assumes "parser_ok p"
  shows "parser_ok (snd (process_data_recovering D aligned data p)) \<and>
         parser_ok (snd (process_data D aligned data p))"
proof -
  have ok: "parser_ok (snd (parse_buffered D aligned stop data p))" for stop
    using assms by (rule parser_ok_buffered)
  have "snd (process_data D aligned data p) = snd (parse_buffered D aligned True data p)"
    by (simp add: process_data_def case_prod_beta)
  with ok show ?thesis by (simp add: process_data_recovering_def)
qed

lemma process_refines:
  assumes "parser_ok p" "skip_bytes p = 0"
  shows "\<exists>new r. wire.runs D (sp_format p) (default_encode_scale p) (pending p @ data) new r \<and>
     (case process_data_recovering D aligned data p of
        (Inl e, q) \<Rightarrow> stuck (meta_of D) r
      | (Inr items, q) \<Rightarrow> items = new \<and> \<not> stuck (meta_of D) r \<and>
          unspent (meta_of D) (pending q) = unspent (meta_of D) r \<and>
          sp_format q = sp_format p \<and> default_encode_scale q = default_encode_scale p \<and>
          ((\<forall>i \<in> set new. \<not> over_cap i) \<longrightarrow> skip_bytes q = 0))"
proof -
  define p' where "p' = p\<lparr>counters := (counters p)\<lparr>bytes_processed := bytes_processed (counters p) + length data\<rparr>,
    skip_bytes := 0, buffer := buffer p @ data\<rparr>"
  have pend: "pending p' = pending p @ data" "sp_format p' = sp_format p" "skip_bytes p' = 0"
    "default_encode_scale p' = default_encode_scale p"
    using assms by (simp_all add: p'_def pending_def parser_ok_def)
  have "process_data_recovering D aligned data p = parse_loop D aligned False [] p'"
    using assms(2) by (simp add: process_data_recovering_def parse_buffered_def Let_def p'_def)
  with parse_loop_refines [where D = D and p = p' and aligned = aligned and items = "[]", unfolded pend append_Nil] show ?thesis by simp
qed

fun feed_chunks ::
  "deps \<Rightarrow> (nat \<Rightarrow> bool) \<Rightarrow> bytes list \<Rightarrow> stream_parser \<Rightarrow> (parsed_item list) result \<times> stream_parser" where
  "feed_chunks D aligned [] p = (Ok [], p)"
| "feed_chunks D aligned (c # cs) p =
     (case process_data_recovering D aligned c p of
        (Inl e, q) \<Rightarrow> (Err e, q)
      | (Inr items, q) \<Rightarrow>
          (case feed_chunks D aligned cs q of
             (Inl e, q') \<Rightarrow> (Err e, q')
           | (Inr items', q') \<Rightarrow> (Ok (items @ items'), q')))"

lemma feed_chunks_feeds:
  "feed_chunks D aligned cs p = (Inr items, q) \<Longrightarrow> parser_ok p \<Longrightarrow> skip_bytes p = 0 \<Longrightarrow>
   list_all (\<lambda>i. \<not> over_cap i) items \<Longrightarrow>
   wire.feeds D (sp_format p) (default_encode_scale p) (pending p) cs items (pending q) \<and>
   (cs \<noteq> [] \<longrightarrow> \<not> stuck (meta_of D) (pending q))"
proof (induction cs arbitrary: p items)
  case Nil
  then show ?case by (auto intro: wire.feeds.fed_all)
next
  case (Cons c cs)
  obtain i1 p1 where a: "process_data_recovering D aligned c p = (Inr i1, p1)"
    using Cons.prems(1) by (auto split: prod.splits sum.splits)
  obtain i2 where b: "feed_chunks D aligned cs p1 = (Inr i2, q)" and i: "items = i1 @ i2"
    using Cons.prems(1) a by (auto split: prod.splits sum.splits)
  obtain r where r: "wire.runs D (sp_format p) (default_encode_scale p) (pending p @ c) i1 r"
    "\<not> stuck (meta_of D) r" "unspent (meta_of D) (pending p1) = unspent (meta_of D) r"
    "sp_format p1 = sp_format p" "default_encode_scale p1 = default_encode_scale p" "skip_bytes p1 = 0"
    using process_refines [OF Cons.prems(2,3), of D c aligned] a i Cons.prems(4)
    by (auto simp: list_all_iff)
  have ok: "parser_ok p1" using parser_ok_recovering [OF Cons.prems(2), of D aligned c] a by simp
  have ih: "wire.feeds D (sp_format p) (default_encode_scale p) (pending p1) cs i2 (pending q)"
    "cs \<noteq> [] \<longrightarrow> \<not> stuck (meta_of D) (pending q)"
    using Cons.IH [OF b ok r(6)] i Cons.prems(4) r(4,5) by auto
  have "\<not> stuck (meta_of D) (pending q)"
  proof (cases "cs = []")
    case True
    with b have "q = p1" by simp
    with r(2) stuck_cong [OF r(3)] show ?thesis by simp
  qed (use ih in blast)
  with wire.feeds.fed_chunk [OF r(1) r(3) ih(1)] i show ?case by simp
qed

section \<open>A well-formed stream\<close>

text \<open>
  One packet as a server sends it: garbage that can begin no header, the header's JSON text,
  a separator, and the payload.
\<close>

record frame =
  garbage :: bytes
  header_text :: bytes
  separator :: bytes
  header :: packet_metadata
  body :: bytes

definition frame_ok :: "deps \<Rightarrow> stream_format \<Rightarrow> frame \<Rightarrow> bool" where
  "frame_ok D format w =
     (spent (meta_of D) (garbage w) (length (garbage w)) \<and>
      header_text w \<noteq> [] \<and> is_brace (hd (header_text w)) \<and>
      list_all (\<lambda>b. \<not> is_terminator b) (header_text w) \<and> meta_of D (header_text w) = Some (header w) \<and>
      (separator w = [ASCII_LINE_FEED, ASCII_RECORD_SEPARATOR] \<or> separator w = [ASCII_RECORD_SEPARATOR] \<or>
       separator w = [ASCII_LINE_FEED] \<and> body w \<noteq> [] \<and> hd (body w) \<noteq> ASCII_RECORD_SEPARATOR) \<and>
      calculate_binary_size format (header w) = Ok (length (body w)) \<and> length (body w) \<le> MAX_BINARY_PAYLOAD)"

definition frame_bytes :: "frame \<Rightarrow> bytes" where
  "frame_bytes w = garbage w @ header_text w @ separator w @ body w"

definition frame_item :: "deps \<Rightarrow> stream_format \<Rightarrow> f64 option \<Rightarrow> frame \<Rightarrow> parsed_item" where
  "frame_item D format ds w = binary_item D format ds (header w) (body w)"

lemma spent_append: "spent mo g k \<Longrightarrow> spent mo (g @ xs) k"
  by (simp add: spent_def)

lemma frame_scan:
  assumes h: "header_text w \<noteq> []" "is_brace (hd (header_text w))"
      "list_all (\<lambda>b. \<not> is_terminator b) (header_text w)" "meta_of D (header_text w) = Some (header w)"
    and g: "spent (meta_of D) (garbage w) (length (garbage w))"
    and t: "tail \<noteq> []" "is_terminator (hd tail)"
  shows "\<exists>rej. scan_packet_header (meta_of D) (garbage w @ header_text w @ tail)
     = Header (header w) (length (garbage w)) (length (garbage w) + length (header_text w))
         (payload_start_of (garbage w @ header_text w @ tail) (length (garbage w) + length (header_text w))) rej"
proof -
  let ?buf = "garbage w @ header_text w @ tail" and ?g = "length (garbage w)" and ?h = "length (header_text w)"
  have sl: "slice ?g (?g + ?h) ?buf = header_text w" by (simp add: slice_def)
  have "?buf ! ?g = hd (header_text w)" using h(1) by (simp add: nth_append hd_conv_nth)
  moreover have "?buf ! (?g + ?h) = hd tail" using t(1) by (simp add: nth_append hd_conv_nth)
  ultimately have "header_at (meta_of D) ?buf ?g (?g + ?h)"
    using h t by (simp add: header_at_def sl)
  from scan_header_unique [OF this spent_append [OF g]] h(4) show ?thesis by (simp add: sl)
qed

lemma frame_step_frame:
  assumes w: "frame_ok D format w" and "format \<noteq> Json"
  shows "frame_step D format ds (frame_bytes w @ rest) = Some (frame_item D format ds w, rest)"
proof -
  let ?tail = "separator w @ body w @ rest"
  let ?buf = "garbage w @ header_text w @ ?tail"
  let ?f = "length (garbage w) + length (header_text w)"
  have "?tail \<noteq> []" "is_terminator (hd ?tail)"
    using w by (auto simp: frame_ok_def is_terminator_def)
  then obtain rej where scan: "scan_packet_header (meta_of D) ?buf
      = Header (header w) (length (garbage w)) ?f (payload_start_of ?buf ?f) rej"
    using frame_scan [of w D ?tail] w by (auto simp: frame_ok_def)
  have nth: "?buf ! ?f = hd (separator w)" "?buf ! (?f + 1) = (if length (separator w) = 1 then (body w @ rest) ! 0
      else separator w ! 1)" "0 < length (separator w)"
    using w by (auto simp: frame_ok_def nth_append)
  have ps: "payload_start_of ?buf ?f = ?f + length (separator w)"
    using w nth(1,2) unfolding payload_start_of_def frame_ok_def
    by (elim conjE disjE) (auto simp: ASCII_LINE_FEED_def ASCII_RECORD_SEPARATOR_def hd_conv_nth nth_append)
  have size: "calculate_binary_size format (header w) = Ok (length (body w))" "length (body w) \<le> MAX_BINARY_PAYLOAD"
    using w by (simp_all add: frame_ok_def)
  have sl: "slice (?f + length (separator w)) (?f + length (separator w) + length (body w)) ?buf = body w"
    "drop (?f + length (separator w) + length (body w)) ?buf = rest"
    by (simp_all add: slice_def)
  have eq: "frame_bytes w @ rest = ?buf" by (simp add: frame_bytes_def)
  show ?thesis
    unfolding eq frame_step_def scan ps using assms(2) size sl
    by (simp add: frame_item_def del: drop_append)
qed

lemma frames_run:
  assumes "list_all (frame_ok D format) ws" "format \<noteq> Json"
  shows "wire.runs D format ds (concat (map frame_bytes ws)) (map (frame_item D format ds) ws) []"
  using assms(1)
proof (induction ws)
  case Nil
  have "frame_step D format ds [] = None"
    by (simp add: frame_step_def scan_packet_header_def scan_from_cases(1))
  then show ?case by (simp add: wire.runs.stop)
next
  case (Cons w ws)
  then show ?case
    using frame_step_frame [OF _ assms(2), of D w ds "concat (map frame_bytes ws)"]
    by (auto intro: wire.runs.more)
qed

lemma unspent_Nil [simp]: "unspent mo [] = []"
  by (simp add: unspent_def scan_packet_header_def scan_from_cases(1))

lemma not_stuck_Nil [simp]: "\<not> stuck mo []"
  by (simp add: stuck_def scan_packet_header_def scan_from_cases(1))

lemma frames_parse:
  assumes "list_all (frame_ok D format) ws" "format \<noteq> Json"
  shows "\<exists>q. process_data_recovering D aligned (concat (map frame_bytes ws)) (parser_new format ds)
     = (Ok (map (frame_item D format ds) ws), q) \<and> unspent (meta_of D) (pending q) = []"
proof -
  let ?p = "parser_new format ds"
  have p: "parser_ok ?p" "skip_bytes ?p = 0" "pending ?p = []" "sp_format ?p = format"
    "default_encode_scale ?p = ds"
    by (simp_all add: parser_new_def pending_def parser_ok_def COMPACT_THRESHOLD_def)
  obtain res q where res: "process_data_recovering D aligned (concat (map frame_bytes ws)) ?p = (res, q)"
    by (rule prod.exhaust)
  obtain new r where "wire.runs D format ds (concat (map frame_bytes ws)) new r"
    and c: "case res of
        Inl e \<Rightarrow> stuck (meta_of D) r
      | Inr items \<Rightarrow> items = new \<and> \<not> stuck (meta_of D) r \<and> unspent (meta_of D) (pending q) = unspent (meta_of D) r \<and>
          sp_format q = format \<and> default_encode_scale q = ds \<and> ((\<forall>i \<in> set new. \<not> over_cap i) \<longrightarrow> skip_bytes q = 0)"
    using process_refines [OF p(1,2), of D "concat (map frame_bytes ws)" aligned]
    unfolding res prod.case p(3-5) append_Nil by blast
  with wire.runs_unique frames_run [OF assms] have "new = map (frame_item D format ds) ws" "r = []" by blast+
  with c res show ?thesis by (auto split: sum.splits)
qed

text \<open>
  C2: A stream of uncompressed packets parses to exactly those packets: one item per packet,
  in order, each a packet with its header and exactly the samples the header declares,
  whatever bytes that begin no header stand between them and whichever of the three
  separators each uses; nothing is left to parse.
\<close>

theorem well_formed_stream_parses:
  assumes "format \<noteq> Json" and "list_all (frame_ok D format) ws"
    and "list_all (\<lambda>w. compression (header w) = None) ws"
  shows "\<exists>items q.
     process_data_recovering D aligned (concat (map frame_bytes ws)) (parser_new format ds) = (Ok items, q) \<and>
     unspent (meta_of D) (pending q) = [] \<and>
     list_all2 (\<lambda>w i. \<exists>xs. i = Packet (stream_packet_new (header w) xs) \<and>
       parse_binary_samples D True format ds (header w) (body w) = Ok xs \<and>
       length xs = declared_values (header w)) ws items"
proof -
  have "\<exists>xs. frame_item D format ds w = Packet (stream_packet_new (header w) xs) \<and>
      parse_binary_samples D True format ds (header w) (body w) = Ok xs \<and> length xs = declared_values (header w)"
    if "w \<in> set ws" for w
  proof -
    have "calculate_binary_size format (header w) = Ok (length (body w))" "compression (header w) = None"
      using that assms(2,3) by (auto simp: list_all_iff frame_ok_def)
    from declared_size_decodes [OF this(1), of D True ds] this(2) show ?thesis
      by (auto simp: frame_item_def binary_item_def)
  qed
  then have "list_all2 (\<lambda>w i. \<exists>xs. i = Packet (stream_packet_new (header w) xs) \<and>
      parse_binary_samples D True format ds (header w) (body w) = Ok xs \<and> length xs = declared_values (header w))
      ws (map (frame_item D format ds) ws)"
    by (simp add: list_all2_map2 list.rel_refl_strong)
  with frames_parse [OF assms(2,1)] show ?thesis by blast
qed

section \<open>Payloads over the cap\<close>

lemma try_parse_empty:
  assumes "pending p = []"
  shows "\<exists>q. try_parse_complete_packet D aligned p = (Inr NeedMore, q) \<and> skip_bytes q = skip_bytes p \<and> pending q = []"
  using assms
  by (simp add: try_parse_complete_packet_def scan_packet_header_def scan_from_cases(1) Let_def)

text \<open>
  A header whose payload is over the cap: the packet is reported lost, nothing stays buffered
  and the parser owes itself the part of the payload that has not arrived.
\<close>

lemma over_cap_step:
  assumes w: "header_text w \<noteq> []" "is_brace (hd (header_text w))"
      "list_all (\<lambda>b. \<not> is_terminator b) (header_text w)" "meta_of D (header_text w) = Some (header w)"
      "garbage w = []"
    and n: "calculate_binary_size format (header w) = Ok n" "MAX_BINARY_PAYLOAD < n" "format \<noteq> Json"
    and t: "tail \<noteq> []" "is_terminator (hd tail)"
  shows "\<exists>q. process_data_recovering D aligned (header_text w @ tail) (parser_new format ds)
      = (Ok [Lost (Protocol ''packet declares a binary payload of '')], q) \<and> pending q = [] \<and>
        sp_format q = format \<and> default_encode_scale q = ds \<and> parser_ok q \<and>
        skip_bytes q = n - (length (header_text w @ tail)
          - payload_start_of (header_text w @ tail) (length (header_text w)))"
proof -
  define p where "p = (parser_new format ds)\<lparr>counters := (counters (parser_new format ds))
      \<lparr>bytes_processed := bytes_processed (counters (parser_new format ds)) + length (header_text w @ tail)\<rparr>,
    skip_bytes := 0, buffer := header_text w @ tail\<rparr>"
  have pp: "pending p = header_text w @ tail" "sp_format p = format" "default_encode_scale p = ds"
    by (simp_all add: p_def pending_def parser_new_def)
  have start: "process_data_recovering D aligned (header_text w @ tail) (parser_new format ds)
      = parse_loop D aligned False [] p"
    by (simp add: process_data_recovering_def parse_buffered_def Let_def p_def parser_new_def)
  have "spent (meta_of D) (garbage w) (length (garbage w))" using w(5) by simp
  from frame_scan [OF w(1-4) this t] w(5) obtain rej where scan:
    "scan_packet_header (meta_of D) (header_text w @ tail) = Header (header w) 0 (length (header_text w))
       (payload_start_of (header_text w @ tail) (length (header_text w))) rej"
    by auto
  obtain r q where tp: "try_parse_complete_packet D aligned p = (r, q)" by (rule prod.exhaust)
  let ?ps = "payload_start_of (header_text w @ tail) (length (header_text w))"
  obtain step where r: "r = Inr step"
    and st: "binary_step D aligned (header w) ?ps (count_errors rej p) = (step, q)"
    using tp scan n(3) by (auto simp: try_parse_complete_packet_def pp Let_def split: prod.splits)
  from binary_step_refines [OF st] n have q:
    "step_item step = Some (Lost (Protocol ''packet declares a binary payload of ''))" "pending q = []"
    "skip_bytes q = n - (length (header_text w @ tail) - ?ps)" "sp_format q = format" "default_encode_scale q = ds"
    by (simp_all add: pp)
  obtain k where k: "parse_loop D aligned False [] p = parse_loop D aligned False
      [Lost (Protocol ''packet declares a binary payload of '')] (count_errors k q)"
    using parse_loop_cases(3) [OF tp [unfolded r] q(1), of "[]"] by auto
  have "pending (count_errors k q) = []" by (simp add: q(2))
  from try_parse_empty [OF this, of D aligned] obtain q' where
    q': "try_parse_complete_packet D aligned (count_errors k q) = (Inr NeedMore, q')"
    "skip_bytes q' = skip_bytes q" "pending q' = []" by auto
  have "sp_format q' = format" "default_encode_scale q' = ds"
    using try_parse_refines(1,2) [OF q'(1)] q by simp_all
  moreover have "parser_ok q'"
    using parser_ok_recovering [of "parser_new format ds" D aligned "header_text w @ tail"]
      parse_loop_cases(2) [OF q'(1)] by (simp add: start k)
  ultimately show ?thesis
    using parse_loop_cases(2) [OF q'(1)] q' q by (simp add: start k)
qed

text \<open>Bytes owed are dropped on arrival; what follows them is parsed as if they had never come.\<close>

lemma process_owed:
  assumes "skip_bytes p = length tail" "pending p = []" "sp_format p = format" "default_encode_scale p = ds"
    and "parser_ok p" "format \<noteq> Json" "list_all (frame_ok D format) ws"
  shows "\<exists>q. process_data_recovering D aligned (tail @ concat (map frame_bytes ws)) p
     = (Ok (map (frame_item D format ds) ws), q) \<and> unspent (meta_of D) (pending q) = []"
proof -
  let ?data = "concat (map frame_bytes ws)"
  define p' where "p' = p\<lparr>counters := (counters p)\<lparr>bytes_processed := bytes_processed (counters p) + length (tail @ ?data)\<rparr>,
    skip_bytes := 0, buffer := buffer p @ ?data\<rparr>"
  have pend: "pending p' = ?data" "sp_format p' = format" "default_encode_scale p' = ds"
    using assms(2-5) by (simp_all add: p'_def pending_def parser_ok_def)
  show ?thesis
  proof (cases "tail \<noteq> [] \<and> ?data = []")
    case True
    then have "ws = []"
      using assms(7) by (cases ws) (auto simp: frame_ok_def frame_bytes_def)
    then show ?thesis
      using assms(1,2) True
      by (auto simp: process_data_recovering_def parse_buffered_def Let_def pending_def)
  next
    case False
    have "process_data_recovering D aligned (tail @ ?data) p = parse_loop D aligned False [] p'"
      using assms(1) False
      by (auto simp: process_data_recovering_def parse_buffered_def Let_def p'_def)
    with parse_loop_refines [where D = D and p = p' and aligned = aligned and items = "[]", unfolded pend append_Nil]
    obtain new r where "wire.runs D format ds ?data new r"
      and c: "case process_data_recovering D aligned (tail @ ?data) p of
        (Inl e, q) \<Rightarrow> stuck (meta_of D) r
      | (Inr items, q) \<Rightarrow> items = new \<and> \<not> stuck (meta_of D) r \<and> unspent (meta_of D) (pending q) = unspent (meta_of D) r \<and>
          sp_format q = format \<and> default_encode_scale q = ds \<and> ((\<forall>i \<in> set new. \<not> over_cap i) \<longrightarrow> skip_bytes q = skip_bytes p')"
      by auto
    with wire.runs_unique frames_run [OF assms(7,6)]
    have "new = map (frame_item D format ds) ws" "r = []" by blast+
    with c show ?thesis
      by (cases "process_data_recovering D aligned (tail @ ?data) p") (auto split: sum.splits)
  qed
qed


text \<open>
  The exception: when the first chunk ends between the line feed and the record separator,
  the separator is counted as payload, and the parser owes itself one byte too few. The last
  payload byte is then scanned as if it were stream.
\<close>

lemma over_cap_split_separator:
  assumes "format \<noteq> Json" and "garbage w = []"
    and "header_text w \<noteq> []" "is_brace (hd (header_text w))"
    and "list_all (\<lambda>b. \<not> is_terminator b) (header_text w)" "meta_of D (header_text w) = Some (header w)"
    and "calculate_binary_size format (header w) = Ok n" "MAX_BINARY_PAYLOAD < n"
  shows "\<exists>q. process_data_recovering D aligned (header_text w @ [ASCII_LINE_FEED]) (parser_new format ds)
      = (Ok [Lost (Protocol ''packet declares a binary payload of '')], q) \<and>
     skip_bytes q < length (ASCII_RECORD_SEPARATOR # replicate n 0)"
proof -
  have "payload_start_of (header_text w @ [ASCII_LINE_FEED]) (length (header_text w)) = length (header_text w) + 1"
    by (simp add: payload_start_of_def)
  with over_cap_step [OF assms(3-6,2,7,8,1), of "[ASCII_LINE_FEED]" aligned ds] show ?thesis
    by (auto simp: is_terminator_def)
qed

section \<open>Stopping at a loss\<close>

fun is_packet :: "parsed_item \<Rightarrow> bool" where
  "is_packet (Packet k) = True"
| "is_packet (Lost e) = False"
| "is_packet (Skipped kind e) = False"

lemma parse_loop_prefix:
  "parse_loop D aligned False (a @ items) p
     = map_prod (\<lambda>r. bind_result r (\<lambda>rest. Ok (a @ rest))) id (parse_loop D aligned False items p)"
proof (induction "length (pending p)" arbitrary: p items rule: less_induct)
  case less
  obtain r q where t: "try_parse_complete_packet D aligned p = (r, q)" by (rule prod.exhaust)
  show ?case
  proof (cases r)
    case (Inl e)
    with t parse_loop_cases(1) show ?thesis by simp
  next
    case (Inr step)
    show ?thesis
    proof (cases "step_item step")
      case None
      with t Inr parse_loop_cases(2) show ?thesis by simp
    next
      case (Some i)
      then have ne: "step \<noteq> NeedMore" by auto
      have "length (pending q) < length (pending p)"
        using try_parse_consumes [of D aligned p step q] t Inr ne by simp
      then have ih: "parse_loop D aligned False (a @ items @ [i]) (count_errors n q)
          = map_prod (\<lambda>r. bind_result r (\<lambda>rest. Ok (a @ rest))) id (parse_loop D aligned False (items @ [i]) (count_errors n q))" for n
        by (intro less) simp
      have z: "count_errors 0 q = q" by (simp add: count_errors_def)
      show ?thesis
        using ih [of 0] ih [of 1] Some t Inr
        by (cases step) (simp_all add: parse_loop.simps [of D aligned False _ p] z Let_def)
    qed
  qed
qed

lemma parse_loop_resume:
  assumes "parse_loop D aligned True items p = (Inr items', q)" "parser_ok p"
  shows "(\<exists>new. items' = items @ new \<and> list_all is_packet (butlast new)) \<and>
     fst (parse_loop D aligned False items p) = fst (parse_loop D aligned False items' q)"
  using assms
proof (induction "length (pending p)" arbitrary: p items rule: less_induct)
  case less
  obtain r p' where t: "try_parse_complete_packet D aligned p = (r, p')" by (rule prod.exhaust)
  obtain step where r: "r = Inr step"
    using less.prems(1) t by (cases r) (auto simp: parse_loop.simps [of D aligned True items p])
  note ref = try_parse_refines [OF t, unfolded r]
  show ?case
  proof (cases step)
    case (StepPacket k)
    have lt: "length (pending p') < length (pending p)"
      using try_parse_consumes [of D aligned p step p'] t r StepPacket by simp
    have "parse_loop D aligned True (items @ [Packet k]) p' = (Inr items', q)"
      using less.prems(1) t r StepPacket by (simp add: parse_loop.simps [of D aligned True items p])
    from less.hyps [OF lt this parser_ok_try [OF t less.prems(2)]] obtain new where
      new: "items' = items @ Packet k # new" "list_all is_packet (butlast new)"
      "fst (parse_loop D aligned False (items @ [Packet k]) p') = fst (parse_loop D aligned False items' q)"
      by auto
    moreover have "list_all is_packet (butlast (Packet k # new))" using new(2) by simp
    moreover have "parse_loop D aligned False items p = parse_loop D aligned False (items @ [Packet k]) p'"
      using t r StepPacket by (simp add: parse_loop.simps [of D aligned False items p])
    ultimately show ?thesis by auto
  next
    case NeedMore
    then have q: "items' = items" "q = p'"
      using less.prems(1) t r by (simp_all add: parse_loop.simps [of D aligned True items p])
    obtain r2 q2 where t2: "try_parse_complete_packet D aligned p' = (r2, q2)" by (rule prod.exhaust)
    have u: "unspent (meta_of D) (pending p') = unspent (meta_of D) (pending p)"
      and w: "frame_step D (sp_format p) (default_encode_scale p) (pending p) = None" "\<not> stuck (meta_of D) (pending p)"
      using ref(3) NeedMore by auto
    have "frame_step D (sp_format p') (default_encode_scale p') (pending p') = None" "\<not> stuck (meta_of D) (pending p')"
      using w frame_step_unspent [of D "sp_format p" "default_encode_scale p"] u ref(1,2) stuck_cong [OF u]
      by (metis, simp)
    with try_parse_refines(3) [OF t2] have "r2 = Inr NeedMore"
      by (auto split: sum.splits option.splits)
    with t2 have "fst (parse_loop D aligned False items p') = Ok items" by (simp add: parse_loop_cases(2))
    moreover have "fst (parse_loop D aligned False items p) = Ok items"
      using t r NeedMore by (simp add: parse_loop_cases(2))
    ultimately show ?thesis by (simp add: q)
  next
    case (StepLost e)
    with less.prems(1) t r show ?thesis
      by (auto simp: parse_loop.simps [of D aligned True items p] parse_loop.simps [of D aligned False items p])
  next
    case (Undecoded kind e)
    with less.prems(1) t r show ?thesis
      by (auto simp: parse_loop.simps [of D aligned True items p] parse_loop.simps [of D aligned False items p] Let_def)
  qed
qed

text \<open>
  Stopping at a loss loses nothing behind it. When the stopping parser returns, every item
  but the last is a packet, and a following call with no new data returns exactly the items
  the recovering parser would have appended: the two entry points differ only in how much one
  call reports.
\<close>

theorem stopping_at_a_loss_resumes:
  assumes "parser_ok p" and "skip_bytes p = 0"
    and "parse_buffered D aligned True data p = (Ok items, q)"
  shows "list_all is_packet (butlast items) \<and>
     fst (process_data_recovering D aligned data p)
       = bind_result (fst (process_data_recovering D aligned [] q)) (\<lambda>rest. Ok (items @ rest))"
proof -
  define p' where "p' = p\<lparr>counters := (counters p)\<lparr>bytes_processed := bytes_processed (counters p) + length data\<rparr>,
    skip_bytes := 0, buffer := buffer p @ data\<rparr>"
  have ok: "parser_ok p'" using assms(1) by (simp add: p'_def parser_ok_def)
  have a: "parse_buffered D aligned stop data p = parse_loop D aligned stop [] p'" for stop
    using assms(2) by (simp add: parse_buffered_def Let_def p'_def)
  have b: "process_data_recovering D aligned [] q = parse_loop D aligned False [] q"
    by (simp add: process_data_recovering_def parse_buffered_def Let_def)
  have "parse_loop D aligned True [] p' = (Inr items, q)" using assms(3) a by simp
  from parse_loop_resume [OF this ok] have c: "list_all is_packet (butlast items)"
    "fst (parse_loop D aligned False [] p') = fst (parse_loop D aligned False items q)" by auto
  have "fst (parse_loop D aligned False items q)
      = bind_result (fst (parse_loop D aligned False [] q)) (\<lambda>rest. Ok (items @ rest))"
    using parse_loop_prefix [of D aligned items "[]" q] by simp
  with c a b show ?thesis by (simp add: process_data_recovering_def)
qed

section \<open>Concrete streams\<close>

lemmas parser_eval = process_data_recovering_def parse_buffered_def parser_new_def no_counts_def
  parse_loop.simps try_parse_complete_packet_def scan_packet_header_def scan_from.simps scan_region.simps
  is_brace_def is_terminator_def OPEN_BRACE_def ASCII_RECORD_SEPARATOR_def ASCII_LINE_FEED_def slice_def
  pending_def consume_buffer_def count_errors_def binary_step_def calculate_binary_size_def
  example_deps_def example_metadata_def MAX_JSON_BUFFER_def MAX_BINARY_PAYLOAD_def COMPACT_THRESHOLD_def
  payload_start_of_def checked_mul_def USIZE_MAX_def Let_def

lemma skipped_in_pieces:
  "fst (feed_chunks example_deps (\<lambda>n. True) [[0x7B, 0x21], [0x7D, 10], [30]] (parser_new Int16 None))
     = Ok [Skipped Spectra (Protocol ''Spectra packet with compression factor '')]"
  by (simp add: parser_eval)

text \<open>
  A byte of garbage in front of a header whose payload is still arriving is counted as an
  error again on every call: the same stream reports one error or three, by how it was cut.
\<close>

lemma rejected_counted_again:
  "parse_errors (counters (snd (feed_chunks example_deps (\<lambda>n. True)
      [[0x7B, 10, 0x7B, 0x7D, 10, 30, 0, 0]] (parser_new Int16 None)))) = 1"
  "parse_errors (counters (snd (feed_chunks example_deps (\<lambda>n. True)
      [[0x7B, 10, 0x7B, 0x7D, 10, 30], [0], [0]] (parser_new Int16 None)))) = 3"
  by (simp_all add: parser_eval)

section \<open>Properties\<close>

text \<open>
  C1: Chunk boundaries are invisible. However the transport cuts the stream (inside a header,
  between the line feed and the record separator, inside a payload), when the calls return
  without an unterminated-header error and no packet is over the payload cap, a single call
  with the whole stream returns exactly the same items in the same order and leaves the same
  bytes to be parsed.
\<close>

theorem chunking_invisible:
  assumes "parser_ok p" and "skip_bytes p = 0" and "cs \<noteq> []"
    and "feed_chunks D aligned cs p = (Ok items, q)"
    and "list_all (\<lambda>i. \<not> over_cap i) items"
  shows "\<exists>q'. process_data_recovering D aligned' (concat cs) p = (Ok items, q') \<and>
     unspent (meta_of D) (pending q') = unspent (meta_of D) (pending q) \<and> skip_bytes q' = 0"
proof -
  have f: "wire.feeds D (sp_format p) (default_encode_scale p) (pending p) cs items (pending q)"
    and ns: "\<not> stuck (meta_of D) (pending q)"
    using feed_chunks_feeds [OF assms(4,1,2,5)] assms(3) by auto
  obtain s where s: "wire.runs D (sp_format p) (default_encode_scale p) (pending p @ concat cs) items s"
    "unspent (meta_of D) s = unspent (meta_of D) (pending q)"
    using wire.feeds_once [OF f assms(3)] assms(5) by (auto simp: list_all_iff)
  obtain res q' where res: "process_data_recovering D aligned' (concat cs) p = (res, q')"
    by (rule prod.exhaust)
  obtain new r where r: "wire.runs D (sp_format p) (default_encode_scale p) (pending p @ concat cs) new r"
    "case res of
        Inl e \<Rightarrow> stuck (meta_of D) r
      | Inr items \<Rightarrow> items = new \<and> \<not> stuck (meta_of D) r \<and>
          unspent (meta_of D) (pending q') = unspent (meta_of D) r \<and>
          sp_format q' = sp_format p \<and> default_encode_scale q' = default_encode_scale p \<and>
          ((\<forall>i \<in> set new. \<not> over_cap i) \<longrightarrow> skip_bytes q' = 0)"
    using process_refines [OF assms(1,2), of D "concat cs" aligned'] unfolding res prod.case by blast
  have "new = items" "r = s" using wire.runs_unique [OF r(1) s(1)] by auto
  with r(2) s(2) ns stuck_cong [of "meta_of D" s "pending q"] assms(5) res show ?thesis
    by (auto simp: list_all_iff split: sum.splits)
qed

theorem chunking_invisible_witness:
  "\<exists>q'. process_data_recovering example_deps (\<lambda>n. False) [0x7B, 0x21, 0x7D, 10, 30] (parser_new Int16 None)
     = (Ok [Skipped Spectra (Protocol ''Spectra packet with compression factor '')], q')"
proof -
  let ?cs = "[[0x7B, 0x21], [0x7D, 10], [30]]"
  obtain q where q: "feed_chunks example_deps (\<lambda>n. True) ?cs (parser_new Int16 None)
      = (Ok [Skipped Spectra (Protocol ''Spectra packet with compression factor '')], q)"
    using skipped_in_pieces by (metis prod.collapse)
  have "\<exists>q'. process_data_recovering example_deps (\<lambda>n. False) (concat ?cs) (parser_new Int16 None)
      = (Ok [Skipped Spectra (Protocol ''Spectra packet with compression factor '')], q') \<and>
     unspent (meta_of example_deps) (pending q') = unspent (meta_of example_deps) (pending q) \<and> skip_bytes q' = 0"
    by (rule chunking_invisible [OF _ _ _ q])
       (simp_all add: parser_ok_def parser_new_def COMPACT_THRESHOLD_def over_cap_def)
  then show ?thesis by auto
qed

definition example_frame :: frame where
  "example_frame = \<lparr>garbage = [1, 10, 2], header_text = [0x7B, 0x7D], separator = [10, 30],
     header = example_metadata, body = replicate 16 0\<rparr>"

lemma no_brace_garbage: "list_all (\<lambda>b. \<not> is_brace b) g \<Longrightarrow> spent mo g (length g)"
  by (rule spent_skip [of mo g 0]) (simp_all add: list_all_length)

lemma example_frame_ok: "frame_ok example_deps Int16 example_frame"
proof -
  have "spent (meta_of example_deps) [1, 10, 2] (length [1, 10, 2 :: byte])"
    by (rule no_brace_garbage) (simp add: is_brace_def OPEN_BRACE_def)
  then show ?thesis
    by (simp add: frame_ok_def example_frame_def parser_eval)
qed

theorem well_formed_stream_parses_witness:
  "\<exists>items q. process_data_recovering example_deps (\<lambda>n. True)
       (concat (map frame_bytes [example_frame, example_frame])) (parser_new Int16 None) = (Ok items, q) \<and>
     length items = 2"
  using well_formed_stream_parses [of Int16 example_deps "[example_frame, example_frame]" "\<lambda>n. True" None]
    example_frame_ok
  by (auto simp: example_frame_def example_metadata_def dest: list_all2_lengthD)


theorem stopping_at_a_loss_resumes_witness:
  "fst (process_data_recovering example_deps (\<lambda>n. True) [0x7B, 0x21, 0x7D, 10] (parser_new Int16 None))
     = Ok [Skipped Spectra (Protocol ''Spectra packet with compression factor '')]"
proof -
  obtain q where q: "parse_buffered example_deps (\<lambda>n. True) True [0x7B, 0x21, 0x7D, 10] (parser_new Int16 None)
      = (Ok [Skipped Spectra (Protocol ''Spectra packet with compression factor '')], q)"
    and r: "fst (process_data_recovering example_deps (\<lambda>n. True) [] q) = Ok []"
    by (simp add: parser_eval)
  show ?thesis
    using stopping_at_a_loss_resumes [OF _ _ q] r
    by (simp add: parser_ok_def parser_new_def COMPACT_THRESHOLD_def)
qed

theorem consumed_prefix_bounded_witness:
  "parser_ok (snd (process_data_recovering example_deps (\<lambda>n. True) [0x7B, 0x21] (parser_new Int16 None))) \<and>
   parser_ok (snd (process_data example_deps (\<lambda>n. True) [0x7B, 0x21] (parser_new Int16 None)))"
  by (rule consumed_prefix_bounded) simp

end
