(* ===== verification/Drop_Detector.thy ===== *)
theory Drop_Detector
  imports Stream_Format
begin

text \<open>
  \<open>DropDetector\<close> of \<open>src/src/http_streaming.rs\<close>: the check of each packet's start time
  against its predecessor's end time, with a tolerance measured from the stream. Times are
  \<open>f64\<close> seconds with their rounding.
\<close>

record drop_detector =
  dd_tolerance :: f64
  last_end_time :: "f64 option"
  last_duration :: "f64 option"
  jitter :: f64
  drops :: nat
  backward_steps :: nat
  cumulative_gap :: f64

datatype drop_result = Continuous | Drop f64 | Backward f64

definition PACKET_FRACTION :: f64 where "PACKET_FRACTION = lit B64 (1 / 2)"
definition JITTER_MARGIN :: f64 where "JITTER_MARGIN = lit B64 4"
definition PACKET_CEILING :: f64 where "PACKET_CEILING = lit B64 (3 / 4)"
definition RESOLUTION_FLOOR :: f64 where "RESOLUTION_FLOOR = lit B64 (4 / 10 ^ 6)"
definition JITTER_DECAY :: f64 where "JITTER_DECAY = lit B64 (999 / 1000)"

definition detector_new :: "f64 \<Rightarrow> drop_detector" where
  "detector_new tolerance =
     \<lparr>dd_tolerance = tolerance, last_end_time = None, last_duration = None, jitter = zero,
      drops = 0, backward_steps = 0, cumulative_gap = zero\<rparr>"

definition detector_default :: drop_detector where
  "detector_default = detector_new (lit B64 (1 / 1000))"

definition duration_of :: "stream_packet \<Rightarrow> f64 option" where
  "duration_of p =
     (let duration = fsub B64 (end_time (metadata p)) (start_time (metadata p))
      in if is_finite duration \<and> flt zero duration then Some duration else None)"

definition shortest_duration :: "f64 option \<Rightarrow> f64 option \<Rightarrow> f64 option" where
  "shortest_duration previous current =
     (case (previous, current) of
        (Some a, Some b) \<Rightarrow> Some (fmin a b)
      | (Some a, None) \<Rightarrow> Some a
      | (None, b) \<Rightarrow> b)"

definition tolerance_for :: "drop_detector \<Rightarrow> f64 option \<Rightarrow> f64" where
  "tolerance_for d duration =
     (case shortest_duration (last_duration d) duration of
        None \<Rightarrow> dd_tolerance d
      | Some shortest \<Rightarrow>
          fmin (fmax (fmax (fmin (fmul B64 JITTER_MARGIN (jitter d)) (fmul B64 PACKET_CEILING shortest))
                  (fmul B64 PACKET_FRACTION shortest))
                RESOLUTION_FLOOR)
            (dd_tolerance d))"

definition detector_observe :: "stream_packet \<Rightarrow> drop_detector \<Rightarrow> drop_result \<times> drop_detector" where
  "detector_observe p d =
     (let start = start_time (metadata p);
          finish = end_time (metadata p);
          duration = duration_of p;
          (result, d') =
            (case last_end_time d of
               Some prev_end \<Rightarrow>
                 let gap = fsub B64 start prev_end;
                     tolerance = tolerance_for d duration
                 in if flt tolerance gap
                    then (Drop gap, d\<lparr>drops := drops d + 1, cumulative_gap := fadd B64 (cumulative_gap d) gap\<rparr>)
                    else if flt tolerance (fneg gap)
                    then (Backward (fneg gap), d\<lparr>backward_steps := backward_steps d + 1\<rparr>)
                    else (Continuous, d\<lparr>jitter := fmax (fmul B64 (jitter d) JITTER_DECAY) (fabs gap)\<rparr>)
             | None \<Rightarrow> (Continuous, d))
      in (result, d'\<lparr>last_end_time := Some finish, last_duration := duration\<rparr>))"

definition detector_resync :: "drop_detector \<Rightarrow> drop_detector" where
  "detector_resync d = d\<lparr>last_end_time := None, last_duration := None\<rparr>"

definition detector_reset :: "drop_detector \<Rightarrow> drop_detector" where
  "detector_reset d =
     (detector_resync d)\<lparr>jitter := zero, drops := 0, backward_steps := 0, cumulative_gap := zero\<rparr>"

definition observed_jitter_seconds :: "drop_detector \<Rightarrow> f64" where
  "observed_jitter_seconds d = jitter d"

section \<open>The tolerance lies between half and three quarters of a packet\<close>

lemma constants:
  "PACKET_FRACTION = Fin False (1 / 2)" "PACKET_CEILING = Fin False (3 / 4)" "JITTER_MARGIN = Fin False 4"
  by (simp_all add: PACKET_FRACTION_def PACKET_CEILING_def JITTER_MARGIN_def lit_def round_simps)

lemma floor_not_nan: "\<not> is_nan RESOLUTION_FLOOR"
  by (simp add: RESOLUTION_FLOOR_def lit_def)

lemma positive_finite: "is_finite x \<Longrightarrow> flt zero x \<Longrightarrow> wf f x \<Longrightarrow> \<exists>q. x = Fin False q \<and> 0 < q"
  by (cases x) (auto simp: zero_def split: if_splits)

lemma fmin_upper: "\<not> is_nan y \<Longrightarrow> fle (fmin x y) y"
  by (cases "is_nan x") (auto simp: fmin_def not_flt flt_imp_fle)

lemma fmin_upper_left: "\<not> is_nan x \<Longrightarrow> fle (fmin x y) x"
  by (cases "is_nan y") (auto simp: fmin_def not_flt flt_imp_fle)

lemma fmax_lower: "\<not> is_nan y \<Longrightarrow> fle y (fmax x y)"
  by (cases "is_nan x") (auto simp: fmax_def not_flt flt_imp_fle)

lemma fmax_lower_left: "\<not> is_nan x \<Longrightarrow> fle x (fmax x y)"
  by (cases "is_nan y") (auto simp: fmax_def not_flt flt_imp_fle)

lemma fraction_le_ceiling:
  "fle (fmul B64 PACKET_FRACTION (Fin False q)) (fmul B64 PACKET_CEILING (Fin False q))" if "0 < q"
  using that rnd_mono [of "q / 2" "3 / 4 * q" B64] by (simp add: constants)

lemma tolerance_upper:
  assumes "shortest_duration (last_duration d) duration = Some (Fin False q)" "0 < q"
  shows "fle (tolerance_for d duration) (fmax (fmul B64 PACKET_CEILING (Fin False q)) RESOLUTION_FLOOR)"
proof -
  let ?c = "fmul B64 PACKET_CEILING (Fin False q)" and ?h = "fmul B64 PACKET_FRACTION (Fin False q)"
  let ?m = "fmax (fmin (fmul B64 JITTER_MARGIN (jitter d)) ?c) ?h"
  have nn: "\<not> is_nan ?c" "\<not> is_nan ?h" by (simp_all add: constants)
  have "fle ?m ?c"
    using fmin_upper [OF nn(1)] fraction_le_ceiling [OF assms(2)] by (rule fmax_least)
  then have "fle (fmax ?m RESOLUTION_FLOOR) (fmax ?c RESOLUTION_FLOOR)"
    using fmax_lower_left [OF nn(1)] fmax_lower [OF floor_not_nan] by (blast intro: fmax_least fle_trans)
  moreover have "fle (fmin (fmax ?m RESOLUTION_FLOOR) (dd_tolerance d)) (fmax ?m RESOLUTION_FLOOR)"
    by (rule fmin_upper_left) (simp add: floor_not_nan)
  ultimately show ?thesis using assms(1) by (simp add: tolerance_for_def) (blast intro: fle_trans)
qed

lemma tolerance_lower:
  assumes "shortest_duration (last_duration d) duration = Some (Fin False q)" "0 < q"
    and "fle x (fmul B64 PACKET_FRACTION (Fin False q))" "fle x (dd_tolerance d)"
  shows "fle x (tolerance_for d duration)"
proof -
  let ?c = "fmul B64 PACKET_CEILING (Fin False q)" and ?h = "fmul B64 PACKET_FRACTION (Fin False q)"
  let ?m = "fmax (fmin (fmul B64 JITTER_MARGIN (jitter d)) ?c) ?h"
  have nn: "\<not> is_nan ?h" by (simp add: constants)
  have "fle ?h ?m" using nn by (rule fmax_lower)
  moreover have "fle ?m (fmax ?m RESOLUTION_FLOOR)" by (rule fmax_lower_left) (simp add: nn)
  ultimately have "fle x (fmax ?m RESOLUTION_FLOOR)" using assms(3) by (blast intro: fle_trans)
  with assms(1,4) show ?thesis by (simp add: tolerance_for_def fmin_greatest)
qed

text \<open>
  C37: A lost packet always shows. Whatever jitter the detector has learned, a gap longer than
  three quarters of the shorter of the two packets around it and than the timestamps'
  resolution is reported as a drop of exactly that length and counted once.
\<close>

theorem lost_packet_is_reported:
  assumes "last_end_time d = Some prev_end"
    and "shortest_duration (last_duration d) (duration_of p) = Some (Fin False q)" "0 < q"
    and "flt (fmul B64 PACKET_CEILING (Fin False q)) (fsub B64 (start_time (metadata p)) prev_end)"
    and "flt RESOLUTION_FLOOR (fsub B64 (start_time (metadata p)) prev_end)"
  shows "fst (detector_observe p d) = Drop (fsub B64 (start_time (metadata p)) prev_end) \<and>
     drops (snd (detector_observe p d)) = drops d + 1"
proof -
  let ?gap = "fsub B64 (start_time (metadata p)) prev_end"
  have "flt (fmax (fmul B64 PACKET_CEILING (Fin False q)) RESOLUTION_FLOOR) ?gap"
    using assms(4,5) by (simp add: fmax_def)
  with tolerance_upper [OF assms(2,3)] have "flt (tolerance_for d (duration_of p)) ?gap"
    by (rule fle_flt_trans)
  with assms(1) show ?thesis by (simp add: detector_observe_def Let_def)
qed

text \<open>
  No false alarm. Packets whose timestamps meet within half of the shorter packet's
  duration, in either direction and within the configured cap, are never reported: the result
  is continuous and no counter moves.
\<close>

theorem contiguous_packets_pass:
  assumes "last_end_time d = Some prev_end"
    and "shortest_duration (last_duration d) (duration_of p) = Some (Fin False q)" "0 < q"
    and "fle (fabs (fsub B64 (start_time (metadata p)) prev_end)) (fmul B64 PACKET_FRACTION (Fin False q))"
    and "fle (fabs (fsub B64 (start_time (metadata p)) prev_end)) (dd_tolerance d)"
  shows "fst (detector_observe p d) = Continuous \<and>
     drops (snd (detector_observe p d)) = drops d \<and>
     backward_steps (snd (detector_observe p d)) = backward_steps d \<and>
     cumulative_gap (snd (detector_observe p d)) = cumulative_gap d"
proof -
  let ?gap = "fsub B64 (start_time (metadata p)) prev_end"
  let ?t = "tolerance_for d (duration_of p)"
  have t: "fle (fabs ?gap) ?t" using assms(2-5) by (rule tolerance_lower)
  have "\<not> is_nan ?gap" using fle_not_nan [OF t] by simp
  with fabs_bounds [OF wf_sum(2), of "B64" "start_time (metadata p)" prev_end] t have "fle ?gap ?t" "fle (fneg ?gap) ?t" by (blast intro: fle_trans)+
  then have "\<not> flt ?t ?gap" "\<not> flt ?t (fneg ?gap)"
    using fle_not_nan not_flt by blast+
  with assms(1) show ?thesis by (simp add: detector_observe_def Let_def)
qed

section \<open>The calibration stays within the cap\<close>

definition detector_ok :: "drop_detector \<Rightarrow> bool" where
  "detector_ok d =
     (wf B64 (dd_tolerance d) \<and> fle zero (dd_tolerance d) \<and>
      wf B64 (jitter d) \<and> fle zero (jitter d) \<and> fle (jitter d) (dd_tolerance d))"

lemma decay_le: "wf B64 j \<Longrightarrow> fle zero j \<Longrightarrow>
  wf B64 (fmul B64 j JITTER_DECAY) \<and> fle zero (fmul B64 j JITTER_DECAY) \<and> fle (fmul B64 j JITTER_DECAY) j"
proof -
  assume j: "wf B64 j" "fle zero j"
  obtain c where c: "JITTER_DECAY = Fin False c" "0 < c" "c < 1"
    by (rule that [of "8998192055486251 / 9007199254740992"]) (simp_all add: JITTER_DECAY_def lit_def round_simps)
  show ?thesis
  proof (cases j)
    case (Fin s q)
    have q: "0 \<le> q" "s \<longrightarrow> q = 0" using j Fin by (auto simp: zero_def split: if_splits)
    have le: "q * c \<le> q" "0 \<le> q * c" using q c by (simp_all add: mult_left_le)
    have m: "rnd_mag B64 (q * c) \<le> q" "rnd B64 s (q * c) = Fin s (rnd_mag B64 (q * c))"
      using rnd_le_finite [OF le(2,1)] j Fin by auto
    have z: "fmul B64 j JITTER_DECAY = Fin s (rnd_mag B64 (q * c))" using m(2) by (simp add: Fin c(1))
    have "wf B64 (fmul B64 j JITTER_DECAY)"
      using j(1) by (intro wf_fmul) (simp_all add: JITTER_DECAY_def lit_def)
    moreover have "0 \<le> rnd_mag B64 (q * c)" using le by (simp add: rnd_mag_nonneg)
    ultimately show ?thesis using m(1) q unfolding z by (auto simp: Fin zero_def)
  qed (use j c(2) in \<open>auto simp: zero_def c(1)\<close>)
qed

lemma observe_ok:
  assumes "detector_ok d"
  shows "detector_ok (snd (detector_observe p d))"
proof (cases "last_end_time d")
  case None
  with assms show ?thesis by (simp add: detector_observe_def detector_ok_def Let_def)
next
  case (Some prev_end)
  let ?gap = "fsub B64 (start_time (metadata p)) prev_end"
  let ?t = "tolerance_for d (duration_of p)"
  let ?j = "fmax (fmul B64 (jitter d) JITTER_DECAY) (fabs ?gap)"
  show ?thesis
  proof (cases "flt ?t ?gap \<or> flt ?t (fneg ?gap)")
    case True
    with assms Some show ?thesis by (auto simp: detector_observe_def detector_ok_def Let_def)
  next
    case False
    have dec: "wf B64 (fmul B64 (jitter d) JITTER_DECAY)" "fle zero (fmul B64 (jitter d) JITTER_DECAY)"
      "fle (fmul B64 (jitter d) JITTER_DECAY) (dd_tolerance d)"
      using assms decay_le [of "jitter d"] fle_trans unfolding detector_ok_def by blast+
    have "\<not> is_nan (dd_tolerance d)" using assms fle_not_nan by (auto simp: detector_ok_def)
    then have cap: "fle ?t (dd_tolerance d)"
      by (auto simp: tolerance_for_def fmin_upper split: option.split)
    have "wf B64 ?j \<and> fle zero ?j \<and> fle ?j (dd_tolerance d)"
    proof (cases "is_nan ?gap")
      case True
      then have "?j = fmul B64 (jitter d) JITTER_DECAY"
        using fle_not_nan [OF dec(2)] by (simp add: fmax_def)
      with dec show ?thesis by simp
    next
      case gap: False
      have "\<not> is_nan ?t" using fle_not_nan [OF cap] by simp
      with gap False have "fle ?gap ?t" "fle (fneg ?gap) ?t" by (simp_all add: not_flt)
      then have "fle (fabs ?gap) ?t" by (rule fle_fabs)
      with cap have "fle (fabs ?gap) (dd_tolerance d)" by (blast intro: fle_trans)
      with dec have "fle ?j (dd_tolerance d)" by (blast intro: fmax_least)
      moreover have "fle zero ?j"
        using dec(2) fmax_lower_left [of "fmul B64 (jitter d) JITTER_DECAY" "fabs ?gap"] fle_not_nan [OF dec(2)]
        by (blast intro: fle_trans)
      moreover have "wf B64 ?j"
        using dec(1) by (simp add: fmax_def)
      ultimately show ?thesis by simp
    qed
    with False Some assms show ?thesis by (simp add: detector_observe_def detector_ok_def Let_def)
  qed
qed

definition observe_all :: "stream_packet list \<Rightarrow> drop_detector \<Rightarrow> drop_detector" where
  "observe_all ps d = fold (\<lambda>p d. snd (detector_observe p d)) ps d"

lemma observe_counters:
  "drops (snd (detector_observe p d)) + backward_steps (snd (detector_observe p d))
     = drops d + backward_steps d + (if fst (detector_observe p d) = Continuous then 0 else 1)"
  "dd_tolerance (snd (detector_observe p d)) = dd_tolerance d"
  by (auto simp: detector_observe_def Let_def split: option.splits if_splits)

lemma observe_all_ok:
  "detector_ok d \<Longrightarrow> detector_ok (observe_all ps d) \<and> dd_tolerance (observe_all ps d) = dd_tolerance d \<and>
   drops d + backward_steps d \<le> drops (observe_all ps d) + backward_steps (observe_all ps d) \<and>
   drops (observe_all ps d) + backward_steps (observe_all ps d) \<le> drops d + backward_steps d + length ps"
proof (induction ps arbitrary: d)
  case Nil
  then show ?case by (simp add: observe_all_def)
next
  case (Cons p ps)
  have "observe_all (p # ps) d = observe_all ps (snd (detector_observe p d))"
    by (simp add: observe_all_def)
  with Cons.IH [OF observe_ok [OF Cons.prems, of p]] observe_counters [of p d] show ?case
    by (auto split: if_splits)
qed

text \<open>
  However noisy the timestamps, the learned jitter of a detector started with a tolerance
  is a number between zero and that tolerance after any sequence of packets, and each packet
  moves at most one of the two event counters, by one.
\<close>

theorem calibration_bounded:
  assumes "wf B64 tolerance" and "fle zero tolerance"
  shows "fle zero (jitter (observe_all ps (detector_new tolerance))) \<and>
     fle (jitter (observe_all ps (detector_new tolerance))) tolerance \<and>
     drops (observe_all ps (detector_new tolerance)) + backward_steps (observe_all ps (detector_new tolerance)) \<le> length ps"
proof -
  have "detector_ok (detector_new tolerance)"
    using assms by (simp add: detector_ok_def detector_new_def zero_def)
  from observe_all_ok [OF this, of ps] show ?thesis
    by (auto simp: detector_ok_def) (auto simp: detector_new_def)
qed

text \<open>
  A reconnect forgets the last packet and nothing else: the next packet is continuous
  whatever its timestamp says, and the totals and the calibration consumers read never go
  backwards.
\<close>

theorem resync_keeps_totals:
  "fst (detector_observe p (detector_resync d)) = Continuous \<and>
   drops (snd (detector_observe p (detector_resync d))) = drops d \<and>
   backward_steps (snd (detector_observe p (detector_resync d))) = backward_steps d \<and>
   cumulative_gap (snd (detector_observe p (detector_resync d))) = cumulative_gap d \<and>
   jitter (snd (detector_observe p (detector_resync d))) = jitter d"
  by (simp add: detector_observe_def detector_resync_def Let_def)

text \<open>Two packets of one second, the second one a second late: a concrete drop.\<close>

definition example_packet :: "nat \<Rightarrow> stream_packet" where
  "example_packet n = stream_packet_new
     (example_metadata\<lparr>start_time := Fin False (of_nat n), end_time := Fin False (of_nat n + 1)\<rparr>) []"

definition example_detector :: drop_detector where
  "example_detector = (detector_new (Fin False 1))\<lparr>last_end_time := Some (Fin False 1), last_duration := Some (Fin False 1)\<rparr>"

lemma example_duration:
  "duration_of (example_packet 1) = Some (Fin False 1)" "duration_of (example_packet 2) = Some (Fin False 1)"
  by (simp_all add: duration_of_def example_packet_def stream_packet_new_def zero_def fsub_def rnds_def round_simps)

theorem lost_packet_is_reported_witness:
  "fst (detector_observe (example_packet 2) example_detector) = Drop (Fin False 1) \<and>
   drops (snd (detector_observe (example_packet 2) example_detector)) = 1"
proof -
  have gap: "fsub B64 (start_time (metadata (example_packet 2))) (Fin False 1) = Fin False 1"
    by (simp add: example_packet_def stream_packet_new_def fsub_def rnds_def round_simps)
  have "fst (detector_observe (example_packet 2) example_detector)
        = Drop (fsub B64 (start_time (metadata (example_packet 2))) (Fin False 1)) \<and>
      drops (snd (detector_observe (example_packet 2) example_detector)) = drops example_detector + 1"
  proof (rule lost_packet_is_reported)
    show "last_end_time example_detector = Some (Fin False 1)" by (simp add: example_detector_def)
    show "shortest_duration (last_duration example_detector) (duration_of (example_packet 2)) = Some (Fin False 1)"
      by (simp add: example_duration shortest_duration_def example_detector_def fmin_def)
    show "flt (fmul B64 PACKET_CEILING (Fin False 1)) (fsub B64 (start_time (metadata (example_packet 2))) (Fin False 1))"
      unfolding gap by (simp add: constants round_simps)
    show "flt RESOLUTION_FLOOR (fsub B64 (start_time (metadata (example_packet 2))) (Fin False 1))"
      unfolding gap by (simp add: RESOLUTION_FLOOR_def lit_def round_simps)
  qed simp
  then show ?thesis unfolding gap by (simp add: example_detector_def detector_new_def)
qed

theorem contiguous_packets_pass_witness:
  "fst (detector_observe (example_packet 1) example_detector) = Continuous"
proof -
  have gap: "fabs (fsub B64 (start_time (metadata (example_packet 1))) (Fin False 1)) = Fin False 0"
    by (simp add: example_packet_def stream_packet_new_def fsub_def)
  have "fst (detector_observe (example_packet 1) example_detector) = Continuous \<and>
     drops (snd (detector_observe (example_packet 1) example_detector)) = drops example_detector \<and>
     backward_steps (snd (detector_observe (example_packet 1) example_detector)) = backward_steps example_detector \<and>
     cumulative_gap (snd (detector_observe (example_packet 1) example_detector)) = cumulative_gap example_detector"
  proof (rule contiguous_packets_pass)
    show "last_end_time example_detector = Some (Fin False 1)" by (simp add: example_detector_def)
    show "shortest_duration (last_duration example_detector) (duration_of (example_packet 1)) = Some (Fin False 1)"
      by (simp add: example_duration [simplified] shortest_duration_def example_detector_def fmin_def)
    show "fle (fabs (fsub B64 (start_time (metadata (example_packet 1))) (Fin False 1))) (fmul B64 PACKET_FRACTION (Fin False 1))"
      unfolding gap by (simp add: constants round_simps)
    show "fle (fabs (fsub B64 (start_time (metadata (example_packet 1))) (Fin False 1))) (dd_tolerance example_detector)"
      unfolding gap by (simp add: example_detector_def detector_new_def)
  qed simp
  then show ?thesis by blast
qed

theorem calibration_bounded_witness:
  "fle (jitter (observe_all [example_packet 1, example_packet 2] (detector_new (Fin False (1 / 2)))))
     (Fin False (1 / 2)) \<and>
   drops (observe_all [example_packet 1, example_packet 2] (detector_new (Fin False (1 / 2)))) \<le> 2"
proof -
  have "wf B64 (Fin False (1 / 2))" "fle zero (Fin False (1 / 2))"
    by (simp_all add: round_simps zero_def)
  from calibration_bounded [OF this, of "[example_packet 1, example_packet 2]"] show ?thesis by simp
qed

end
