(* ===== verification/Link_Budget.thy ===== *)
theory Link_Budget
  imports Ladder Framing Scan_Growth
begin

text \<open>
  \<open>src/src/link_budget.rs\<close>: the byte rate a sample rate needs, the widest rung a measured
  byte rate carries, the verdict on a measurement, the throughput meter, the header sniffer
  and the probe loop. Instants and durations are nanoseconds; the sockets, the server's
  answers and the clock are inputs.
\<close>

definition DEFAULT_LINK_FORMAT :: stream_format where "DEFAULT_LINK_FORMAT = CAPTURE_DEFAULT"
definition LINK_PROBE_SETTLE :: nat where "LINK_PROBE_SETTLE = 500 * 10 ^ 6"
definition MIN_PROBE_WINDOW :: nat where "MIN_PROBE_WINDOW = 100 * 10 ^ 6"
definition PROBE_HEADER_SCAN_BYTES :: nat where "PROBE_HEADER_SCAN_BYTES = 2 ^ 20"

section \<open>Byte rates and rungs\<close>

definition required_byte_rate_for_format :: "f64 \<Rightarrow> stream_format \<Rightarrow> f64 option" where
  "required_byte_rate_for_format rate format =
     (if \<not> is_finite rate \<or> fle rate zero then None
      else map_option (\<lambda>n. fmul B64 rate (of_nat_fl B64 n)) (iq_bytes_per_sample format))"

definition required_byte_rate :: "f64 \<Rightarrow> f64 option" where
  "required_byte_rate rate = required_byte_rate_for_format rate DEFAULT_LINK_FORMAT"

definition rung_fits :: "f64 \<Rightarrow> stream_format \<Rightarrow> f64 \<Rightarrow> bool" where
  "rung_fits rate format measured =
     (case required_byte_rate_for_format rate format of
        Some needed \<Rightarrow> fle needed measured
      | None \<Rightarrow> False)"

text \<open>\<open>Iterator::reduce\<close>.\<close>

fun reduce :: "('a \<Rightarrow> 'a \<Rightarrow> 'a) \<Rightarrow> 'a list \<Rightarrow> 'a option" where
  "reduce f [] = None"
| "reduce f (x # xs) = Some (foldl f x xs)"

definition max_sustainable_sample_rate_for_format :: "f64 \<Rightarrow> stream_format \<Rightarrow> f64 option" where
  "max_sustainable_sample_rate_for_format measured format =
     (if \<not> is_finite measured \<or> fle measured zero then None
      else reduce fmax (filter (\<lambda>rate. rung_fits rate format measured) iq_sample_rates))"

definition device_ladder :: "f64 \<Rightarrow> f64 list" where
  "device_ladder rate = iq_ladder_from_top rate"

definition max_sustainable_sample_rate_below :: "f64 \<Rightarrow> f64 \<Rightarrow> stream_format \<Rightarrow> f64 option" where
  "max_sustainable_sample_rate_below device_rate measured format =
     (if \<not> is_finite device_rate \<or> fle device_rate zero \<or> \<not> is_finite measured \<or> fle measured zero then None
      else reduce fmax (filter (\<lambda>rate. rung_fits rate format measured) (device_ladder device_rate)))"

definition max_sustainable_bandwidth_for_format :: "f64 \<Rightarrow> stream_format \<Rightarrow> f64 option" where
  "max_sustainable_bandwidth_for_format measured format =
     map_option usable_bandwidth_hz (max_sustainable_sample_rate_for_format measured format)"

definition max_sustainable_bandwidth :: "f64 \<Rightarrow> f64 option" where
  "max_sustainable_bandwidth measured = max_sustainable_bandwidth_for_format measured DEFAULT_LINK_FORMAT"

section \<open>Measurements and verdicts\<close>

record throughput_measurement =
  byte_rate :: f64
  tm_bytes :: nat
  tm_window :: nat
  tm_settle :: nat
  settle_bytes :: nat
  stream_sample_rate_hz :: "f64 option"

definition megabytes_per_second :: "throughput_measurement \<Rightarrow> f64" where
  "megabytes_per_second m = fdiv B64 (byte_rate m) (flit 1000000)"

definition tm_max_sustainable_bandwidth :: "throughput_measurement \<Rightarrow> stream_format \<Rightarrow> f64 option" where
  "tm_max_sustainable_bandwidth m format = max_sustainable_bandwidth_for_format (byte_rate m) format"

record link_budget_verdict =
  v_sample_rate_hz :: f64
  v_format :: stream_format
  v_bytes_per_sample :: nat
  v_required_byte_rate :: f64
  v_measured :: throughput_measurement
  v_short :: bool
  fit_sample_rate_hz :: "f64 option"
  fit_bandwidth_hz :: "f64 option"

definition judge ::
  "f64 \<Rightarrow> stream_format \<Rightarrow> throughput_measurement \<Rightarrow> f64 \<Rightarrow> link_budget_verdict option" where
  "judge rate format m tolerance =
     Option.bind (iq_bytes_per_sample format) (\<lambda>bps.
     Option.bind (required_byte_rate_for_format rate format) (\<lambda>required.
       let short = flt (byte_rate m) (fmul B64 required tolerance);
           fit = (if short then max_sustainable_sample_rate_below rate (byte_rate m) format else None)
       in Some \<lparr>v_sample_rate_hz = rate, v_format = format, v_bytes_per_sample = bps,
                v_required_byte_rate = required, v_measured = m, v_short = short,
                fit_sample_rate_hz = fit, fit_bandwidth_hz = map_option usable_bandwidth_hz fit\<rparr>))"

section \<open>The throughput meter\<close>

record throughput_meter =
  mt_settle :: nat
  mt_window :: nat
  opened :: nat
  mark :: "nat option"
  mt_last :: "nat option"
  discarded_bytes :: nat
  counted_bytes :: nat
  closed :: bool
  mt_consumer_limited :: bool

definition starting_at :: "nat \<Rightarrow> nat \<Rightarrow> nat \<Rightarrow> throughput_meter" where
  "starting_at open_at settle window =
     \<lparr>mt_settle = settle, mt_window = window, opened = open_at, mark = None, mt_last = None,
      discarded_bytes = 0, counted_bytes = 0, closed = False, mt_consumer_limited = False\<rparr>"

definition note_consumer_limited :: "nat \<Rightarrow> throughput_meter \<Rightarrow> throughput_meter" where
  "note_consumer_limited now m =
     (if \<not> closed m \<and> (case mark m of Some k \<Rightarrow> k \<le> now | None \<Rightarrow> False)
      then m\<lparr>mt_consumer_limited := True\<rparr> else m)"

definition meter_observe :: "nat \<Rightarrow> nat \<Rightarrow> throughput_meter \<Rightarrow> bool \<times> throughput_meter" where
  "meter_observe now n m =
     (if closed m then (True, m)
      else if now - opened m < mt_settle m
      then (False, m\<lparr>discarded_bytes := sat_add (discarded_bytes m) n\<rparr>)
      else let m' = (case mark m of
                 None \<Rightarrow> m\<lparr>mark := Some now, discarded_bytes := sat_add (discarded_bytes m) n\<rparr>
               | Some k \<Rightarrow>
                   if mt_window m \<le> now - k then m\<lparr>closed := True\<rparr>
                   else m\<lparr>counted_bytes := sat_add (counted_bytes m) n, mt_last := Some now\<rparr>)
           in (closed m', m'))"

definition is_complete :: "throughput_meter \<Rightarrow> bool" where
  "is_complete m = closed m"

definition as_secs_f64 :: "nat \<Rightarrow> f64" where
  "as_secs_f64 ns =
     fadd B64 (of_nat_fl B64 (ns div 10 ^ 9)) (fdiv B64 (of_nat_fl B64 (ns mod 10 ^ 9)) (flit (10 ^ 9)))"

definition meter_finish :: "throughput_meter \<Rightarrow> throughput_measurement option" where
  "meter_finish m =
     (if \<not> closed m \<or> counted_bytes m = 0 then None
      else Option.bind (mark m) (\<lambda>k. Option.bind (mt_last m) (\<lambda>l.
        let window = l - k
        in if window = 0 \<or> window < mt_window m div 2 then None
           else Some \<lparr>byte_rate = fdiv B64 (of_nat_fl B64 (counted_bytes m)) (as_secs_f64 window),
                      tm_bytes = counted_bytes m, tm_window = window, tm_settle = k - opened m,
                      settle_bytes = discarded_bytes m, stream_sample_rate_hz = None\<rparr>)))"

section \<open>The header sniffer\<close>

record rate_sniffer =
  sn_buf :: bytes
  sn_fed :: nat

definition sniffer_new :: rate_sniffer where
  "sniffer_new = \<lparr>sn_buf = [], sn_fed = 0\<rparr>"

function sniff_loop ::
  "(bytes \<Rightarrow> packet_metadata option) \<Rightarrow> bytes \<Rightarrow> f64 option \<times> bytes" where
  "sniff_loop mo buf =
     (case scan_packet_header mo buf of
        Header m lo hi payload_start rej \<Rightarrow>
          let rest = drop payload_start buf
          in if payload m \<noteq> Iq then sniff_loop mo rest
             else let rate = meta_sample_rate_hz m
                  in if flt zero rate then (Some rate, rest) else sniff_loop mo rest
      | Incomplete skippable rej \<Rightarrow> (None, drop skippable buf))"
  by pat_completeness auto
termination
proof (relation "measure (\<lambda>(mo, buf). length buf)", goal_cases)
  case (2 mo buf m lo hi ps rej rest)
  from scan_header_bounds [OF 2(1)] 2 show ?case by simp
next
  case (3 mo buf m lo hi ps rej rest rate)
  from scan_header_bounds [OF 3(1)] 3 show ?case by simp
qed simp

declare sniff_loop.simps [simp del]

definition sniffer_feed ::
  "(bytes \<Rightarrow> packet_metadata option) \<Rightarrow> bytes \<Rightarrow> rate_sniffer \<Rightarrow> f64 option \<times> rate_sniffer" where
  "sniffer_feed mo chunk s =
     (let (found, buf) = sniff_loop mo (sn_buf s @ chunk)
      in (found, \<lparr>sn_buf = buf, sn_fed = sn_fed s + length chunk\<rparr>))"

definition budget_spent :: "rate_sniffer \<Rightarrow> bool" where
  "budget_spent s = (PROBE_HEADER_SCAN_BYTES < sn_fed s)"

section \<open>The probe\<close>

text \<open>What the connection does next, as the probe sees it, with the clock at that moment.\<close>

datatype probe_event = Stalled | Broken string | ServerClosed | Chunk nat bytes

text \<open>
  The reading loop: \<open>None\<close> while the listed events do not end the probe. The last component
  is whether the server closed the stream.
\<close>

fun probe_loop ::
  "(bytes \<Rightarrow> packet_metadata option) \<Rightarrow> probe_event list \<Rightarrow> throughput_meter \<Rightarrow> rate_sniffer option \<Rightarrow>
   f64 option \<Rightarrow> ((throughput_meter \<times> f64 option \<times> bool) result) option" where
  "probe_loop mo [] m s rate = None"
| "probe_loop mo (Stalled # es) m s rate = Some (Err (Protocol ''No data from ''))"
| "probe_loop mo (Broken e # es) m s rate = Some (Err (Transport e))"
| "probe_loop mo (ServerClosed # es) m s rate = Some (Ok (m, rate, True))"
| "probe_loop mo (Chunk now chunk # es) m s rate =
     (let (rate', s') =
            (case s of
               None \<Rightarrow> (rate, None)
             | Some sn \<Rightarrow>
                 let (found, sn') = sniffer_feed mo chunk sn
                 in if found \<noteq> None then (found, None)
                    else if budget_spent sn' then (rate, None) else (rate, Some sn'));
          (complete, m') = meter_observe now (length chunk) m
      in if complete then Some (Ok (m', rate', False)) else probe_loop mo es m' s' rate')"

text \<open>
  The whole probe. The results of the checks the other modules make (URL, client, parameters,
  connection and status) are the arguments \<open>url_ok\<close> to \<open>response_ok\<close>, in their order.
\<close>

definition measure_link_throughput_with ::
  "(bytes \<Rightarrow> packet_metadata option) \<Rightarrow> nat \<Rightarrow> unit result \<Rightarrow> unit result \<Rightarrow> unit result \<Rightarrow> unit result \<Rightarrow>
   nat \<Rightarrow> nat \<Rightarrow> probe_event list \<Rightarrow> (throughput_measurement result) option" where
  "measure_link_throughput_with mo duration url_ok client_ok params_ok response_ok settle open_at events =
     (if duration < MIN_PROBE_WINDOW then Some (Err (Config ''Link probe window ''))
      else case bind_result url_ok (\<lambda>u. bind_result client_ok (\<lambda>u. bind_result params_ok (\<lambda>u. response_ok))) of
        Inl e \<Rightarrow> Some (Err e)
      | Inr u \<Rightarrow>
          map_option (\<lambda>r. bind_result r (\<lambda>(m, rate, ended).
            case meter_finish m of
              Some t \<Rightarrow> Ok (t\<lparr>stream_sample_rate_hz := rate\<rparr>)
            | None \<Rightarrow> Err (Protocol ''Link throughput probe of '')))
            (probe_loop mo events (starting_at open_at settle duration) (Some sniffer_new) None))"

definition measure_link_throughput ::
  "(bytes \<Rightarrow> packet_metadata option) \<Rightarrow> nat \<Rightarrow> unit result \<Rightarrow> unit result \<Rightarrow> unit result \<Rightarrow> unit result \<Rightarrow>
   nat \<Rightarrow> probe_event list \<Rightarrow> (throughput_measurement result) option" where
  "measure_link_throughput mo duration url_ok client_ok params_ok response_ok open_at events =
     measure_link_throughput_with mo duration url_ok client_ok params_ok response_ok LINK_PROBE_SETTLE open_at events"

section \<open>The fastest rung that fits\<close>

lemma fmax_cases: "fmax x y = x \<or> fmax x y = y"
  by (simp add: fmax_def)

lemma foldl_fmax:
  assumes "\<And>x. x \<in> set (a # xs) \<Longrightarrow> \<not> is_nan x"
  shows "foldl fmax a xs \<in> set (a # xs) \<and> (\<forall>x \<in> set (a # xs). fle x (foldl fmax a xs))"
  using assms
proof (induction xs arbitrary: a)
  case Nil
  then show ?case by simp
next
  case (Cons b xs)
  have n: "\<not> is_nan a" "\<not> is_nan b" using Cons.prems by simp_all
  have ih: "foldl fmax (fmax a b) xs \<in> set (fmax a b # xs) \<and>
      (\<forall>x \<in> set (fmax a b # xs). fle x (foldl fmax (fmax a b) xs))"
    using Cons.prems n by (intro Cons.IH) auto
  have "fle x (foldl fmax (fmax a b) xs)" if "x \<in> {a, b}" for x
    using that fmax_fle [OF n] ih by (auto intro: fle_trans)
  with ih fmax_cases [of a b] show ?case by auto
qed

lemma reduce_fmax_Some:
  assumes "reduce fmax xs = Some r" "list_all (\<lambda>x. \<not> is_nan x) xs"
  shows "r \<in> set xs" "list_all (\<lambda>x. fle x r) xs"
proof -
  obtain a ys where xs: "xs = a # ys" "r = foldl fmax a ys" using assms(1) by (cases xs) auto
  with foldl_fmax [of a ys] assms(2) show "r \<in> set xs" "list_all (\<lambda>x. fle x r) xs"
    by (auto simp: list_all_iff)
qed

lemma reduce_None [simp]: "reduce f xs = None \<longleftrightarrow> xs = []"
  by (cases xs) auto

text \<open>A rung that fits has a byte rate, so it is a finite positive number.\<close>

lemma rung_fits_not_nan: "rung_fits r format measured \<Longrightarrow> \<not> is_nan r"
  by (cases r) (auto simp: rung_fits_def required_byte_rate_for_format_def split: if_splits)

lemma fastest_fitting:
  assumes "reduce fmax (filter (\<lambda>r. rung_fits r format measured) rungs) = fit"
  shows "case fit of
      Some r \<Rightarrow> r \<in> set rungs \<and> rung_fits r format measured \<and>
        list_all (\<lambda>x. fle x r) (filter (\<lambda>x. rung_fits x format measured) rungs)
    | None \<Rightarrow> filter (\<lambda>x. rung_fits x format measured) rungs = []"
proof (cases fit)
  case None
  with assms show ?thesis by simp
next
  case (Some r)
  have "list_all (\<lambda>x. \<not> is_nan x) (filter (\<lambda>r. rung_fits r format measured) rungs)"
    by (auto simp: list_all_iff rung_fits_not_nan)
  from reduce_fmax_Some [OF assms [unfolded Some] this] Some show ?thesis
    by (simp add: list_all_iff)
qed

lemma needed_rate_of_rung:
  "map (\<lambda>r. fdiv B64 (usable_bandwidth_hz r) USABLE_BANDWIDTH_RATIO) iq_sample_rates = iq_sample_rates"
  by (simp add: iq_sample_rates_eq usable_bandwidth_hz_def USABLE_BANDWIDTH_RATIO_def lit_def round_simps)

lemma bandwidth_of_rung:
  assumes "r \<in> set iq_sample_rates"
  shows "iq_sample_rate_for_bandwidth (usable_bandwidth_hz r) = r"
proof -
  have "fdiv B64 (usable_bandwidth_hz r) USABLE_BANDWIDTH_RATIO = r"
    using assms needed_rate_of_rung by (metis in_set_conv_nth length_map nth_map)
  with assms show ?thesis by (auto simp: iq_sample_rate_for_bandwidth_def iq_sample_rates_eq)
qed

lemma max_rate_spec:
  "case max_sustainable_sample_rate_for_format measured format of
      Some r \<Rightarrow> r \<in> set iq_sample_rates \<and> rung_fits r format measured \<and>
        list_all (\<lambda>x. fle x r) (filter (\<lambda>x. rung_fits x format measured) iq_sample_rates)
    | None \<Rightarrow> (if is_finite measured \<and> \<not> fle measured zero
        then filter (\<lambda>x. rung_fits x format measured) iq_sample_rates = [] else True)"
  using fastest_fitting [OF refl, of format measured iq_sample_rates]
  by (auto simp: max_sustainable_sample_rate_for_format_def)

text \<open>
  The bandwidth advised for a measured byte rate is one the crate's own planning turns back
  into a rung that fits the measured rate, and no faster rung fits. None is advised only for
  a measurement that is not a positive number or when no rung fits.
\<close>

theorem advised_bandwidth_fits:
  "case max_sustainable_bandwidth_for_format measured format of
      Some b \<Rightarrow> rung_fits (iq_sample_rate_for_bandwidth b) format measured \<and>
        list_all (\<lambda>x. fle x (iq_sample_rate_for_bandwidth b))
          (filter (\<lambda>x. rung_fits x format measured) iq_sample_rates)
    | None \<Rightarrow> (if is_finite measured \<and> \<not> fle measured zero
        then filter (\<lambda>x. rung_fits x format measured) iq_sample_rates = [] else True)"
  using max_rate_spec [of measured format]
  by (auto simp: max_sustainable_bandwidth_for_format_def bandwidth_of_rung split: option.splits)

section \<open>The remedy of a verdict\<close>

lemma ladder_below_top:
  assumes "wf B64 (Fin False q)" "x \<in> set (device_ladder (Fin False q))"
  shows "\<exists>p. x = Fin False p \<and> p \<le> q"
proof -
  obtain n where n: "n < 10" "x = fdiv B64 (Fin False q) (of_nat_fl B64 (2 ^ n))"
    using assms(2) by (auto simp: device_ladder_def iq_ladder_from_top_def)
  have "n \<in> {0, 1, 2, 3, 4, 5, 6, 7, 8, 9}" using n(1) by auto
  then have "of_nat_fl B64 (2 ^ n) = Fin False (2 ^ n)"
    by (auto simp: of_nat_fl_def round_simps)
  with n have x: "x = rnd B64 False (q / 2 ^ n)" by simp
  have "0 \<le> q" using assms(1) by simp
  then have "0 \<le> q / 2 ^ n" "q / 2 ^ n \<le> q"
    by (simp_all add: divide_le_eq mult_le_cancel_left1)
  from rnd_le_finite [OF this assms(1)] x show ?thesis by simp
qed

lemma fmul_at_most:
  assumes "wf f x" "wf f t" "fle zero x" "fle t (Fin False 1)" "\<not> is_nan (fmul f x t)"
  shows "fle (fmul f x t) x"
proof (cases x)
  case (NaN s n)
  with assms(3) show ?thesis by (simp add: zero_def)
next
  case (Inf s)
  with assms show ?thesis by (cases t) (auto simp: zero_def cnan_def)
next
  case x: (Fin s a)
  show ?thesis
  proof (cases t)
    case t: (Fin u b)
    show ?thesis
    proof (cases "s \<noteq> u \<or> a = 0")
      case True
      have "fle (rnd f (s \<noteq> u) (a * b)) zero"
        using True x t assms(1-3)
        by (auto simp: rnd_def Let_def zero_def rnd_mag_nonneg)
      with assms(3) x t show ?thesis by (auto intro: fle_trans)
    next
      case False
      have n: "0 \<le> a" "0 \<le> b" using assms(1,2) x t by simp_all
      have "\<not> s" using False assms(3) x n by (auto simp: zero_def)
      with False assms(4) t n have "b \<le> 1" by simp
      with n have "0 \<le> a * b" "a * b \<le> a" by (simp_all add: mult_left_le)
      from rnd_mono [OF this, of f] have "fle (rnd f False (a * b)) (rnd f False a)" .
      with x t False \<open>\<not> s\<close> assms(1) show ?thesis by (simp add: rnd_exact)
    qed
  next
    case t: (Inf u)
    have "a = 0 \<or> \<not> s"
      using assms(1,3) x by (cases s) (auto simp: zero_def)
    with assms(4,5) x t show ?thesis by (cases u) (auto simp: cnan_def)
  qed (use assms x in \<open>auto simp: cnan_def\<close>)
qed

lemma required_positive:
  assumes "required_byte_rate_for_format rate format = Some needed" "wf B64 rate"
  shows "\<exists>q. rate = Fin False q \<and> 0 < q" "wf B64 needed" "fle zero needed"
proof -
  obtain n where n: "needed = fmul B64 rate (of_nat_fl B64 n)" "is_finite rate" "\<not> fle rate zero"
    "iq_bytes_per_sample format = Some n"
    using assms(1) by (auto simp: required_byte_rate_for_format_def split: if_splits)
  then obtain s q where r: "rate = Fin s q" by (cases rate) auto
  with assms(2) have "0 \<le> q" by simp
  with r n(3) have sq: "\<not> s" "0 < q" by (cases s; simp add: zero_def)+
  with r show "\<exists>q. rate = Fin False q \<and> 0 < q" by auto
  show "wf B64 needed" using n(1) assms(2) by simp
  have "of_nat_fl B64 n = Fin False (of_nat n)" "n = 4 \<or> n = 8"
    using n(4) by (cases format; auto simp: of_nat_fl_def round_simps)+
  with n(1) r sq show "fle zero needed"
    by (auto simp: rnd_def Let_def zero_def rnd_mag_nonneg)
qed

text \<open>
  C36: A verdict that offers a remedy judged the link short; the remedy is a rung of the device's
  own ladder, strictly slower than the judged rate, whose byte rate the link was measured to
  carry, and every fitting rung of that ladder is at most as fast. The tolerance is one or less.
\<close>

theorem remedy_is_slower_and_fits:
  assumes "judge rate format m tolerance = Some v" "fit_sample_rate_hz v = Some r"
    and "wf B64 rate" "wf B64 tolerance" "fle tolerance (Fin False 1)"
  shows "v_short v \<and> r \<in> set (device_ladder rate) \<and> rung_fits r format (byte_rate m) \<and> flt r rate \<and>
    list_all (\<lambda>x. fle x r) (filter (\<lambda>x. rung_fits x format (byte_rate m)) (device_ladder rate))"
proof -
  obtain needed where needed: "required_byte_rate_for_format rate format = Some needed"
    and short: "v_short v" "flt (byte_rate m) (fmul B64 needed tolerance)"
    and fit: "max_sustainable_sample_rate_below rate (byte_rate m) format = Some r"
    using assms(1,2) by (auto simp: judge_def Let_def bind_eq_Some_conv split: if_splits)
  note p = required_positive [OF needed assms(3)]
  have red: "reduce fmax (filter (\<lambda>x. rung_fits x format (byte_rate m)) (device_ladder rate)) = Some r"
    using fit by (simp add: max_sustainable_sample_rate_below_def split: if_splits)
  note r = fastest_fitting [OF red, simplified]
  obtain q where rate: "rate = Fin False q" using p(1) by blast
  with ladder_below_top [of q r] r assms(3) obtain p where q: "r = Fin False p" "p \<le> q" by blast
  have "r \<noteq> rate"
  proof
    assume "r = rate"
    with r needed have "fle needed (byte_rate m)" by (simp add: rung_fits_def)
    moreover have "fle (fmul B64 needed tolerance) needed"
      using p assms(4,5) flt_not_nan [OF short(2)] by (intro fmul_at_most) auto
    ultimately have "fle (fmul B64 needed tolerance) (byte_rate m)" by (rule fle_trans [rotated])
    with short(2) have "flt (byte_rate m) (byte_rate m)" by (rule flt_fle_trans)
    then show False by simp
  qed
  with q rate have "flt r rate" by simp
  with r short(1) show ?thesis by simp
qed

theorem remedy_is_slower_and_fits_witness:
  "v_short (the (judge (flit 61440000) Int16 \<lparr>byte_rate = flit 40000000, tm_bytes = 1, tm_window = 1,
       tm_settle = 0, settle_bytes = 0, stream_sample_rate_hz = None\<rparr> (flit (9 / 10)))) \<and>
   flt (flit 7680000) (flit 61440000)"
proof -
  let ?m = "\<lparr>byte_rate = flit 40000000, tm_bytes = 1, tm_window = 1, tm_settle = 0, settle_bytes = 0,
    stream_sample_rate_hz = None\<rparr>"
  have "\<exists>v. judge (flit 61440000) Int16 ?m (flit (9 / 10)) = Some v \<and> fit_sample_rate_hz v = Some (flit 7680000)"
    by (simp add: judge_def required_byte_rate_for_format_def zero_def max_sustainable_sample_rate_below_def
        device_ladder_def iq_ladder_from_top_def rung_fits_def upt_rec fmax_def lit_def of_nat_fl_def round_simps)
  then obtain v where v: "judge (flit 61440000) Int16 ?m (flit (9 / 10)) = Some v"
    "fit_sample_rate_hz v = Some (flit 7680000)" by blast
  have "wf B64 (flit 61440000)" "wf B64 (flit (9 / 10))" "fle (flit (9 / 10)) (Fin False 1)"
    by (simp_all add: lit_def) (simp add: round_simps)
  from remedy_is_slower_and_fits [OF v this] v(1) show ?thesis by simp
qed

section \<open>What the meter counts\<close>

definition meter_run :: "(nat \<times> nat) list \<Rightarrow> throughput_meter \<Rightarrow> throughput_meter" where
  "meter_run obs m = fold (\<lambda>(now, n) m. snd (meter_observe now n m)) obs m"

text \<open>
  The measurement as one reads it off the observations: those of the settle period and the
  first one past it are lost, the window holds the following ones, and one past the window has
  to arrive.
\<close>

definition counted_window ::
  "nat \<Rightarrow> nat \<Rightarrow> nat \<Rightarrow> (nat \<times> nat) list \<Rightarrow> (nat \<times> nat \<times> (nat \<times> nat) list) option" where
  "counted_window open_at settle window obs =
     (let early = takeWhile (\<lambda>(now, n). now - open_at < settle) obs
      in case dropWhile (\<lambda>(now, n). now - open_at < settle) obs of
           [] \<Rightarrow> None
         | (start, n) # later \<Rightarrow>
             let counted = takeWhile (\<lambda>(now, n). now - start < window) later
             in if counted = later then None
                else Some (sum_list (map snd early) + n, start, counted))"

lemma meter_run_simps [simp]:
  "meter_run [] m = m"
  "meter_run ((now, n) # obs) m = meter_run obs (snd (meter_observe now n m))"
  by (simp_all add: meter_run_def)

lemma meter_run_append: "meter_run (xs @ ys) m = meter_run ys (meter_run xs m)"
  by (simp add: meter_run_def)

lemma meter_run_closed: "closed m \<Longrightarrow> meter_run obs m = m"
  by (induction obs) (auto simp: meter_observe_def)

lemma meter_run_early:
  assumes "list_all (\<lambda>(now, n). now - opened m < mt_settle m) obs" "\<not> closed m"
    and "discarded_bytes m + sum_list (map snd obs) \<le> USIZE_MAX"
  shows "meter_run obs m = m\<lparr>discarded_bytes := discarded_bytes m + sum_list (map snd obs)\<rparr>"
  using assms
proof (induction obs arbitrary: m)
  case Nil
  then show ?case by simp
next
  case (Cons x obs)
  obtain now n where x: "x = (now, n)" by (rule prod.exhaust)
  with Cons.prems have "snd (meter_observe now n m) = m\<lparr>discarded_bytes := discarded_bytes m + n\<rparr>"
    by (simp add: meter_observe_def sat_add_eq)
  with Cons.prems x Cons.IH [of "m\<lparr>discarded_bytes := discarded_bytes m + n\<rparr>"] show ?case
    by (simp add: add.assoc)
qed

lemma meter_run_window:
  assumes "list_all (\<lambda>(now, n). now - start < mt_window m \<and> mt_settle m \<le> now - opened m) obs"
    and "\<not> closed m" "mark m = Some start" "counted_bytes m + sum_list (map snd obs) \<le> USIZE_MAX"
  shows "meter_run obs m = m\<lparr>counted_bytes := counted_bytes m + sum_list (map snd obs),
     mt_last := (if obs = [] then mt_last m else Some (fst (last obs)))\<rparr>"
  using assms
proof (induction obs arbitrary: m)
  case Nil
  then show ?case by simp
next
  case (Cons x obs)
  obtain now n where x: "x = (now, n)" by (rule prod.exhaust)
  let ?m = "m\<lparr>counted_bytes := counted_bytes m + n, mt_last := Some now\<rparr>"
  from Cons.prems x have "snd (meter_observe now n m) = ?m"
    by (simp add: meter_observe_def sat_add_eq)
  with Cons.prems x Cons.IH [of ?m] show ?case by (simp add: add.assoc)
qed

lemma meter_run_from_mark:
  assumes "\<not> start - opened m < mt_settle m" "list_all (\<lambda>(now, k). mt_settle m \<le> now - opened m) later"
    and "\<not> closed m" "mark m = None" "mt_last m = None" "counted_bytes m = 0"
    and "discarded_bytes m + n + sum_list (map snd later) \<le> USIZE_MAX"
    and counted: "counted = takeWhile (\<lambda>(now, n). now - start < mt_window m) later"
  shows "meter_run ((start, n) # later) m = m\<lparr>mark := Some start, discarded_bytes := discarded_bytes m + n,
     counted_bytes := sum_list (map snd counted),
     mt_last := (if counted = [] then None else Some (fst (last counted))), closed := counted \<noteq> later\<rparr>"
proof -
  define late where "late = dropWhile (\<lambda>(now, n). now - start < mt_window m) later"
  have later: "later = counted @ late" by (simp add: assms late_def)
  let ?m2 = "m\<lparr>mark := Some start, discarded_bytes := discarded_bytes m + n\<rparr>"
  let ?m3 = "?m2\<lparr>counted_bytes := sum_list (map snd counted),
      mt_last := (if counted = [] then None else Some (fst (last counted)))\<rparr>"
  have m2: "snd (meter_observe start n m) = ?m2"
    using assms(1,3,4,7) by (simp add: meter_observe_def sat_add_eq)
  have "list_all (\<lambda>(now, k). now - start < mt_window m \<and> mt_settle m \<le> now - opened m) counted"
    using assms(2) by (auto simp: counted list_all_iff dest: set_takeWhileD)
  then have m3: "meter_run counted ?m2 = ?m3"
    using assms(3,5,6,7) later by (subst meter_run_window) auto
  have run: "meter_run ((start, n) # later) m = meter_run late ?m3"
    by (simp add: later meter_run_append m2 m3)
  show ?thesis
  proof (cases late)
    case Nil
    then show ?thesis using run later assms(3) by simp
  next
    case late: (Cons y ys)
    obtain stop k where y: "y = (stop, k)" by (rule prod.exhaust)
    have "\<not> stop - start < mt_window m"
      using late y hd_dropWhile [of "\<lambda>(now, n). now - start < mt_window m" later] by (simp add: late_def)
    then have "snd (meter_observe stop k ?m3) = ?m3\<lparr>closed := True\<rparr>"
      using assms(2,3) later late y by (simp add: meter_observe_def)
    with run late y later show ?thesis by (simp add: meter_run_closed)
  qed
qed

text \<open>
  C35: On observations whose instants do not run backwards, the meter reports exactly the
  measurement one reads off them: the bytes between the mark and the window's end over the
  time they took, the bytes lost to the settle period, and no figure at all before the window
  closes, without bytes, or when less than half the window was observed.
\<close>

theorem meter_counts_its_window:
  assumes "sorted (map fst obs)" "sum_list (map snd obs) \<le> USIZE_MAX"
  shows "meter_finish (meter_run obs (starting_at open_at settle window)) =
     (case counted_window open_at settle window obs of
        None \<Rightarrow> None
      | Some (lost, start, counted) \<Rightarrow>
          let total = sum_list (map snd counted); time = fst (last counted) - start
          in if total = 0 \<or> time = 0 \<or> time < window div 2 then None
             else Some \<lparr>byte_rate = fdiv B64 (of_nat_fl B64 total) (as_secs_f64 time), tm_bytes = total,
               tm_window = time, tm_settle = start - open_at, settle_bytes = lost,
               stream_sample_rate_hz = None\<rparr>)"
proof -
  let ?m0 = "starting_at open_at settle window"
  let ?early = "\<lambda>(now, n :: nat). now - open_at < settle"
  define early where "early = takeWhile ?early obs"
  define rest where "rest = dropWhile ?early obs"
  have obs: "obs = early @ rest" by (simp add: early_def rest_def)
  have fields: "opened ?m0 = open_at" "mt_settle ?m0 = settle" "\<not> closed ?m0" "discarded_bytes ?m0 = 0"
    "mt_window ?m0 = window" "mark ?m0 = None" "counted_bytes ?m0 = 0" "mt_last ?m0 = None"
    by (simp_all add: starting_at_def)
  define m1 where "m1 = ?m0\<lparr>discarded_bytes := sum_list (map snd early)\<rparr>"
  have "list_all ?early early" by (auto simp: early_def list_all_iff dest: set_takeWhileD)
  with assms(2) obs have m1: "meter_run early ?m0 = m1"
    by (subst meter_run_early) (auto simp: fields m1_def)
  have w: "counted_window open_at settle window obs = (case rest of
      [] \<Rightarrow> None
    | (start, n) # later \<Rightarrow>
        let counted = takeWhile (\<lambda>(now, n). now - start < window) later
        in if counted = later then None else Some (sum_list (map snd early) + n, start, counted))"
    unfolding counted_window_def early_def rest_def by simp
  show ?thesis
  proof (cases rest)
    case Nil
    with obs m1 w show ?thesis by (simp add: meter_finish_def m1_def fields)
  next
    case (Cons x later)
    obtain start n where x: "x = (start, n)" by (rule prod.exhaust)
    define counted where "counted = takeWhile (\<lambda>(now, n). now - start < window) later"
    have w: "counted_window open_at settle window obs =
        (if counted = later then None else Some (sum_list (map snd early) + n, start, counted))"
      by (simp only: w Cons x list.case prod.case Let_def counted_def)
    have on: "\<not> start - open_at < settle"
      using Cons x hd_dropWhile [of ?early obs] by (simp add: rest_def)
    have after: "list_all (\<lambda>(now, k). settle \<le> now - open_at) later"
      using assms(1) obs Cons x on by (fastforce simp: sorted_append list_all_iff)
    have bytes: "sum_list (map snd early) + n + sum_list (map snd later) \<le> USIZE_MAX"
      using assms(2) by (simp add: obs Cons x)
    have "meter_run obs ?m0 = meter_run ((start, n) # later) m1"
      by (simp add: obs Cons x meter_run_append m1)
    also have "\<dots> = m1\<lparr>mark := Some start, discarded_bytes := sum_list (map snd early) + n,
        counted_bytes := sum_list (map snd counted),
        mt_last := (if counted = [] then None else Some (fst (last counted))), closed := counted \<noteq> later\<rparr>"
      by (subst meter_run_from_mark [where counted = counted])
         (use on after bytes in \<open>simp_all add: m1_def fields counted_def\<close>)
    finally show ?thesis
      using w by (auto simp: meter_finish_def m1_def fields Let_def)
  qed
qed

theorem meter_counts_its_window_witness:
  "meter_finish (meter_run [(1, 500), (10, 70), (14, 40), (18, 60), (21, 9)] (starting_at 0 5 10)) =
     Some \<lparr>byte_rate = fdiv B64 (of_nat_fl B64 100) (as_secs_f64 8), tm_bytes = 100, tm_window = 8,
       tm_settle = 10, settle_bytes = 570, stream_sample_rate_hz = None\<rparr>"
  using meter_counts_its_window [of "[(1, 500), (10, 70), (14, 40), (18, 60), (21, 9)]" 0 5 10]
  by (simp add: counted_window_def USIZE_MAX_def)

section \<open>What the sniffer reads\<close>

definition header_step ::
  "(bytes \<Rightarrow> packet_metadata option) \<Rightarrow> bytes \<Rightarrow> (packet_metadata \<times> bytes) option" where
  "header_step mo buf =
     (case scan_packet_header mo buf of
        Header m c f ps rej \<Rightarrow> Some (m, drop ps buf)
      | Incomplete k rej \<Rightarrow> None)"

lemma header_step_shorter: "header_step mo xs = Some (m, ys) \<Longrightarrow> length ys < length xs"
  using scan_header_bounds [of mo xs] by (fastforce simp: header_step_def split: header_scan.splits)

lemma header_step_unspent: "header_step mo (unspent mo xs) = header_step mo xs"
proof (cases "scan_packet_header mo xs")
  case (Header m c f ps rej)
  obtain rej' where r: "scan_packet_header mo (drop c xs) = Header m 0 (f - c) (ps - c) rej'"
    using scan_drop_header [OF Header] by blast
  with Header header_facts [OF Header] show ?thesis by (simp add: header_step_def unspent_def)
next
  case (Incomplete k rej)
  from incomplete_facts(3) [OF Incomplete] Incomplete show ?thesis
    by (simp add: header_step_def unspent_def)
qed

lemma header_step_extend:
  assumes "header_step mo xs = Some (m, ys)"
  shows "\<exists>ys'. header_step mo (xs @ zs) = Some (m, ys') \<and> unspent mo ys' = unspent mo (ys @ zs)"
proof (cases "scan_packet_header mo xs")
  case (Incomplete k rej)
  with assms show ?thesis by (simp add: header_step_def)
next
  case (Header m' c f ps rej)
  with assms scan_append_header [OF Header, of zs] drop_start_append [OF Header, of zs] show ?thesis
    by (auto simp: header_step_def)
qed

interpretation headers: framing "header_step mo" "unspent mo" "\<lambda>m. False" for mo
  by unfold_locales (fact header_step_shorter header_step_unspent unspent_append | erule header_step_extend)+

text \<open>The rate a list of headers is a yardstick for: the first positive one of an IQ header.\<close>

definition yardstick :: "packet_metadata list \<Rightarrow> f64 option" where
  "yardstick ms =
     map_option meta_sample_rate_hz (find (\<lambda>m. payload m = Iq \<and> flt zero (meta_sample_rate_hz m)) ms)"

lemma yardstick_simps [simp]:
  "yardstick [] = None"
  "yardstick (m # ms) =
     (if payload m = Iq \<and> flt zero (meta_sample_rate_hz m) then Some (meta_sample_rate_hz m) else yardstick ms)"
  by (simp_all add: yardstick_def)

lemma yardstick_append:
  "yardstick (xs @ ys) = (case yardstick xs of None \<Rightarrow> yardstick ys | Some r \<Rightarrow> Some r)"
  by (induction xs) auto

lemma sniff_loop_cases:
  "header_step mo buf = None \<Longrightarrow> sniff_loop mo buf = (None, unspent mo buf)"
  "header_step mo buf = Some (m, rest) \<Longrightarrow> payload m = Iq \<and> flt zero (meta_sample_rate_hz m) \<Longrightarrow>
     sniff_loop mo buf = (Some (meta_sample_rate_hz m), rest)"
  "header_step mo buf = Some (m, rest) \<Longrightarrow> \<not> (payload m = Iq \<and> flt zero (meta_sample_rate_hz m)) \<Longrightarrow>
     sniff_loop mo buf = sniff_loop mo rest"
  by (subst sniff_loop.simps; force simp: header_step_def unspent_def Let_def split: header_scan.splits)+

lemma sniff_loop_runs:
  "headers.runs mo buf ms r \<Longrightarrow> fst (sniff_loop mo buf) = yardstick ms \<and>
     (yardstick ms = None \<longrightarrow> unspent mo (snd (sniff_loop mo buf)) = unspent mo r)"
proof (induction rule: headers.runs.induct)
  case (stop xs)
  then show ?case by (simp add: sniff_loop_cases(1) headers.norm_norm)
next
  case (more xs m ys ms r)
  then show ?case
    by (cases "payload m = Iq \<and> flt zero (meta_sample_rate_hz m)")
       (auto simp: sniff_loop_cases(2,3))
qed

fun sniff_all :: "(bytes \<Rightarrow> packet_metadata option) \<Rightarrow> bytes list \<Rightarrow> rate_sniffer \<Rightarrow> f64 option" where
  "sniff_all mo [] s = None"
| "sniff_all mo (c # cs) s =
     (case sniffer_feed mo c s of (Some r, s') \<Rightarrow> Some r | (None, s') \<Rightarrow> sniff_all mo cs s')"

lemma sniff_all_runs:
  "headers.runs mo (sn_buf s @ concat cs) ms r \<Longrightarrow> header_step mo (sn_buf s) = None \<Longrightarrow>
   sniff_all mo cs s = yardstick ms"
proof (induction cs arbitrary: s ms r)
  case Nil
  then show ?case by (auto elim: headers.runs.cases)
next
  case (Cons c cs)
  obtain ms1 r1 where one: "headers.runs mo (sn_buf s @ c) ms1 r1" using headers.runs_total by blast
  obtain found buf where loop: "sniff_loop mo (sn_buf s @ c) = (found, buf)" by (rule prod.exhaust)
  let ?buf = "if found = None then buf else r1"
  have n: "unspent mo ?buf = unspent mo r1" and f: "found = yardstick ms1"
    using sniff_loop_runs [OF one] loop by auto
  obtain js t where rest: "headers.runs mo (?buf @ concat cs) js t" using headers.runs_total by blast
  obtain t' where "headers.runs mo ((sn_buf s @ c) @ concat cs) (ms1 @ js) t'"
    using headers.runs_extend [OF one _ n rest] by blast
  with Cons.prems(1) have ms: "ms = ms1 @ js" using headers.runs_unique by fastforce
  have end1: "header_step mo r1 = None" using one by (induction rule: headers.runs.induct) auto
  show ?case
  proof (cases found)
    case None
    have "header_step mo buf = None" using headers.step_cong [OF n] end1 None by simp
    with None rest Cons.IH [of "\<lparr>sn_buf = buf, sn_fed = sn_fed s + length c\<rparr>" js t]
    have "sniff_all mo cs \<lparr>sn_buf = buf, sn_fed = sn_fed s + length c\<rparr> = yardstick js" by simp
    moreover have "yardstick ms = yardstick js" using None f by (simp add: ms yardstick_append)
    ultimately show ?thesis using None loop by (simp add: sniffer_feed_def)
  next
    case (Some rate)
    have "yardstick ms = Some rate" using Some f by (simp add: ms yardstick_append)
    with Some loop show ?thesis by (simp add: sniffer_feed_def)
  qed
qed

text \<open>
  However the stream is cut into chunks, the sniffer finds the same rate: the first positive
  sample rate of an IQ header among the headers of the whole stream, other headers passed over.
\<close>

theorem sniffer_reads_first_iq_rate:
  "\<exists>ms r. headers.runs mo (concat chunks) ms r \<and> sniff_all mo chunks sniffer_new = yardstick ms"
proof -
  obtain ms r where r: "headers.runs mo (concat chunks) ms r" using headers.runs_total by blast
  have "header_step mo [] = None" by (simp add: header_step_def scan_packet_header_def scan_from_cases(1))
  with r sniff_all_runs [of mo sniffer_new chunks ms r] show ?thesis by (auto simp: sniffer_new_def)
qed

end
