(* ===== verification/Stream_Break.thy ===== *)
theory Stream_Break
  imports Stream_Format
begin

text \<open>
  \<open>src/src/stream_break.rs\<close>: what happened to a sample stream and where it is reported.
  The trait \<open>StreamBreakSink\<close> is a locale; the sink of the crate, \<open>RecordingBreakSink\<close>,
  is its interpretation. Nothing panics while it holds that sink's mutex, so its poisoned state
  is not modelled, and \<open>Arc\<close> forwarding is the same operation.
\<close>

datatype stream_discontinuity =
    Gap
  | Initial f64 f64
  | Retune f64 f64

fun kind :: "stream_discontinuity \<Rightarrow> string" where
  "kind Gap = ''gap''"
| "kind (Initial c r) = ''initial''"
| "kind (Retune c r) = ''retune''"

fun geometry_of :: "stream_discontinuity \<Rightarrow> (f64 \<times> f64) option" where
  "geometry_of Gap = None"
| "geometry_of (Initial c r) = Some (c, r)"
| "geometry_of (Retune c r) = Some (c, r)"

lemma geometry_of_None [simp]: "geometry_of c = None \<longleftrightarrow> c = Gap"
  by (cases c) auto

type_synonym break = "nat \<times> stream_discontinuity"

section \<open>The interface of a sink\<close>

text \<open>A sink keeps what it is told, in the order it is told.\<close>

locale break_sink =
  fixes record_break :: "nat \<Rightarrow> stream_discontinuity \<Rightarrow> 'k \<Rightarrow> 'k"
    and contents :: "'k \<Rightarrow> break list"
  assumes contents_record: "contents (record_break i c k) = contents k @ [(i, c)]"
begin

lemma contents_fold:
  "contents (fold (\<lambda>(i, c). record_break i c) reports k) = contents k @ reports"
  by (induction reports arbitrary: k) (auto simp: contents_record)

end

record recording_sink =
  rs_breaks :: "break list"

definition recording_new :: recording_sink where
  "recording_new = \<lparr>rs_breaks = []\<rparr>"

definition recording_record :: "nat \<Rightarrow> stream_discontinuity \<Rightarrow> recording_sink \<Rightarrow> recording_sink" where
  "recording_record at_sample cause s = s\<lparr>rs_breaks := rs_breaks s @ [(at_sample, cause)]\<rparr>"

definition recorded_breaks :: "recording_sink \<Rightarrow> break list" where
  "recorded_breaks s = rs_breaks s"

interpretation recording: break_sink recording_record recorded_breaks
  by unfold_locales (simp add: recording_record_def recorded_breaks_def)

end
