(* ===== verification/Break_Queue.thy ===== *)
theory Break_Queue
  imports Stream_Break
begin

text \<open>
  The part of \<open>HttpSource\<close> (\<open>src/src/http_source.rs\<close>) that keeps stream breaks against
  the samples still queued: the sample buffer, the breaks pending on it, the geometry last
  announced and last published, and the operations that append, trim, clear and publish.
  Samples are of any type; the source's are complex numbers. \<open>produced\<close> counts samples
  without bound.
\<close>

record ('s, 'k) break_queue =
  sample_buffer :: "'s list"
  sink :: "'k option"
  produced :: nat
  pending_breaks :: "break list"
  epoch_center_hz :: "f64 option"
  epoch_rate_hz :: "f64 option"
  published_geometry :: "(f64 \<times> f64) option"

definition CENTER_CHANGE_HZ :: f64 where "CENTER_CHANGE_HZ = lit B64 1"

section \<open>Recording\<close>

definition note_break ::
  "stream_discontinuity \<Rightarrow> ('s, 'k, 'z) break_queue_scheme \<Rightarrow> ('s, 'k, 'z) break_queue_scheme" where
  "note_break cause q =
     (if sink q = None then q
      else let at_end = length (sample_buffer q)
           in if cause = Gap \<and> pending_breaks q \<noteq> [] \<and> last (pending_breaks q) = (at_end, Gap) then q
              else q\<lparr>pending_breaks := pending_breaks q @ [(at_end, cause)]\<rparr>)"

definition note_trim ::
  "nat \<Rightarrow> ('s, 'k, 'z) break_queue_scheme \<Rightarrow> ('s, 'k, 'z) break_queue_scheme" where
  "note_trim discarded q =
     (if sink q = None then q
      else let rebased = map (\<lambda>(offset, cause). (offset - discarded, cause)) (pending_breaks q);
               retained = filter (\<lambda>(offset, cause). 0 < offset \<or> cause \<noteq> Gap) rebased
           in q\<lparr>pending_breaks := (0, Gap) # retained\<rparr>)"

definition note_buffer_cleared ::
  "('s, 'k, 'z) break_queue_scheme \<Rightarrow> ('s, 'k, 'z) break_queue_scheme" where
  "note_buffer_cleared q =
     (if sink q = None then q
      else q\<lparr>pending_breaks := [(0, Gap)],
             epoch_center_hz := map_option fst (published_geometry q),
             epoch_rate_hz := map_option snd (published_geometry q)\<rparr>)"

definition note_geometry ::
  "stream_packet \<Rightarrow> ('s, 'k, 'z) break_queue_scheme \<Rightarrow> ('s, 'k, 'z) break_queue_scheme" where
  "note_geometry p q =
     (if sink q = None \<or> payload (metadata p) \<noteq> Iq then q
      else let center = cfg_center_frequency_hz (sdr_config p);
               rate = cfg_sample_rate_hz (sdr_config p)
           in if fle rate zero then q
              else case (epoch_center_hz q, epoch_rate_hz q) of
                     (Some epoch_center, Some epoch_rate) \<Rightarrow>
                       let moved_center = flt CENTER_CHANGE_HZ (fabs (fsub B64 epoch_center center));
                           moved_rate = rate_moved epoch_rate rate
                       in if \<not> moved_center \<and> \<not> moved_rate then q
                          else (note_break (Retune center rate) q)
                                 \<lparr>epoch_center_hz := Some center, epoch_rate_hz := Some rate\<rparr>
                   | _ \<Rightarrow> (note_break (Initial center rate) q)
                            \<lparr>epoch_center_hz := Some center, epoch_rate_hz := Some rate\<rparr>)"

section \<open>Publishing\<close>

text \<open>The \<open>match\<close> that folds the geometries of one position into one.\<close>

fun merge_geometry :: "stream_discontinuity \<Rightarrow> stream_discontinuity option \<Rightarrow> stream_discontinuity option" where
  "merge_geometry Gap g = g"
| "merge_geometry c None = Some c"
| "merge_geometry (Initial c r) (Some (Initial c' r')) = Some (Initial c r)"
| "merge_geometry (Retune c r) (Some (Initial c' r')) = Some (Initial c r)"
| "merge_geometry c (Some g) = Some c"

text \<open>The breaks at one position, taken off the front.\<close>

fun drain_group ::
  "nat \<Rightarrow> break list \<Rightarrow> bool \<Rightarrow> stream_discontinuity option \<Rightarrow> bool \<times> stream_discontinuity option \<times> break list" where
  "drain_group offset [] has_gap g = (has_gap, g, [])"
| "drain_group offset ((x, cause) # rest) has_gap g =
     (if x \<noteq> offset then (has_gap, g, (x, cause) # rest)
      else drain_group offset rest (has_gap \<or> cause = Gap) (merge_geometry cause g))"

lemma drain_group_length: "length (snd (snd (drain_group offset bs has_gap g))) \<le> length bs"
  by (induction offset bs has_gap g rule: drain_group.induct) auto

text \<open>What is reported of one position: at most one gap, then at most one geometry.\<close>

definition reports_at :: "nat \<Rightarrow> bool \<Rightarrow> stream_discontinuity option \<Rightarrow> break list" where
  "reports_at i has_gap g =
     (if has_gap \<and> i \<noteq> 0 then [(i, Gap)] else []) @ (case g of Some c \<Rightarrow> [(i, c)] | None \<Rightarrow> [])"

definition published_by :: "stream_discontinuity option \<Rightarrow> (f64 \<times> f64) option \<Rightarrow> (f64 \<times> f64) option" where
  "published_by g old =
     (case g of Some c \<Rightarrow> (case geometry_of c of Some cr \<Rightarrow> Some cr | None \<Rightarrow> old) | None \<Rightarrow> old)"

function publish_loop ::
  "nat \<Rightarrow> nat \<Rightarrow> break list \<Rightarrow> (f64 \<times> f64) option \<Rightarrow> break list \<times> (f64 \<times> f64) option \<times> break list" where
  "publish_loop start n bs published =
     (case bs of
        [] \<Rightarrow> ([], published, [])
      | (offset, cause) # rest \<Rightarrow>
          if n \<le> offset then ([], published, bs)
          else let (has_gap, g, bs') = drain_group offset rest (cause = Gap) (merge_geometry cause None);
                   (reports, published', left) = publish_loop start n bs' (published_by g published)
               in (reports_at (start + offset) has_gap g @ reports, published', left))"
  by pat_completeness auto
termination
proof (relation "measure (\<lambda>(start, n, bs, published). length bs)", goal_cases)
  case (2 start n bs published y rest offset cause x b pair g left)
  from 2(4-6) have "left = snd (snd (drain_group offset rest (cause = Gap) (merge_geometry cause None)))"
    by (metis snd_conv)
  with drain_group_length [of offset rest "cause = Gap" "merge_geometry cause None"] 2(1,2) show ?case
    by simp
qed simp

declare publish_loop.simps [simp del]

definition publish_breaks ::
  "(nat \<Rightarrow> stream_discontinuity \<Rightarrow> 'k \<Rightarrow> 'k) \<Rightarrow> nat \<Rightarrow>
   ('s, 'k, 'z) break_queue_scheme \<Rightarrow> ('s, 'k, 'z) break_queue_scheme" where
  "publish_breaks record_break n q =
     (let q' = (case sink q of
            Some k \<Rightarrow>
              if pending_breaks q = [] then q
              else let (reports, published, left) = publish_loop (produced q) n (pending_breaks q) (published_geometry q)
                   in q\<lparr>sink := Some (fold (\<lambda>(i, c). record_break i c) reports k),
                        published_geometry := published,
                        pending_breaks := map (\<lambda>(offset, cause). (offset - n, cause)) left\<rparr>
          | None \<Rightarrow> q)
      in q'\<lparr>produced := produced q + n\<rparr>)"

section \<open>The buffer\<close>

text \<open>
  \<open>copy_out\<close> copies from the two halves in which the deque lies in memory; where it wraps
  makes no difference.
\<close>

definition copy_out_halves :: "'s list \<Rightarrow> 's list \<Rightarrow> nat \<Rightarrow> 's list \<times> 's list" where
  "copy_out_halves front back room =
     (let n = min (length (front @ back)) room;
          from_front = min (length front) n;
          from_back = n - from_front
      in (take from_front front @ take from_back back, drop n (front @ back)))"

definition copy_out :: "'s list \<Rightarrow> nat \<Rightarrow> 's list \<times> 's list" where
  "copy_out buffer room = copy_out_halves buffer [] room"

lemma copy_out_halves_eq: "copy_out_halves front back room = (take room (front @ back), drop room (front @ back))"
  by (auto simp: copy_out_halves_def Let_def min_def)

lemma copy_out_eq [simp]: "copy_out buffer room = (take room buffer, drop room buffer)"
  by (simp add: copy_out_def copy_out_halves_eq)

definition extend_buffer ::
  "'s list \<Rightarrow> ('s, 'k, 'z) break_queue_scheme \<Rightarrow> ('s, 'k, 'z) break_queue_scheme" where
  "extend_buffer xs q = q\<lparr>sample_buffer := sample_buffer q @ xs\<rparr>"

text \<open>The capacity trim: the oldest samples beyond the capacity go.\<close>

definition trim_buffer ::
  "nat \<Rightarrow> ('s, 'k, 'z) break_queue_scheme \<Rightarrow> ('s, 'k, 'z) break_queue_scheme" where
  "trim_buffer overflow q = note_trim overflow (q\<lparr>sample_buffer := drop overflow (sample_buffer q)\<rparr>)"

definition clear_buffer :: "('s, 'k, 'z) break_queue_scheme \<Rightarrow> ('s, 'k, 'z) break_queue_scheme" where
  "clear_buffer q = note_buffer_cleared (q\<lparr>sample_buffer := []\<rparr>)"

text \<open>The tail of \<open>work()\<close>: samples out, their breaks reported first.\<close>

definition emit ::
  "(nat \<Rightarrow> stream_discontinuity \<Rightarrow> 'k \<Rightarrow> 'k) \<Rightarrow> nat \<Rightarrow>
   ('s, 'k, 'z) break_queue_scheme \<Rightarrow> 's list \<times> ('s, 'k, 'z) break_queue_scheme" where
  "emit record_break room q =
     (let (out, rest) = copy_out (sample_buffer q) room
      in (out, publish_breaks record_break (length out) (q\<lparr>sample_buffer := rest\<rparr>)))"

end
