(* ===== verification/Break_Contract.thy ===== *)
theory Break_Contract
  imports Break_Queue
begin

text \<open>
  The contract of \<open>src/src/stream_break.rs\<close>, proved of the break queue: breaks arrive in
  index order and no index is revisited; wherever two neighbouring output samples do not follow
  one another a gap is reported between them; and at every sample the last geometry reported is
  the one it was received under.
\<close>

section \<open>Geometry in force\<close>

definition announce :: "stream_discontinuity \<Rightarrow> (f64 \<times> f64) option \<Rightarrow> (f64 \<times> f64) option" where
  "announce c g = (case geometry_of c of Some cr \<Rightarrow> Some cr | None \<Rightarrow> g)"

lemma announce_simps [simp]:
  "announce Gap g = g" "announce (Initial c r) g = Some (c, r)" "announce (Retune c r) g = Some (c, r)"
  by (simp_all add: announce_def)

abbreviation announce_all :: "stream_discontinuity list \<Rightarrow> (f64 \<times> f64) option \<Rightarrow> (f64 \<times> f64) option" where
  "announce_all cs g \<equiv> fold announce cs g"

text \<open>The geometry that holds at index \<open>i\<close> by the breaks of a list, in absolute indices.\<close>

definition in_force :: "(f64 \<times> f64) option \<Rightarrow> break list \<Rightarrow> nat \<Rightarrow> (f64 \<times> f64) option" where
  "in_force g bs i = fold (\<lambda>(k, c) g. if k \<le> i then announce c g else g) bs g"

lemma in_force_simps [simp]:
  "in_force g [] i = g"
  "in_force g ((k, c) # bs) i = in_force (if k \<le> i then announce c g else g) bs i"
  "in_force g (xs @ ys) i = in_force (in_force g xs i) ys i"
  by (simp_all add: in_force_def)

lemma in_force_all: "\<forall>b \<in> set bs. fst b \<le> i \<Longrightarrow> in_force g bs i = announce_all (map snd bs) g"
  by (induction bs arbitrary: g) auto

lemma in_force_none: "\<forall>b \<in> set bs. i < fst b \<Longrightarrow> in_force g bs i = g"
  by (induction bs arbitrary: g) auto

definition shift :: "nat \<Rightarrow> break list \<Rightarrow> break list" where
  "shift n bs = map (\<lambda>(k, c). (n + k, c)) bs"

lemma shift_simps [simp]:
  "shift n [] = []" "shift n ((k, c) # bs) = (n + k, c) # shift n bs"
  "shift n (xs @ ys) = shift n xs @ shift n ys" "map snd (shift n bs) = map snd bs"
  "fst ` set (shift n bs) = (+) n ` fst ` set bs"
  by (auto simp: shift_def image_image split_beta)

lemma in_shift [simp]: "(k, c) \<in> set (shift n bs) \<longleftrightarrow> n \<le> k \<and> (k - n, c) \<in> set bs"
  by (force simp: shift_def)

lemma in_shift_fst: "b \<in> set (shift n bs) \<Longrightarrow> \<exists>b' \<in> set bs. fst b = n + fst b'"
  by (force simp: shift_def)

section \<open>One group\<close>

lemma drain_group_spec:
  "drain_group k bs has_gap g =
     (let here = takeWhile (\<lambda>b. fst b = k) bs
      in (has_gap \<or> list_ex (\<lambda>b. snd b = Gap) here, fold merge_geometry (map snd here) g, dropWhile (\<lambda>b. fst b = k) bs))"
  by (induction k bs has_gap g rule: drain_group.induct) (auto simp: Let_def)

lemma published_by_merge: "published_by (merge_geometry c g) old = announce c (published_by g old)"
  by (cases "(c, g)" rule: merge_geometry.cases) (simp_all add: published_by_def)

lemma published_by_fold: "published_by (fold merge_geometry cs g) old = announce_all cs (published_by g old)"
  by (induction cs arbitrary: g) (simp_all add: published_by_merge)

lemma in_force_here:
  "\<forall>b \<in> set here. fst b = k \<Longrightarrow>
   in_force g here i = (if k \<le> i then announce_all (map snd here) g else g)"
  by (cases "k \<le> i") (simp_all add: in_force_all in_force_none)

lemma in_force_reports: "in_force old (reports_at k has_gap g) i = (if k \<le> i then published_by g old else old)"
  by (auto simp: reports_at_def published_by_def announce_def split: option.splits)

text \<open>A group written out: what \<open>publish_loop\<close> drains and reports in one round.\<close>

lemma publish_round:
  fixes offset n start :: nat and cause :: stream_discontinuity and rest :: "break list"
  assumes "offset < n"
  defines "here \<equiv> (offset, cause) # takeWhile (\<lambda>b. fst b = offset) rest"
  defines "g \<equiv> fold merge_geometry (map snd here) None"
  shows "publish_loop start n ((offset, cause) # rest) pub =
     (let (reports, pub', left) = publish_loop start n (dropWhile (\<lambda>b. fst b = offset) rest) (announce_all (map snd here) pub)
      in (reports_at (start + offset) (list_ex (\<lambda>b. snd b = Gap) here) g @ reports, pub', left))"
proof -
  have p: "published_by g pub = announce_all (map snd here) pub"
    unfolding g_def published_by_fold by (simp add: published_by_def)
  have d: "drain_group offset rest (cause = Gap) (merge_geometry cause None) =
      (list_ex (\<lambda>b. snd b = Gap) here, g, dropWhile (\<lambda>b. fst b = offset) rest)"
    by (auto simp: drain_group_spec here_def g_def Let_def)
  show ?thesis
    using assms(1) by (subst publish_loop.simps) (simp add: d p)
qed

lemma publish_stop:
  "publish_loop start n [] pub = ([], pub, [])"
  "n \<le> offset \<Longrightarrow> publish_loop start n ((offset, cause) # rest) pub = ([], pub, (offset, cause) # rest)"
  by (subst publish_loop.simps; simp)+

section \<open>The whole loop\<close>

lemma publish_induct [case_names Nil Stop Round]:
  fixes n :: nat and bs :: "break list"
  assumes "\<And>pub. P [] pub"
    and "\<And>offset cause rest pub. n \<le> offset \<Longrightarrow> P ((offset, cause) # rest) pub"
    and "\<And>offset cause rest pub. offset < n \<Longrightarrow> (\<And>pub. P (dropWhile (\<lambda>b. fst b = offset) rest) pub) \<Longrightarrow>
      P ((offset, cause) # rest) pub"
  shows "P bs pub"
proof (induction bs arbitrary: pub rule: length_induct)
  case (1 bs)
  show ?case
  proof (cases bs)
    case Nil
    with assms(1) show ?thesis by simp
  next
    case (Cons b rest)
    obtain offset cause where b: "b = (offset, cause)" by (rule prod.exhaust)
    have "length (dropWhile (\<lambda>b. fst b = offset) rest) < length bs"
      using Cons length_dropWhile_le [of "\<lambda>b. fst b = offset" rest] by simp
    with 1 have "P (dropWhile (\<lambda>b. fst b = offset) rest) pub" for pub by blast
    with Cons b assms(2) [of offset] assms(3) [OF _ this] show ?thesis by (cases "n \<le> offset") simp_all
  qed
qed

lemma split_group: "(offset, cause) # rest =
    ((offset, cause) # takeWhile (\<lambda>b. fst b = offset) rest) @ dropWhile (\<lambda>b. fst b = offset) rest"
  by simp

lemma here_offset: "b \<in> set ((offset, cause) # takeWhile (\<lambda>b. fst b = offset) rest) \<Longrightarrow> fst b = offset"
  by (auto dest: set_takeWhileD)

text \<open>What is in force at an index is not changed by publishing, and the last geometry is remembered.\<close>

lemma publish_in_force:
  "publish_loop start n bs pub = (reports, pub', left) \<Longrightarrow>
   in_force g (reports @ shift start left) i = in_force g (shift start bs) i \<and>
   pub' = announce_all (map snd reports) pub"
proof (induction bs pub arbitrary: reports pub' left g rule: publish_induct [where n = n])
  case (Nil pub)
  then show ?case by (simp add: publish_stop)
next
  case (Stop offset cause rest pub)
  then show ?case by (auto simp: publish_stop)
next
  case (Round offset cause rest pub)
  define here where "here = (offset, cause) # takeWhile (\<lambda>b. fst b = offset) rest"
  define later where "later = dropWhile (\<lambda>b. fst b = offset) rest"
  define m where "m = fold merge_geometry (map snd here) None"
  have bs: "(offset, cause) # rest = here @ later" unfolding here_def later_def by (rule split_group)
  have off: "\<forall>b \<in> set here. fst b = offset" unfolding here_def by (intro ballI here_offset)
  have all: "published_by m old = announce_all (map snd here) old" for old
    unfolding m_def published_by_fold by (simp add: published_by_def)
  obtain reports' left' where loop: "publish_loop start n later (announce_all (map snd here) pub) = (reports', pub', left)"
    and reports: "reports = reports_at (start + offset) (list_ex (\<lambda>b. snd b = Gap) here) m @ reports'"
    using Round.prems publish_round [OF Round.hyps, of start cause rest pub]
    by (auto simp: here_def later_def m_def split: prod.splits)
  note ih = Round.IH [folded later_def, OF loop]
  have "in_force g (shift start here) i = (if start + offset \<le> i then announce_all (map snd here) g else g)"
    using off by (subst in_force_here [where k = "start + offset"]) (auto dest!: in_shift_fst)
  with ih [of "in_force g (shift start here) i"] have "in_force g (reports @ shift start left) i = in_force g (shift start (here @ later)) i"
    by (cases "start + offset \<le> i") (simp_all add: reports in_force_reports all)
  moreover have "announce_all (map snd (reports_at k hg m)) old = published_by m old" for k hg old
    by (auto simp: reports_at_def published_by_def announce_def split: option.splits)
  ultimately show ?case using ih unfolding bs by (simp add: reports all)
qed

lemma not_gap_reports: "(k, Gap) \<in> set (reports_at i has_gap g) \<longleftrightarrow> k = i \<and> i \<noteq> 0 \<and> has_gap \<or> k = i \<and> g = Some Gap"
  by (auto simp: reports_at_def split: option.splits)

lemma merged_not_gap: "fold merge_geometry cs g = Some Gap \<longleftrightarrow> g = Some Gap \<and> set cs \<subseteq> {Gap}"
proof (induction cs arbitrary: g)
  case (Cons c cs)
  have "merge_geometry c g = Some Gap \<longleftrightarrow> c = Gap \<and> g = Some Gap"
    by (cases "(c, g)" rule: merge_geometry.cases) auto
  with Cons show ?case by auto
qed simp

lemma publish_gaps:
  "publish_loop start n bs pub = (reports, pub', left) \<Longrightarrow> k \<noteq> 0 \<Longrightarrow>
   (k, Gap) \<in> set (reports @ shift start left) \<longleftrightarrow> (k, Gap) \<in> set (shift start bs)"
proof (induction bs pub arbitrary: reports pub' left rule: publish_induct [where n = n])
  case (Nil pub)
  then show ?case by (simp add: publish_stop)
next
  case (Stop offset cause rest pub)
  then show ?case by (auto simp: publish_stop)
next
  case (Round offset cause rest pub)
  define here where "here = (offset, cause) # takeWhile (\<lambda>b. fst b = offset) rest"
  define later where "later = dropWhile (\<lambda>b. fst b = offset) rest"
  define m where "m = fold merge_geometry (map snd here) None"
  have bs: "(offset, cause) # rest = here @ later" unfolding here_def later_def by (rule split_group)
  have off: "fst b = offset" if "b \<in> set here" for b using that unfolding here_def by (rule here_offset)
  obtain reports' where loop: "publish_loop start n later (announce_all (map snd here) pub) = (reports', pub', left)"
    and reports: "reports = reports_at (start + offset) (list_ex (\<lambda>b. snd b = Gap) here) m @ reports'"
    using Round.prems(1) publish_round [OF Round.hyps, of start cause rest pub]
    by (auto simp: here_def later_def m_def split: prod.splits)
  have "m \<noteq> Some Gap" by (simp add: m_def merged_not_gap)
  moreover have "(k, Gap) \<in> set (shift start here) \<longleftrightarrow> k = start + offset \<and> list_ex (\<lambda>b. snd b = Gap) here"
    using off by (force simp: list_ex_iff)
  ultimately show ?case
    using Round.IH [folded later_def, OF loop Round.prems(2)] Round.prems(2)
    unfolding bs by (auto simp: reports not_gap_reports)
qed

section \<open>The order of the reports\<close>

fun key_less :: "break \<Rightarrow> break \<Rightarrow> bool" where
  "key_less (i, c) (j, d) = (i < j \<or> i = j \<and> c = Gap \<and> d \<noteq> Gap)"

lemma key_less_fst: "fst a < fst b \<Longrightarrow> key_less a b"
  by (cases a; cases b) simp

lemma sorted_after_group:
  assumes "sorted (map fst ((offset, cause) # rest))" "b \<in> set (dropWhile (\<lambda>b. fst b = offset) rest)"
  shows "offset < fst b"
proof -
  obtain x xs where d: "dropWhile (\<lambda>b. fst b = offset) rest = x # xs" using assms(2) by (cases "dropWhile (\<lambda>b. fst b = offset) rest") auto
  then have "fst x \<noteq> offset" using hd_dropWhile [of "\<lambda>b. fst b = offset" rest] by auto
  moreover have "x \<in> set rest" using d set_dropWhileD [of x] by (metis list.set_intros(1))
  ultimately have "offset < fst x" using assms(1) by force
  moreover have "sorted (map fst (x # xs))"
    using assms(1) sorted_wrt_dropWhile [of "\<lambda>a b. fst a \<le> fst b" rest "\<lambda>b. fst b = offset"]
    by (simp add: sorted_wrt_map d)
  ultimately show ?thesis using assms(2) d by auto
qed

lemma reports_at_order:
  "g \<noteq> Some Gap \<Longrightarrow> sorted_wrt key_less (reports_at i has_gap g)"
  "b \<in> set (reports_at i has_gap g) \<Longrightarrow> fst b = i"
  "g \<noteq> Some Gap \<Longrightarrow> (0, Gap) \<notin> set (reports_at i has_gap g)"
  by (auto simp: reports_at_def split: option.splits if_splits)

lemma publish_order:
  "publish_loop start n bs pub = (reports, pub', left) \<Longrightarrow> sorted (map fst bs) \<Longrightarrow>
   sorted_wrt key_less reports \<and> (0, Gap) \<notin> set reports \<and> left = dropWhile (\<lambda>b. fst b < n) bs \<and>
   list_all (\<lambda>b. fst b < start + n \<and> list_ex (\<lambda>b'. fst b = start + fst b') bs) reports"
proof (induction bs pub arbitrary: reports pub' left rule: publish_induct [where n = n])
  case (Nil pub)
  then show ?case by (simp add: publish_stop)
next
  case (Stop offset cause rest pub)
  then show ?case by (auto simp: publish_stop)
next
  case (Round offset cause rest pub)
  define here where "here = (offset, cause) # takeWhile (\<lambda>b. fst b = offset) rest"
  define later where "later = dropWhile (\<lambda>b. fst b = offset) rest"
  define m where "m = fold merge_geometry (map snd here) None"
  have bs: "(offset, cause) # rest = here @ later" unfolding here_def later_def by (rule split_group)
  have off: "fst b = offset" if "b \<in> set here" for b using that unfolding here_def by (rule here_offset)
  obtain reports' where loop: "publish_loop start n later (announce_all (map snd here) pub) = (reports', pub', left)"
    and reports: "reports = reports_at (start + offset) (list_ex (\<lambda>b. snd b = Gap) here) m @ reports'"
    using Round.prems(1) publish_round [OF Round.hyps, of start cause rest pub]
    by (auto simp: here_def later_def m_def split: prod.splits)
  have m: "m \<noteq> Some Gap" by (simp add: m_def merged_not_gap)
  have gt: "offset < fst b" if "b \<in> set later" for b
    using sorted_after_group [OF Round.prems(2)] that by (simp add: later_def)
  have "sorted (map fst later)"
    using Round.prems(2) unfolding later_def by (simp add: sorted_wrt_map sorted_wrt_dropWhile)
  note ih = Round.IH [folded later_def, OF loop this]
  have "key_less a b" if "a \<in> set (reports_at (start + offset) hg m)" "b \<in> set reports'" for a b hg
  proof -
    from ih that(2) obtain b' where "b' \<in> set later" "fst b = start + fst b'"
      by (auto simp: list_all_iff list_ex_iff)
    with gt reports_at_order(2) [OF that(1)] show ?thesis by (cases a; cases b) fastforce
  qed
  moreover have "left = dropWhile (\<lambda>b. fst b < n) ((offset, cause) # rest)"
    using ih Round.hyps off by (subst bs) (simp add: dropWhile_append2)
  moreover have "list_all (\<lambda>b. fst b < start + n \<and> list_ex (\<lambda>b'. fst b = start + fst b') (here @ later)) reports"
    using ih Round.hyps
    by (auto simp: reports list_all_iff here_def list_ex_iff dest!: reports_at_order(2))
  ultimately show ?case
    using ih m unfolding bs
    by (auto simp: reports sorted_wrt_append reports_at_order)
qed

section \<open>One initial geometry, then retunes\<close>

fun announced :: "bool \<Rightarrow> stream_discontinuity list \<Rightarrow> bool" where
  "announced started [] = True"
| "announced started (Gap # cs) = announced started cs"
| "announced started (Initial c r # cs) = (\<not> started \<and> announced True cs)"
| "announced started (Retune c r # cs) = (started \<and> announced True cs)"

lemma announced_append:
  "announced started (xs @ ys) \<longleftrightarrow> announced started xs \<and> announced (started \<or> \<not> set xs \<subseteq> {Gap}) ys"
  by (induction started xs rule: announced.induct) auto

lemma announced_gaps: "set xs \<subseteq> {Gap} \<Longrightarrow> announced started xs"
  by (induction xs) auto

lemma announce_all_None: "announce_all cs g = None \<longleftrightarrow> g = None \<and> set cs \<subseteq> {Gap}"
proof (induction cs arbitrary: g)
  case (Cons c cs)
  then show ?case by (cases c) auto
qed simp

lemma announced_merge_some:
  "announced True cs \<Longrightarrow> g \<noteq> Gap \<Longrightarrow> \<exists>g'. fold merge_geometry cs (Some g) = Some g' \<and> g' \<noteq> Gap \<and> kind g' = kind g"
proof (induction cs arbitrary: g)
  case (Cons c cs)
  show ?case
  proof (cases c)
    case Gap
    with Cons show ?thesis by simp
  next
    case (Retune x r)
    have "\<exists>g1. merge_geometry c (Some g) = Some g1 \<and> g1 \<noteq> Gap \<and> kind g1 = kind g"
      using Cons.prems(2) Retune by (cases g) auto
    with Cons.IH Cons.prems Retune show ?thesis by fastforce
  qed (use Cons.prems in simp)
qed simp

lemma announced_merge:
  "announced started cs \<Longrightarrow> announced started (case fold merge_geometry cs None of None \<Rightarrow> [] | Some g \<Rightarrow> [g])"
proof (induction cs)
  case (Cons c cs)
  show ?case
  proof (cases c)
    case Gap
    with Cons show ?thesis by simp
  next
    case (Initial x r)
    with Cons.prems obtain g' where "fold merge_geometry cs (Some c) = Some g'" "g' \<noteq> Gap" "kind g' = kind c"
      using announced_merge_some [of cs c] by auto
    with Cons.prems Initial show ?thesis by (cases g') auto
  next
    case (Retune x r)
    with Cons.prems obtain g' where "fold merge_geometry cs (Some c) = Some g'" "g' \<noteq> Gap" "kind g' = kind c"
      using announced_merge_some [of cs c] by auto
    with Cons.prems Retune show ?thesis by (cases g') auto
  qed
qed simp

lemma merged_none: "fold merge_geometry cs None = None \<longleftrightarrow> set cs \<subseteq> {Gap}"
proof -
  have "published_by (fold merge_geometry cs None) None = announce_all cs None"
    unfolding published_by_fold by (simp add: published_by_def)
  moreover have "fold merge_geometry cs None \<noteq> Some Gap" by (simp add: merged_not_gap)
  ultimately show ?thesis
    using announce_all_None [of cs None]
    by (cases "fold merge_geometry cs None") (auto simp: published_by_def split: option.splits)
qed

lemma announced_reports:
  assumes "announced started (map snd here)"
  shows "announced started (map snd (reports_at i has_gap (fold merge_geometry (map snd here) None)))"
    and "set (map snd (reports_at i has_gap (fold merge_geometry (map snd here) None))) \<subseteq> {Gap} \<longleftrightarrow> set (map snd here) \<subseteq> {Gap}"
  using announced_merge [OF assms] merged_none [of "map snd here"] merged_not_gap [of "map snd here" None]
  by (auto simp: reports_at_def split: option.splits)

lemma publish_announced:
  "publish_loop start n bs pub = (reports, pub', left) \<Longrightarrow> announced started (map snd bs) \<Longrightarrow>
   announced started (map snd (reports @ left))"
proof (induction bs pub arbitrary: reports pub' left started rule: publish_induct [where n = n])
  case (Nil pub)
  then show ?case by (simp add: publish_stop)
next
  case (Stop offset cause rest pub)
  then show ?case by (auto simp: publish_stop)
next
  case (Round offset cause rest pub)
  define here where "here = (offset, cause) # takeWhile (\<lambda>b. fst b = offset) rest"
  define later where "later = dropWhile (\<lambda>b. fst b = offset) rest"
  define m where "m = fold merge_geometry (map snd here) None"
  have bs: "(offset, cause) # rest = here @ later" unfolding here_def later_def by (rule split_group)
  obtain reports' where loop: "publish_loop start n later (announce_all (map snd here) pub) = (reports', pub', left)"
    and reports: "reports = reports_at (start + offset) (list_ex (\<lambda>b. snd b = Gap) here) m @ reports'"
    using Round.prems(1) publish_round [OF Round.hyps, of start cause rest pub]
    by (auto simp: here_def later_def m_def split: prod.splits)
  from Round.prems(2) have a: "announced started (map snd here)"
    "announced (started \<or> \<not> set (map snd here) \<subseteq> {Gap}) (map snd later)"
    unfolding bs by (simp_all add: announced_append)
  show ?case
    using announced_reports [OF a(1), folded m_def] Round.IH [folded later_def, OF loop a(2)]
    by (simp add: reports announced_append)
qed

section \<open>The invariant of the queue\<close>

context break_sink
begin

definition reported :: "('s, 'k, 'z) break_queue_scheme \<Rightarrow> break list" where
  "reported q = (case sink q of Some k \<Rightarrow> contents k | None \<Rightarrow> [])"

definition order_ok :: "('s, 'k, 'z) break_queue_scheme \<Rightarrow> bool" where
  "order_ok q =
     (sorted (map fst (pending_breaks q)) \<and> list_all (\<lambda>b. fst b \<le> length (sample_buffer q)) (pending_breaks q) \<and>
      sorted_wrt key_less (reported q) \<and> (0, Gap) \<notin> set (reported q) \<and>
      list_all (\<lambda>b. fst b < produced q) (reported q))"

definition epoch_ok :: "('s, 'k, 'z) break_queue_scheme \<Rightarrow> bool" where
  "epoch_ok q =
     (announced False (map snd (reported q @ pending_breaks q)) \<and>
      published_geometry q = announce_all (map snd (reported q)) None \<and>
      epoch_center_hz q = map_option fst (announce_all (map snd (reported q @ pending_breaks q)) None) \<and>
      epoch_rate_hz q = map_option snd (announce_all (map snd (reported q @ pending_breaks q)) None))"

definition queue_ok :: "('s, 'k, 'z) break_queue_scheme \<Rightarrow> bool" where
  "queue_ok q = (sink q \<noteq> None \<and> order_ok q \<and> epoch_ok q)"

lemma reported_fields [simp]:
  "reported (q\<lparr>sample_buffer := xs\<rparr>) = reported q"
  "reported (q\<lparr>pending_breaks := bs\<rparr>) = reported q"
  "reported (q\<lparr>epoch_center_hz := c\<rparr>) = reported q"
  "reported (q\<lparr>epoch_rate_hz := r\<rparr>) = reported q"
  by (simp_all add: reported_def)

lemma note_break_ok: "queue_ok q \<Longrightarrow> queue_ok (note_break Gap q)"
  by (auto simp: queue_ok_def order_ok_def epoch_ok_def note_break_def Let_def sorted_append
      announced_append list_all_iff)

lemma extend_ok: "queue_ok q \<Longrightarrow> queue_ok (extend_buffer xs q)"
  by (auto simp: queue_ok_def order_ok_def epoch_ok_def extend_buffer_def list_all_iff)

lemma note_geometry_ok:
  assumes "queue_ok q"
  shows "queue_ok (note_geometry p q)"
proof -
  let ?center = "cfg_center_frequency_hz (sdr_config p)" and ?rate = "cfg_sample_rate_hz (sdr_config p)"
  let ?g = "announce_all (map snd (reported q @ pending_breaks q)) None"
  have ok: "queue_ok ((note_break c q)\<lparr>epoch_center_hz := Some ?center, epoch_rate_hz := Some ?rate\<rparr>)"
    if "c = Initial ?center ?rate \<and> ?g = None \<or> c = Retune ?center ?rate \<and> ?g \<noteq> None" for c
  proof -
    have n: "note_break c q = q\<lparr>pending_breaks := pending_breaks q @ [(length (sample_buffer q), c)]\<rparr>"
      using that assms by (auto simp: note_break_def queue_ok_def)
    have "announced False (cs @ [c])" if "announced False cs"
      "c = Initial ?center ?rate \<and> announce_all cs None = None \<or> c = Retune ?center ?rate \<and> announce_all cs None \<noteq> None" for cs
      using that announce_all_None [of cs None] unfolding announced_append by auto
    from this [of "map snd (reported q @ pending_breaks q)"] that assms
    have "announced False (map snd (reported q @ pending_breaks q) @ [c])"
      by (simp add: queue_ok_def epoch_ok_def)
    with that assms show ?thesis unfolding n
      by (auto simp: queue_ok_def order_ok_def epoch_ok_def sorted_append list_all_iff)
  qed
  have e: "epoch_center_hz q = map_option fst ?g" "epoch_rate_hz q = map_option snd ?g"
    using assms by (simp_all add: queue_ok_def epoch_ok_def)
  show ?thesis
  proof (cases ?g)
    case None
    with ok [of "Initial ?center ?rate"] assms e show ?thesis by (simp add: note_geometry_def Let_def)
  next
    case (Some cr)
    with ok [of "Retune ?center ?rate"] assms e show ?thesis by (simp add: note_geometry_def Let_def)
  qed
qed

lemma announced_no_gaps: "announced started (filter (\<lambda>c. c \<noteq> Gap) cs) = announced started cs"
  by (induction started cs rule: announced.induct) auto

lemma announce_all_no_gaps: "announce_all (filter (\<lambda>c. c \<noteq> Gap) cs) g = announce_all cs g"
  by (induction cs arbitrary: g) auto

text \<open>The breaks a trim keeps, in the offsets it gives them.\<close>

definition retained :: "nat \<Rightarrow> break list \<Rightarrow> break list" where
  "retained n bs = filter (\<lambda>(offset, cause). 0 < offset \<or> cause \<noteq> Gap) (map (\<lambda>(offset, cause). (offset - n, cause)) bs)"

lemma retained_simps [simp]:
  "retained n [] = []"
  "retained n ((k, c) # bs) = (if n < k \<or> c \<noteq> Gap then (k - n, c) # retained n bs else retained n bs)"
  by (auto simp: retained_def)

lemma retained_causes:
  "filter (\<lambda>c. c \<noteq> Gap) (map snd (retained n bs)) = filter (\<lambda>c. c \<noteq> Gap) (map snd bs)"
  by (induction bs) auto

lemma retained_member: "(k, c) \<in> set (retained n bs) \<longleftrightarrow>
    (\<exists>j. (j, c) \<in> set bs \<and> k = j - n \<and> (0 < k \<or> c \<noteq> Gap))"
  by (force simp: retained_def)

lemma retained_sorted: "sorted (map fst bs) \<Longrightarrow> sorted (map fst (retained n bs))"
proof (induction bs)
  case (Cons b bs)
  have "k - n \<le> fst b'" if "b' \<in> set (retained n bs)" "\<forall>x \<in> set bs. k \<le> fst x" for k b'
    using that retained_member [of "fst b'" "snd b'" n bs] by (force intro: diff_le_mono)
  with Cons show ?case by (cases b) auto
qed simp

lemma trim_ok:
  assumes "queue_ok q"
  shows "queue_ok (trim_buffer n q)"
proof -
  let ?bs = "retained n (pending_breaks q)"
  have t: "trim_buffer n q = q\<lparr>sample_buffer := drop n (sample_buffer q), pending_breaks := (0, Gap) # ?bs\<rparr>"
    using assms by (cases "sink q") (simp_all add: trim_buffer_def note_trim_def retained_def queue_ok_def Let_def)
  have causes: "announced st (map snd ?bs) = announced st (map snd (pending_breaks q))"
    "announce_all (map snd ?bs) g = announce_all (map snd (pending_breaks q)) g" for st g
    using retained_causes [of n "pending_breaks q"] announced_no_gaps announce_all_no_gaps by metis+
  have "j - n \<le> length (drop n (sample_buffer q))" if "(j, c) \<in> set (pending_breaks q)" for j c
    using assms that by (force simp: list_all_iff queue_ok_def order_ok_def intro: diff_le_mono)
  then have "list_all (\<lambda>b. fst b \<le> length (drop n (sample_buffer q))) ?bs"
    by (fastforce simp: list_all_iff retained_member)
  then show ?thesis
    using assms retained_sorted [of "pending_breaks q" n]
    unfolding t by (auto simp: queue_ok_def order_ok_def epoch_ok_def announced_append causes)
qed

lemma clear_ok: "queue_ok q \<Longrightarrow> queue_ok (clear_buffer q)"
  by (auto simp: queue_ok_def order_ok_def epoch_ok_def clear_buffer_def note_buffer_cleared_def announced_append)

lemma in_force_ever: "\<exists>i. in_force g bs i = announce_all (map snd bs) g \<and> in_force g cs i = announce_all (map snd cs) g"
proof -
  let ?i = "sum_list (map fst bs) + sum_list (map fst cs)"
  have "fst b \<le> sum_list (map fst xs)" if "b \<in> set xs" for b and xs :: "break list"
    using that by (intro member_le_sum_list) auto
  then have "\<forall>b \<in> set bs. fst b \<le> ?i" "\<forall>b \<in> set cs. fst b \<le> ?i" by (auto intro: trans_le_add1 trans_le_add2)
  then show ?thesis by (intro exI conjI in_force_all)
qed

text \<open>What publishing does to the queue, in the terms of the loop.\<close>

lemma publish_breaks_facts:
  assumes "sink q \<noteq> None"
    and "publish_loop (produced q) n (pending_breaks q) (published_geometry q) = (reports, pub, left)"
  shows "reported (publish_breaks record_break n q) = reported q @ reports"
    "pending_breaks (publish_breaks record_break n q) = map (\<lambda>(offset, cause). (offset - n, cause)) left"
    "published_geometry (publish_breaks record_break n q) = pub"
    "produced (publish_breaks record_break n q) = produced q + n"
    "sample_buffer (publish_breaks record_break n q) = sample_buffer q"
    "epoch_center_hz (publish_breaks record_break n q) = epoch_center_hz q"
    "epoch_rate_hz (publish_breaks record_break n q) = epoch_rate_hz q"
    "sink (publish_breaks record_break n q) \<noteq> None"
  using assms by (auto simp: publish_breaks_def reported_def contents_fold publish_stop Let_def)

lemma emit_ok:
  assumes "queue_ok q"
  shows "queue_ok (snd (emit record_break room q))"
proof -
  let ?n = "min (length (sample_buffer q)) room"
  let ?q = "q\<lparr>sample_buffer := drop room (sample_buffer q)\<rparr>"
  have e: "snd (emit record_break room q) = publish_breaks record_break ?n ?q"
    by (simp add: emit_def)
  obtain reports pub left where loop:
    "publish_loop (produced q) ?n (pending_breaks q) (published_geometry q) = (reports, pub, left)"
    by (metis prod.exhaust)
  have s: "sink ?q \<noteq> None" and o: "order_ok q" and p: "epoch_ok q" using assms by (simp_all add: queue_ok_def)
  note f = publish_breaks_facts [OF s, of ?n reports pub left, simplified, OF loop]
  have sorted: "sorted (map fst (pending_breaks q))" using o by (simp add: order_ok_def)
  note order = publish_order [OF loop sorted]
  have ge: "produced q \<le> fst b" if "b \<in> set reports" for b
    using that order by (auto simp: list_all_iff list_ex_iff)
  have left: "sorted (map fst left)" "b \<in> set left \<Longrightarrow> fst b \<le> length (sample_buffer q)" for b
    using order sorted o
    by (auto simp: sorted_wrt_map sorted_wrt_dropWhile order_ok_def list_all_iff dest: set_dropWhileD)
  have "sorted (map fst (map (\<lambda>(offset, cause). (offset - ?n, cause)) left))"
    using left(1) by (auto simp: sorted_wrt_map elim!: sorted_wrt_mono_rel [rotated] intro: diff_le_mono)
  moreover have "list_all (\<lambda>b. fst b \<le> length (drop room (sample_buffer q))) (map (\<lambda>(offset, cause). (offset - ?n, cause)) left)"
    using left(2) by (fastforce simp: list_all_iff)
  moreover have "key_less a b" if "a \<in> set (reported q)" "b \<in> set reports" for a b
    using that(1) ge [OF that(2)] o by (intro key_less_fst) (fastforce simp: order_ok_def list_all_iff)
  ultimately have "order_ok (publish_breaks record_break ?n ?q)"
    using order o unfolding order_ok_def f
    by (auto simp: sorted_wrt_append list_all_iff dest: trans_less_add1)
  moreover have "announced False (map snd ((reported q @ reports) @ left))"
    using publish_announced [OF loop, of "\<not> set (map snd (reported q)) \<subseteq> {Gap}"] p
    by (auto simp: epoch_ok_def announced_append)
  moreover have "announce_all (map snd (reports @ left)) g = announce_all (map snd (pending_breaks q)) g" for g
    using publish_in_force [OF loop, of g]
      in_force_ever [of g "reports @ shift (produced q) left" "shift (produced q) (pending_breaks q)"]
    by auto
  moreover have "pub = announce_all (map snd reports) (published_geometry q)"
    using publish_in_force [OF loop] by blast
  ultimately have "epoch_ok (publish_breaks record_break ?n ?q)"
    using p unfolding epoch_ok_def f by (simp add: o_def case_prod_beta)
  with \<open>order_ok (publish_breaks record_break ?n ?q)\<close> f(8) show ?thesis
    by (simp add: e queue_ok_def)
qed

lemma emit_reports:
  assumes "queue_ok q"
  shows "\<exists>new. reported (snd (emit record_break room q)) = reported q @ new \<and>
      list_all (\<lambda>b. produced q \<le> fst b \<and> fst b < produced (snd (emit record_break room q))) new"
    and "produced (snd (emit record_break room q)) = produced q + length (fst (emit record_break room q))"
proof -
  let ?n = "min (length (sample_buffer q)) room"
  let ?q = "q\<lparr>sample_buffer := drop room (sample_buffer q)\<rparr>"
  have e: "snd (emit record_break room q) = publish_breaks record_break ?n ?q"
    "length (fst (emit record_break room q)) = ?n" by (simp_all add: emit_def)
  obtain reports pub left where loop:
    "publish_loop (produced q) ?n (pending_breaks q) (published_geometry q) = (reports, pub, left)"
    by (metis prod.exhaust)
  have s: "sink ?q \<noteq> None" and o: "sorted (map fst (pending_breaks q))"
    using assms by (simp_all add: queue_ok_def order_ok_def)
  note f = publish_breaks_facts [OF s, of ?n reports pub left, simplified, OF loop]
  have "list_all (\<lambda>b. produced q \<le> fst b \<and> fst b < produced q + ?n) reports"
    using publish_order [OF loop o] by (auto simp: list_all_iff list_ex_iff)
  then show "\<exists>new. reported (snd (emit record_break room q)) = reported q @ new \<and>
      list_all (\<lambda>b. produced q \<le> fst b \<and> fst b < produced (snd (emit record_break room q))) new"
    and "produced (snd (emit record_break room q)) = produced q + length (fst (emit record_break room q))"
    unfolding e f by blast+
qed

end

section \<open>What a packet declares\<close>

text \<open>The geometry an IQ packet with a usable rate was received under.\<close>

definition declared :: "stream_packet \<Rightarrow> (f64 \<times> f64) option" where
  "declared p =
     (if payload (metadata p) = Iq \<and> \<not> fle (cfg_sample_rate_hz (sdr_config p)) zero
      then Some (cfg_center_frequency_hz (sdr_config p), cfg_sample_rate_hz (sdr_config p)) else None)"

text \<open>Close enough that the code does not call it a retune.\<close>

fun same_geometry :: "f64 \<times> f64 \<Rightarrow> f64 \<times> f64 \<Rightarrow> bool" where
  "same_geometry (c0, r0) (c, r) = (\<not> flt CENTER_CHANGE_HZ (fabs (fsub B64 c0 c)) \<and> \<not> rate_moved r0 r)"

declare same_geometry.simps [simp del]

lemma change_bounds:
  "CENTER_CHANGE_HZ = Fin False 1" "\<exists>q. RATE_CHANGE_BAND = Fin False q \<and> 0 \<le> q"
proof -
  show "CENTER_CHANGE_HZ = Fin False 1" by (simp add: CENTER_CHANGE_HZ_def lit_def round_simps)
  have "is_finite (rnd B64 False (1 / 10))" by (simp add: round_simps)
  then have "RATE_CHANGE_BAND = Fin False (rnd_mag B64 (1 / 10))"
    unfolding RATE_CHANGE_BAND_def lit_def by (rule rnd_finite)
  moreover have "0 \<le> rnd_mag B64 (1 / 10)" by (rule rnd_mag_nonneg) simp
  ultimately show "\<exists>q. RATE_CHANGE_BAND = Fin False q \<and> 0 \<le> q" by blast
qed

lemma fsub_self: "fsub f x x = Fin False 0 \<or> is_nan (fsub f x x)"
proof (cases x)
  case (Fin s q)
  then show ?thesis by (cases s) (simp_all add: fsub_def)
qed (auto simp: fsub_def cnan_def)

lemma no_move: "x = Fin False 0 \<or> is_nan x \<Longrightarrow> 0 \<le> y \<Longrightarrow>
    \<not> flt (Fin False y) (fabs x) \<and> \<not> flt (Fin False y) (fdiv B64 (fabs x) r)"
  by (cases x; cases r) (auto simp: cnan_def rnd_def Let_def)

lemma same_geometry_refl [simp]: "same_geometry g g"
proof -
  obtain c r where g: "g = (c, r)" by (rule prod.exhaust)
  obtain q where q: "RATE_CHANGE_BAND = Fin False q" "0 \<le> q" using change_bounds(2) by blast
  from no_move [OF fsub_self, of 1] no_move [OF fsub_self q(2)] show ?thesis
    by (simp add: g change_bounds(1) rate_moved_def q(1) same_geometry.simps)
qed

lemma same_geometry_self:
  "\<not> flt CENTER_CHANGE_HZ (fabs (fsub B64 c c))" "\<not> rate_moved r r"
  using same_geometry_refl [of "(c, r)"] by (simp_all add: same_geometry.simps del: same_geometry_refl)

section \<open>What the contract promises\<close>

text \<open>
  Neighbours follow one another or a gap lies between them; every sample lies under a geometry
  close to the one it was received under; the newest sample is the latest received or a gap
  lies behind it.
\<close>

definition joined_or_marked :: "('s \<Rightarrow> 's \<Rightarrow> bool) \<Rightarrow> 's list \<Rightarrow> break list \<Rightarrow> bool" where
  "joined_or_marked follows xs bs \<longleftrightarrow>
     (\<forall>i. 0 < i \<longrightarrow> i < length xs \<longrightarrow> follows (xs ! (i - 1)) (xs ! i) \<or> (i, Gap) \<in> set bs)"

definition described :: "('s \<Rightarrow> (f64 \<times> f64) option) \<Rightarrow> 's list \<Rightarrow> break list \<Rightarrow> bool" where
  "described geo xs bs \<longleftrightarrow>
     (\<forall>i < length xs. \<forall>cr. geo (xs ! i) = Some cr \<longrightarrow> (\<exists>g. in_force None bs i = Some g \<and> same_geometry g cr))"

definition attached :: "'s option \<Rightarrow> 's list \<Rightarrow> break list \<Rightarrow> bool" where
  "attached latest xs bs \<longleftrightarrow> (xs \<noteq> [] \<longrightarrow> latest = Some (last xs) \<or> (length xs, Gap) \<in> set bs)"

section \<open>The history of a queue\<close>

context break_sink
begin

definition absolute :: "('s, 'k) break_queue \<Rightarrow> break list" where
  "absolute q = reported q @ shift (produced q) (pending_breaks q)"

text \<open>
  What may happen to a queue, with two ghosts: the samples produced so far, and the last sample
  received when the next one is to follow it. A packet whose first sample does not follow comes
  with a break; inside a packet samples follow one another.
\<close>

inductive history ::
  "('s \<Rightarrow> 's \<Rightarrow> bool) \<Rightarrow> ('s \<Rightarrow> (f64 \<times> f64) option) \<Rightarrow> ('s, 'k) break_queue \<Rightarrow> 's list \<Rightarrow> 's option \<Rightarrow> bool"
  for follows geo where
  opened: "contents k = [] \<Longrightarrow>
    history follows geo \<lparr>sample_buffer = [], sink = Some k, produced = 0, pending_breaks = [],
      epoch_center_hz = None, epoch_rate_hz = None, published_geometry = None\<rparr> [] None"
| received: "history follows geo q out latest \<Longrightarrow>
    broken \<or> xs = [] \<or> latest = None \<or> follows (the latest) (hd xs) \<Longrightarrow> successively follows xs \<Longrightarrow>
    list_all (\<lambda>x. geo x = declared p) xs \<Longrightarrow>
    history follows geo (extend_buffer xs (note_geometry p (if broken then note_break Gap q else q))) out
      (if xs \<noteq> [] then Some (last xs) else if broken then None else latest)"
| interrupted: "history follows geo q out latest \<Longrightarrow> history follows geo (note_break Gap q) out None"
| trimmed: "history follows geo q out latest \<Longrightarrow> n \<le> length (sample_buffer q) \<Longrightarrow>
    history follows geo (trim_buffer n q) out latest"
| cleared: "history follows geo q out latest \<Longrightarrow> history follows geo (clear_buffer q) out None"
| emitted: "history follows geo q out latest \<Longrightarrow>
    history follows geo (snd (emit record_break room q)) (out @ fst (emit record_break room q)) latest"

lemma produced_simps [simp]:
  "produced (note_break c q) = produced q" "produced (note_geometry p q) = produced q"
  "produced (extend_buffer xs q) = produced q" "produced (trim_buffer n q) = produced q"
  "produced (clear_buffer q) = produced q"
  by (simp_all add: note_break_def note_geometry_def extend_buffer_def trim_buffer_def note_trim_def
      clear_buffer_def note_buffer_cleared_def Let_def split: option.split)

lemma sample_buffer_simps [simp]:
  "sample_buffer (note_break c q) = sample_buffer q" "sample_buffer (note_geometry p q) = sample_buffer q"
  "sample_buffer (extend_buffer xs q) = sample_buffer q @ xs" "sample_buffer (trim_buffer n q) = drop n (sample_buffer q)"
  "sample_buffer (clear_buffer q) = []"
  by (simp_all add: note_break_def note_geometry_def extend_buffer_def trim_buffer_def note_trim_def
      clear_buffer_def note_buffer_cleared_def Let_def split: option.split)

lemma emit_simps:
  "fst (emit record_break room q) = take room (sample_buffer q)"
  "sample_buffer (snd (emit record_break room q)) = drop room (sample_buffer q)"
  "produced (snd (emit record_break room q)) = produced q + min (length (sample_buffer q)) room"
  by (simp_all add: emit_def publish_breaks_def Let_def split: option.split prod.split)

lemma queue_ok_opened: "contents k = [] \<Longrightarrow>
    queue_ok \<lparr>sample_buffer = [], sink = Some k, produced = 0, pending_breaks = [],
      epoch_center_hz = None, epoch_rate_hz = None, published_geometry = None\<rparr>"
  by (simp add: queue_ok_def order_ok_def epoch_ok_def reported_def)

lemma history_ok: "history follows geo q out latest \<Longrightarrow> queue_ok q \<and> length out = produced q"
  by (induction rule: history.induct)
    (auto simp: extend_ok note_geometry_ok note_break_ok trim_ok clear_ok emit_ok emit_simps queue_ok_opened)

text \<open>The effect of each operation on the breaks in absolute indices.\<close>

lemma reported_simps [simp]:
  "reported (note_break c q) = reported q" "reported (note_geometry p q) = reported q"
  "reported (extend_buffer xs q) = reported q" "reported (trim_buffer n q) = reported q"
  "reported (clear_buffer q) = reported q"
  by (simp_all add: reported_def note_break_def note_geometry_def extend_buffer_def trim_buffer_def
      note_trim_def clear_buffer_def note_buffer_cleared_def Let_def split: option.split)

definition end_index :: "('s, 'k) break_queue \<Rightarrow> nat" where
  "end_index q = produced q + length (sample_buffer q)"

lemma absolute_bounded: "queue_ok q \<Longrightarrow> b \<in> set (absolute q) \<Longrightarrow> fst b \<le> end_index q"
  by (fastforce simp: absolute_def queue_ok_def order_ok_def end_index_def list_all_iff dest!: in_shift_fst)

lemma note_break_absolute:
  assumes "queue_ok q"
  shows "(k, Gap) \<in> set (absolute (note_break Gap q)) \<longleftrightarrow> (k, Gap) \<in> set (absolute q) \<or> k = end_index q"
    and "in_force g (absolute (note_break Gap q)) i = in_force g (absolute q) i"
proof -
  let ?at = "length (sample_buffer q)"
  have "pending_breaks (note_break Gap q) = pending_breaks q \<and> (?at, Gap) \<in> set (pending_breaks q) \<or>
      pending_breaks (note_break Gap q) = pending_breaks q @ [(?at, Gap)]"
    using assms by (auto simp: note_break_def queue_ok_def Let_def) (metis last_in_set)
  then show "(k, Gap) \<in> set (absolute (note_break Gap q)) \<longleftrightarrow> (k, Gap) \<in> set (absolute q) \<or> k = end_index q"
    "in_force g (absolute (note_break Gap q)) i = in_force g (absolute q) i"
    by (auto simp: absolute_def end_index_def)
qed

lemma note_geometry_absolute:
  assumes "queue_ok q"
  shows "(k, Gap) \<in> set (absolute (note_geometry p q)) \<longleftrightarrow> (k, Gap) \<in> set (absolute q)"
    and "i < end_index q \<Longrightarrow> in_force g (absolute (note_geometry p q)) i = in_force g (absolute q) i"
    and "declared p = Some cr \<Longrightarrow> end_index q \<le> i \<Longrightarrow>
      \<exists>g0. in_force None (absolute (note_geometry p q)) i = Some g0 \<and> same_geometry g0 cr"
proof -
  let ?center = "cfg_center_frequency_hz (sdr_config p)" and ?rate = "cfg_sample_rate_hz (sdr_config p)"
  let ?at = "length (sample_buffer q)"
  have nb: "c \<noteq> Gap \<Longrightarrow> pending_breaks (note_break c q) = pending_breaks q @ [(?at, c)]" for c
    using assms by (auto simp: note_break_def queue_ok_def)
  have pb: "pending_breaks (note_geometry p q) = pending_breaks q \<or>
      (\<exists>c. c \<noteq> Gap \<and> pending_breaks (note_geometry p q) = pending_breaks q @ [(?at, c)])"
    by (auto simp: note_geometry_def nb Let_def split: option.split)
  then show "(k, Gap) \<in> set (absolute (note_geometry p q)) \<longleftrightarrow> (k, Gap) \<in> set (absolute q)"
    by (auto simp: absolute_def)
  show "i < end_index q \<Longrightarrow> in_force g (absolute (note_geometry p q)) i = in_force g (absolute q) i"
    using pb by (auto simp: absolute_def end_index_def)
  assume d: "declared p = Some cr" and i: "end_index q \<le> i"
  let ?q = "note_geometry p q"
  have cr: "cr = (?center, ?rate)" "payload (metadata p) = Iq" "\<not> fle ?rate zero"
    using d by (auto simp: declared_def split: if_splits)
  have ok: "queue_ok ?q" using assms by (rule note_geometry_ok)
  have e: "end_index ?q = end_index q" by (simp add: end_index_def)
  have "in_force None (absolute ?q) i = announce_all (map snd (absolute ?q)) None"
    using absolute_bounded [OF ok] i e by (intro in_force_all) fastforce
  then have f: "epoch_center_hz ?q = map_option fst (in_force None (absolute ?q) i)"
    "epoch_rate_hz ?q = map_option snd (in_force None (absolute ?q) i)"
    using ok by (simp_all add: queue_ok_def epoch_ok_def absolute_def)
  have "\<exists>c0 r0. epoch_center_hz ?q = Some c0 \<and> epoch_rate_hz ?q = Some r0 \<and> same_geometry (c0, r0) (?center, ?rate)"
    using cr(2,3) assms
    by (auto simp: note_geometry_def queue_ok_def Let_def same_geometry.simps same_geometry_self split: option.split)
  then show "\<exists>g0. in_force None (absolute ?q) i = Some g0 \<and> same_geometry g0 cr"
    using f cr(1) by (cases "in_force None (absolute ?q) i") auto
qed

lemma extend_absolute [simp]: "absolute (extend_buffer xs q) = absolute q"
  by (simp add: absolute_def) (simp add: extend_buffer_def)

lemma in_force_retained: "start \<le> i \<Longrightarrow>
    in_force g (shift start (retained n bs)) i = in_force g (shift start bs) (i + n)"
  by (induction bs arbitrary: g) auto

lemma trim_pending: "queue_ok q \<Longrightarrow>
    pending_breaks (trim_buffer n q) = (0, Gap) # retained n (pending_breaks q)"
  by (cases "sink q") (simp_all add: trim_buffer_def note_trim_def retained_def queue_ok_def Let_def)

lemma reported_before: "queue_ok q \<Longrightarrow> b \<in> set (reported q) \<Longrightarrow> fst b < produced q"
  by (simp add: queue_ok_def order_ok_def list_all_iff)

lemma trim_absolute:
  assumes "queue_ok q"
  shows "(produced q, Gap) \<in> set (absolute (trim_buffer n q))"
    and "(k, Gap) \<in> set (absolute q) \<Longrightarrow> k < produced q \<Longrightarrow> (k, Gap) \<in> set (absolute (trim_buffer n q))"
    and "(k + n, Gap) \<in> set (absolute q) \<Longrightarrow> produced q < k \<Longrightarrow> (k, Gap) \<in> set (absolute (trim_buffer n q))"
    and "i < produced q \<Longrightarrow> in_force g (absolute (trim_buffer n q)) i = in_force g (absolute q) i"
    and "produced q \<le> i \<Longrightarrow> in_force g (absolute (trim_buffer n q)) i = in_force g (absolute q) (i + n)"
proof -
  note a = absolute_def trim_pending [OF assms]
  show "(produced q, Gap) \<in> set (absolute (trim_buffer n q))" by (simp add: a)
  show "(k, Gap) \<in> set (absolute q) \<Longrightarrow> k < produced q \<Longrightarrow> (k, Gap) \<in> set (absolute (trim_buffer n q))"
    by (simp add: a)
  show "(k, Gap) \<in> set (absolute (trim_buffer n q))" if "(k + n, Gap) \<in> set (absolute q)" "produced q < k"
  proof -
    have "(k + n, Gap) \<notin> set (reported q)" using reported_before [OF assms, of "(k + n, Gap)"] that(2) by auto
    with that have "(k + n - produced q, Gap) \<in> set (pending_breaks q)" by (simp add: absolute_def)
    with that(2) have "(k - produced q, Gap) \<in> set (retained n (pending_breaks q))"
      by (auto simp: retained_member intro!: exI [of _ "k + n - produced q"])
    with that(2) show ?thesis by (simp add: a)
  qed
  have "in_force h (shift (produced q) bs) i = h" if "i < produced q" for h bs
    using that by (intro in_force_none) (auto dest!: in_shift_fst)
  then show "i < produced q \<Longrightarrow> in_force g (absolute (trim_buffer n q)) i = in_force g (absolute q) i"
    by (simp add: a del: shift_simps)
  have "in_force g (reported q) j = announce_all (map snd (reported q)) g" if "produced q \<le> j" for j
    using that reported_before [OF assms] by (intro in_force_all) fastforce
  then show "produced q \<le> i \<Longrightarrow> in_force g (absolute (trim_buffer n q)) i = in_force g (absolute q) (i + n)"
    by (simp add: a in_force_retained)
qed

lemma clear_absolute:
  assumes "queue_ok q"
  shows "(k, Gap) \<in> set (absolute (clear_buffer q)) \<longleftrightarrow> (k, Gap) \<in> set (reported q) \<or> k = produced q"
    and "i < produced q \<Longrightarrow> in_force g (absolute (clear_buffer q)) i = in_force g (absolute q) i"
proof -
  have p: "pending_breaks (clear_buffer q) = [(0, Gap)]"
    using assms by (cases "sink q") (simp_all add: clear_buffer_def note_buffer_cleared_def queue_ok_def)
  then show "(k, Gap) \<in> set (absolute (clear_buffer q)) \<longleftrightarrow> (k, Gap) \<in> set (reported q) \<or> k = produced q"
    by (auto simp: absolute_def)
  have "in_force h (shift (produced q) bs) i = h" if "i < produced q" for h bs
    using that by (intro in_force_none) (auto dest!: in_shift_fst)
  then show "i < produced q \<Longrightarrow> in_force g (absolute (clear_buffer q)) i = in_force g (absolute q) i"
    by (simp add: absolute_def p)
qed

lemma emit_absolute:
  assumes "queue_ok q"
  shows "k \<noteq> 0 \<Longrightarrow> (k, Gap) \<in> set (absolute (snd (emit record_break room q))) \<longleftrightarrow> (k, Gap) \<in> set (absolute q)"
    and "in_force g (absolute (snd (emit record_break room q))) i = in_force g (absolute q) i"
proof -
  let ?n = "min (length (sample_buffer q)) room"
  let ?q = "q\<lparr>sample_buffer := drop room (sample_buffer q)\<rparr>"
  have e: "snd (emit record_break room q) = publish_breaks record_break ?n ?q" by (simp add: emit_def)
  obtain reports pub left where loop:
    "publish_loop (produced q) ?n (pending_breaks q) (published_geometry q) = (reports, pub, left)"
    by (metis prod.exhaust)
  have s: "sink ?q \<noteq> None" and o: "sorted (map fst (pending_breaks q))"
    using assms by (simp_all add: queue_ok_def order_ok_def)
  note f = publish_breaks_facts [OF s, of ?n reports pub left, simplified, OF loop]
  note order = publish_order [OF loop o]
  have "?n \<le> fst b" if b: "b \<in> set left" for b
  proof -
    obtain x xs where l: "left = x # xs" using b by (cases left) auto
    then have "\<not> fst x < ?n" using order hd_dropWhile [of "\<lambda>b. fst b < ?n" "pending_breaks q"] by auto
    moreover have "sorted (map fst left)"
      using order o by (simp add: sorted_wrt_map sorted_wrt_dropWhile)
    ultimately show ?thesis using b l by auto
  qed
  then have sh: "shift (produced q + ?n) (map (\<lambda>(offset, cause). (offset - ?n, cause)) left) = shift (produced q) left"
    by (force simp: shift_def)
  have a: "absolute (snd (emit record_break room q)) = reported q @ reports @ shift (produced q) left"
    unfolding e absolute_def f sh by simp
  show "k \<noteq> 0 \<Longrightarrow> (k, Gap) \<in> set (absolute (snd (emit record_break room q))) \<longleftrightarrow> (k, Gap) \<in> set (absolute q)"
    using publish_gaps [OF loop, of k] unfolding a by (auto simp: absolute_def)
  show "in_force g (absolute (snd (emit record_break room q))) i = in_force g (absolute q) i"
    using publish_in_force [OF loop, of "in_force g (reported q) i" i] unfolding a by (simp add: absolute_def)
qed

lemma attached_note_break:
  "queue_ok q \<Longrightarrow> length xs = end_index q \<Longrightarrow> attached latest xs (absolute (note_break Gap q))"
  by (simp add: attached_def note_break_absolute(1))

lemma note_break_keeps:
  assumes "queue_ok q" "joined_or_marked follows xs (absolute q)" "described geo xs (absolute q)"
  shows "joined_or_marked follows xs (absolute (note_break Gap q))" "described geo xs (absolute (note_break Gap q))"
  using assms by (auto simp: joined_or_marked_def described_def note_break_absolute)

lemma successively_nth:
  "successively P xs \<Longrightarrow> 0 < i \<Longrightarrow> i < length xs \<Longrightarrow> P (xs ! (i - 1)) (xs ! i)"
proof (induction xs arbitrary: i)
  case (Cons x xs)
  then obtain j where j: "i = Suc j" by (cases i) auto
  with Cons.prems have ne: "xs \<noteq> []" "P x (hd xs)" "successively P xs" by (auto simp: successively_Cons)
  show ?case
  proof (cases j)
    case 0
    with j ne show ?thesis by (simp add: hd_conv_nth)
  next
    case (Suc k)
    with Cons.IH [of j] Cons.prems(3) j ne(3) show ?thesis by simp
  qed
qed simp

lemma receive_keeps:
  assumes "queue_ok q" "length ys = end_index q"
    and "joined_or_marked follows ys (absolute q)" "described geo ys (absolute q)" "attached latest ys (absolute q)"
    and "xs = [] \<or> ys = [] \<or> (length ys, Gap) \<in> set (absolute q) \<or> latest = None \<or> follows (the latest) (hd xs)"
    and "successively follows xs" "list_all (\<lambda>x. geo x = declared p) xs"
  shows "joined_or_marked follows (ys @ xs) (absolute (note_geometry p q))"
    and "described geo (ys @ xs) (absolute (note_geometry p q))"
proof -
  show "joined_or_marked follows (ys @ xs) (absolute (note_geometry p q))"
    unfolding joined_or_marked_def note_geometry_absolute(1) [OF assms(1)]
  proof (intro allI impI)
    fix i assume i: "0 < i" "i < length (ys @ xs)"
    consider "i < length ys" | "i = length ys" | "length ys < i" by linarith
    then show "follows ((ys @ xs) ! (i - 1)) ((ys @ xs) ! i) \<or> (i, Gap) \<in> set (absolute q)"
    proof cases
      case 1
      then have "i - 1 < length ys" by simp
      with 1 assms(3) i show ?thesis by (simp add: joined_or_marked_def nth_append)
    next
      case 2
      with i have ne: "ys \<noteq> []" "xs \<noteq> []" by auto
      then have "(ys @ xs) ! (i - 1) = last ys" "(ys @ xs) ! i = hd xs"
        using 2 by (simp_all add: nth_append last_conv_nth hd_conv_nth)
      with assms(5,6) ne 2 show ?thesis by (auto simp: attached_def)
    next
      case 3
      then have "follows (xs ! (i - length ys - 1)) (xs ! (i - length ys))"
        using i by (intro successively_nth [OF assms(7)]) auto
      moreover have "\<not> i - 1 < length ys" using 3 by simp
      ultimately show ?thesis using 3 by (simp add: nth_append)
    qed
  qed
  show "described geo (ys @ xs) (absolute (note_geometry p q))"
    unfolding described_def
  proof (intro allI impI)
    fix i cr assume i: "i < length (ys @ xs)" and g: "geo ((ys @ xs) ! i) = Some cr"
    show "\<exists>g. in_force None (absolute (note_geometry p q)) i = Some g \<and> same_geometry g cr"
    proof (cases "i < length ys")
      case True
      then have "geo (ys ! i) = Some cr" using g by (simp add: nth_append)
      with True assms(4) have "\<exists>g. in_force None (absolute q) i = Some g \<and> same_geometry g cr"
        unfolding described_def by blast
      with True assms(2) show ?thesis by (simp add: note_geometry_absolute(2) [OF assms(1)])
    next
      case False
      then have "(ys @ xs) ! i \<in> set xs" using i by (simp add: nth_append)
      with assms(8) g have "declared p = Some cr" by (simp add: list_all_iff)
      with False assms(2) show ?thesis by (intro note_geometry_absolute(3) [OF assms(1)]) simp_all
    qed
  qed
qed

lemma trim_keeps:
  assumes "queue_ok q" "length out = produced q" "n \<le> length buffer" "buffer = sample_buffer q"
    and "joined_or_marked follows (out @ buffer) (absolute q)" "described geo (out @ buffer) (absolute q)"
  shows "joined_or_marked follows (out @ drop n buffer) (absolute (trim_buffer n q))"
    and "described geo (out @ drop n buffer) (absolute (trim_buffer n q))"
proof -
  note t = trim_absolute [OF assms(1)]
  have far: "(out @ drop n buffer) ! i = (out @ buffer) ! (i + n)" if "length out \<le> i" for i
    using that assms(3) by (simp add: nth_append add.commute)
  have near: "(out @ drop n buffer) ! i = (out @ buffer) ! i" if "i < length out" for i
    using that by (simp add: nth_append)
  show "joined_or_marked follows (out @ drop n buffer) (absolute (trim_buffer n q))"
    unfolding joined_or_marked_def
  proof (intro allI impI)
    fix i assume i: "0 < i" "i < length (out @ drop n buffer)"
    consider "i < length out" | "i = length out" | "length out < i" by linarith
    then show "follows ((out @ drop n buffer) ! (i - 1)) ((out @ drop n buffer) ! i) \<or>
        (i, Gap) \<in> set (absolute (trim_buffer n q))"
    proof cases
      case 1
      have "follows ((out @ buffer) ! (i - 1)) ((out @ buffer) ! i) \<or> (i, Gap) \<in> set (absolute q)"
        using assms(5) i 1 unfolding joined_or_marked_def by auto
      with 1 assms(2) near t(2) [of i] show ?thesis by auto
    next
      case 2
      with assms(2) t(1) show ?thesis by simp
    next
      case 3
      have "follows ((out @ buffer) ! (i + n - 1)) ((out @ buffer) ! (i + n)) \<or> (i + n, Gap) \<in> set (absolute q)"
        using assms(3,5) i 3 unfolding joined_or_marked_def by auto
      moreover have "i - 1 + n = i + n - 1" using i by simp
      ultimately show ?thesis using 3 assms(2) far [of i] far [of "i - 1"] t(3) [of i n] by auto
    qed
  qed
  show "described geo (out @ drop n buffer) (absolute (trim_buffer n q))"
    unfolding described_def
  proof (intro allI impI)
    fix i cr assume i: "i < length (out @ drop n buffer)" "geo ((out @ drop n buffer) ! i) = Some cr"
    show "\<exists>g. in_force None (absolute (trim_buffer n q)) i = Some g \<and> same_geometry g cr"
    proof (cases "i < length out")
      case True
      then have "i < length (out @ buffer)" "geo ((out @ buffer) ! i) = Some cr" using i near by auto
      with assms(6) have "\<exists>g. in_force None (absolute q) i = Some g \<and> same_geometry g cr"
        unfolding described_def by blast
      with True assms(2) show ?thesis by (simp add: t(4))
    next
      case False
      then have "i + n < length (out @ buffer)" "geo ((out @ buffer) ! (i + n)) = Some cr"
        using i far [of i] assms(3) by auto
      with assms(6) have "\<exists>g. in_force None (absolute q) (i + n) = Some g \<and> same_geometry g cr"
        unfolding described_def by blast
      with False assms(2) show ?thesis by (simp add: t(5))
    qed
  qed
qed

lemma clear_keeps:
  assumes "queue_ok q" "length out = produced q"
    and "joined_or_marked follows (out @ buffer) (absolute q)" "described geo (out @ buffer) (absolute q)"
  shows "joined_or_marked follows out (absolute (clear_buffer q))" "described geo out (absolute (clear_buffer q))"
proof -
  show "joined_or_marked follows out (absolute (clear_buffer q))"
    unfolding joined_or_marked_def clear_absolute(1) [OF assms(1)]
  proof (intro allI impI)
    fix i assume i: "0 < i" "i < length out"
    then have "i - 1 < length out" by simp
    with i assms(3) have "follows (out ! (i - 1)) (out ! i) \<or> (i, Gap) \<in> set (absolute q)"
      unfolding joined_or_marked_def by (auto simp: nth_append dest!: spec [of _ i])
    with i(2) assms(2) show "follows (out ! (i - 1)) (out ! i) \<or> (i, Gap) \<in> set (reported q) \<or> i = produced q"
      by (auto simp: absolute_def)
  qed
  show "described geo out (absolute (clear_buffer q))"
    using assms(2,4) unfolding described_def by (auto simp: clear_absolute(2) [OF assms(1)] nth_append)
qed

lemma history_contract:
  "history follows geo q out latest \<Longrightarrow>
   joined_or_marked follows (out @ sample_buffer q) (absolute q) \<and> described geo (out @ sample_buffer q) (absolute q) \<and>
   attached latest (out @ sample_buffer q) (absolute q)"
proof (induction rule: history.induct)
  case (opened k)
  then show ?case by (simp add: joined_or_marked_def described_def attached_def)
next
  case (received q out latest broken xs p)
  let ?q = "if broken then note_break Gap q else q"
  let ?all = "out @ sample_buffer q"
  note ok = history_ok [OF received.hyps(1)]
  have all: "length ?all = end_index q" "length ?all = end_index ?q" using ok by (simp_all add: end_index_def)
  have q: "queue_ok ?q" using ok by (simp add: note_break_ok)
  have k: "joined_or_marked follows ?all (absolute ?q)" "described geo ?all (absolute ?q)"
    using note_break_keeps received.IH ok by auto
  have at: "attached latest ?all (absolute ?q)"
    using received.IH attached_note_break [of q ?all latest] ok all(1) by auto
  have "xs = [] \<or> ?all = [] \<or> (length ?all, Gap) \<in> set (absolute ?q) \<or> latest = None \<or> follows (the latest) (hd xs)"
    using received.hyps(2) note_break_absolute(1) [of q "length ?all"] ok all(1) by auto
  note r = receive_keeps [OF q all(2) k at this received.hyps(3,4)]
  have "attached (if xs \<noteq> [] then Some (last xs) else if broken then None else latest) (?all @ xs) (absolute (note_geometry p ?q))"
    using at all(1) ok
    by (auto simp: attached_def note_geometry_absolute(1) [OF q] note_break_absolute(1))
  with r show ?case by (cases broken; cases "xs = []") simp_all
next
  case (interrupted q out latest)
  from history_ok [OF interrupted.hyps] have "queue_ok q" "length (out @ sample_buffer q) = end_index q"
    by (simp_all add: end_index_def)
  with note_break_keeps [of q follows "out @ sample_buffer q" geo] attached_note_break [of q "out @ sample_buffer q"] interrupted.IH show ?case
    by simp
next
  case (trimmed q out latest n)
  note ok = history_ok [OF trimmed.hyps(1)]
  have "attached latest (out @ drop n (sample_buffer q)) (absolute (trim_buffer n q))"
  proof (cases "n < length (sample_buffer q)")
    case True
    have "(produced q + (length (sample_buffer q) - n) + n, Gap) \<in> set (absolute q) \<Longrightarrow>
        (produced q + (length (sample_buffer q) - n), Gap) \<in> set (absolute (trim_buffer n q))"
      using ok True by (intro trim_absolute(3)) auto
    moreover have "last (out @ sample_buffer q) = last (sample_buffer q)"
      using True by (cases "sample_buffer q") auto
    ultimately show ?thesis using True trimmed.IH ok by (auto simp: attached_def)
  next
    case False
    with ok trim_absolute(1) [of q n] show ?thesis by (simp add: attached_def)
  qed
  with trim_keeps [of q out n "sample_buffer q" follows geo] trimmed ok show ?case by simp
next
  case (cleared q out latest)
  note ok = history_ok [OF cleared.hyps]
  with clear_keeps [of q out follows "sample_buffer q" geo] cleared.IH clear_absolute(1) [of q] show ?case
    by (simp add: attached_def)
next
  case (emitted q out latest room)
  note ok = history_ok [OF emitted.hyps]
  let ?q = "snd (emit record_break room q)"
  have all: "(out @ fst (emit record_break room q)) @ sample_buffer ?q = out @ sample_buffer q"
    by (simp add: emit_simps)
  have "(k, Gap) \<in> set (absolute ?q) \<longleftrightarrow> (k, Gap) \<in> set (absolute q)" if "k \<noteq> 0" for k
    using emit_absolute(1) ok that by blast
  moreover have "in_force g (absolute ?q) i = in_force g (absolute q) i" for g i
    using emit_absolute(2) ok by blast
  ultimately show ?case
    using emitted.IH unfolding all joined_or_marked_def described_def attached_def
    by (auto simp del: split_paired_All)
qed

text \<open>What holds of everything queued holds of what was produced, by the breaks reported alone.\<close>

lemma history_produced:
  assumes "history follows geo q out latest"
  shows "joined_or_marked follows out (reported q)" "described geo out (reported q)"
proof -
  note ok = history_ok [OF assms]
  note c = history_contract [OF assms]
  have near: "(i, Gap) \<in> set (absolute q) \<longleftrightarrow> (i, Gap) \<in> set (reported q)"
    "in_force None (absolute q) i = in_force None (reported q) i" if "i < length out" for i
  proof -
    have "in_force h (shift (produced q) bs) i = h" for h bs
      using that ok by (intro in_force_none) (auto dest!: in_shift_fst)
    with that ok show "(i, Gap) \<in> set (absolute q) \<longleftrightarrow> (i, Gap) \<in> set (reported q)"
      "in_force None (absolute q) i = in_force None (reported q) i"
      by (auto simp: absolute_def)
  qed
  show "joined_or_marked follows out (reported q)"
    unfolding joined_or_marked_def
  proof (intro allI impI)
    fix i assume i: "0 < i" "i < length out"
    then have "i < length (out @ sample_buffer q)" "(out @ sample_buffer q) ! i = out ! i"
      "(out @ sample_buffer q) ! (i - 1) = out ! (i - 1)" by (auto simp: nth_append)
    with c i near(1) show "follows (out ! (i - 1)) (out ! i) \<or> (i, Gap) \<in> set (reported q)"
      unfolding joined_or_marked_def by metis
  qed
  show "described geo out (reported q)"
    unfolding described_def
  proof (intro allI impI)
    fix i cr assume i: "i < length out" "geo (out ! i) = Some cr"
    then have "i < length (out @ sample_buffer q)" "geo ((out @ sample_buffer q) ! i) = Some cr"
      by (auto simp: nth_append)
    with c i near(2) show "\<exists>g. in_force None (reported q) i = Some g \<and> same_geometry g cr"
      unfolding described_def by metis
  qed
qed

end

section \<open>The contract, at the crate's own sink\<close>

lemma reported_breaks: "sink q \<noteq> None \<Longrightarrow> recording.reported q = recorded_breaks (the (sink q))"
  by (auto simp: recording.reported_def)

lemma history_sink:
  assumes "recording.history follows geo q out latest"
  shows "recording.reported q = recorded_breaks (the (sink q))" "recording.queue_ok q" "length out = produced q"
  using recording.history_ok [OF assms] by (auto simp: recording.queue_ok_def intro: reported_breaks)

text \<open>
  C3: No splice goes unmarked. Wherever two neighbouring samples of the output do not follow one
  another, because the server skipped, a packet was lost, the connection was renewed, the
  buffer was cleared or its oldest samples were trimmed away, a gap is reported at exactly the
  index of the second.
\<close>

theorem no_unmarked_splice:
  assumes "recording.history follows geo q out latest"
    and "0 < i" "i < length out" "\<not> follows (out ! (i - 1)) (out ! i)"
  shows "(i, Gap) \<in> set (recorded_breaks (the (sink q)))"
  using recording.history_produced(1) [OF assms(1)] history_sink(1) [OF assms(1)] assms(2-4)
  unfolding joined_or_marked_def by metis

text \<open>
  C5: Samples mean what was last announced. For every output sample received under a declared
  geometry, the last geometry reported at or before its index is one the code does not tell
  apart from it: centre within one hertz, rate within a tenth.
\<close>

theorem samples_lie_under_announced_geometry:
  assumes "recording.history follows geo q out latest"
    and "i < length out" "geo (out ! i) = Some cr"
  shows "\<exists>g. in_force None (recorded_breaks (the (sink q))) i = Some g \<and> same_geometry g cr"
  using recording.history_produced(2) [OF assms(1)] history_sink(1) [OF assms(1)] assms(2,3)
  unfolding described_def by metis

text \<open>
  Breaks arrive in index order and no index is revisited: at one index at most one gap and
  then at most one geometry. Every break lies inside the samples produced, none is a gap before
  the first sample, and the first geometry reported, and only the first, is an initial one.
\<close>

theorem breaks_in_order:
  assumes "recording.history follows geo q out latest"
  shows "sorted_wrt key_less (recorded_breaks (the (sink q))) \<and>
     (0, Gap) \<notin> set (recorded_breaks (the (sink q))) \<and>
     list_all (\<lambda>b. fst b < length out) (recorded_breaks (the (sink q))) \<and>
     announced False (map snd (recorded_breaks (the (sink q))))"
  using history_sink [OF assms]
  by (simp add: recording.queue_ok_def recording.order_ok_def recording.epoch_ok_def announced_append)

text \<open>
  A reported index is final. Emitting samples only adds reports behind those already made,
  each at an index of the samples being emitted, so no later trim or clear can move one.
\<close>

theorem reports_are_final:
  assumes "recording.history follows geo q out latest"
  shows "\<exists>new. recorded_breaks (the (sink (snd (emit recording_record room q)))) = recorded_breaks (the (sink q)) @ new \<and>
     list_all (\<lambda>b. length out \<le> fst b \<and> fst b < length out + length (fst (emit recording_record room q))) new"
proof -
  have "recording.history follows geo (snd (emit recording_record room q)) (out @ fst (emit recording_record room q)) latest"
    using assms by (rule recording.history.emitted)
  from history_sink [OF this] history_sink [OF assms] recording.emit_reports(1) [of q room] show ?thesis
    by simp
qed

text \<open>A run of two packets with a hole between them, one emission in the middle of the first.\<close>

definition example_run :: "(nat, recording_sink) break_queue" where
  "example_run =
     extend_buffer [7, 8] (note_geometry (stream_packet_new example_metadata []) (note_break Gap
       (snd (emit recording_record 1
         (extend_buffer [1, 2] (note_geometry (stream_packet_new example_metadata [])
           \<lparr>sample_buffer = [], sink = Some recording_new, produced = 0, pending_breaks = [],
            epoch_center_hz = None, epoch_rate_hz = None, published_geometry = None\<rparr>))))))"

definition example_declared :: "nat \<Rightarrow> (f64 \<times> f64) option" where
  "example_declared n = declared (stream_packet_new example_metadata [])"

lemma example_history:
  "recording.history (\<lambda>a b. b = a + 1) example_declared
     (snd (emit recording_record 3 example_run)) [1, 2, 7, 8] (Some 8)"
proof -
  let ?p = "stream_packet_new example_metadata []"
  let ?q0 = "\<lparr>sample_buffer = [], sink = Some recording_new, produced = 0, pending_breaks = [],
    epoch_center_hz = None, epoch_rate_hz = None, published_geometry = None\<rparr> :: (nat, recording_sink) break_queue"
  let ?h = "recording.history (\<lambda>a b. b = a + 1) example_declared"
  have 0: "?h ?q0 [] None" by (rule recording.history.opened) (simp add: recorded_breaks_def recording_new_def)
  have 1: "?h (extend_buffer [1, 2] (note_geometry ?p ?q0)) [] (Some 2)"
    using recording.history.received [OF 0, of False "[1, 2]" ?p] by (simp add: example_declared_def)
  have 2: "?h (snd (emit recording_record 1 (extend_buffer [1, 2] (note_geometry ?p ?q0)))) [1] (Some 2)"
    using recording.history.emitted [OF 1, of 1] by (simp add: recording.emit_simps)
  have 3: "?h example_run [1] (Some 8)"
    using recording.history.received [OF 2, of True "[7, 8]" ?p] by (simp add: example_declared_def example_run_def)
  show ?thesis
    using recording.history.emitted [OF 3, of 3] by (simp add: recording.emit_simps example_run_def)
qed

theorem no_unmarked_splice_witness:
  "(2, Gap) \<in> set (recorded_breaks (the (sink (snd (emit recording_record 3 example_run)))))"
  by (rule no_unmarked_splice [OF example_history]) simp_all

theorem samples_lie_under_announced_geometry_witness:
  "\<exists>g. in_force None (recorded_breaks (the (sink (snd (emit recording_record 3 example_run))))) 3 = Some g \<and>
     same_geometry g (lit B64 4, lit B64 4)"
proof -
  have "declared (stream_packet_new example_metadata []) = Some (lit B64 4, lit B64 4)"
    by (simp add: declared_def stream_packet_new_def from_metadata_def example_metadata_def
        meta_sample_rate_hz_def zero_def lit_def round_simps rnds_def)
  then show ?thesis
    by (intro samples_lie_under_announced_geometry [OF example_history]) (simp_all add: example_declared_def)
qed

theorem breaks_in_order_witness:
  "sorted_wrt key_less (recorded_breaks (the (sink (snd (emit recording_record 3 example_run)))))"
  using breaks_in_order [OF example_history] by blast

theorem reports_are_final_witness:
  "\<exists>new. recorded_breaks (the (sink (snd (emit recording_record 9 (snd (emit recording_record 3 example_run))))))
     = recorded_breaks (the (sink (snd (emit recording_record 3 example_run)))) @ new"
  using reports_are_final [OF example_history, of 9] by blast

end
