(* ===== verification/Capabilities.thy ===== *)
theory Capabilities
  imports Prelude Text Ladder
begin

text \<open>
  \<open>src/src/capabilities.rs\<close>: what a device declares of itself, the bounds of a numeric
  setting, the options of an SDK enumeration and the rates a device can be set to. The string
  splitting of Rust's library that the tree walkers of the endpoints module share is here too.
\<close>

section \<open>Splitting strings\<close>

text \<open>\<open>str::split\<close> at a character: at least one piece, empty pieces kept.\<close>

fun split_char :: "char \<Rightarrow> string \<Rightarrow> string list" where
  "split_char c [] = [[]]"
| "split_char c (x # xs) =
     (if x = c then [] # split_char c xs
      else case split_char c xs of [] \<Rightarrow> [[x]] | p # ps \<Rightarrow> (x # p) # ps)"

text \<open>\<open>split_whitespace\<close>: the non-empty runs between white space.\<close>

function split_whitespace :: "string \<Rightarrow> string list" where
  "split_whitespace s =
     (let s' = dropWhile is_ws s
      in if s' = [] then [] else takeWhile (\<lambda>c. \<not> is_ws c) s' # split_whitespace (dropWhile (\<lambda>c. \<not> is_ws c) s'))"
  by pat_completeness auto
termination
proof (relation "measure length", goal_cases)
  case (2 s s')
  then obtain c cs where "s' = c # cs" "\<not> is_ws c"
    by (metis hd_dropWhile neq_Nil_conv list.sel(1))
  moreover have "length (dropWhile (\<lambda>c. \<not> is_ws c) cs) \<le> length cs" by (rule length_dropWhile_le)
  moreover have "length s' \<le> length s" using 2 by (simp add: length_dropWhile_le)
  ultimately show ?case by simp
qed simp

declare split_whitespace.simps [simp del]

lemma split_char_not_Nil [simp]: "split_char c s \<noteq> []"
  by (induction s) (auto split: list.split)

text \<open>Splitting and joining are inverse; the pieces hold no separator.\<close>

fun join_with :: "char \<Rightarrow> string list \<Rightarrow> string" where
  "join_with c [] = []"
| "join_with c [p] = p"
| "join_with c (p # q # ps) = p @ c # join_with c (q # ps)"

lemma join_split_char: "join_with c (split_char c s) = s"
proof (induction s)
  case (Cons x xs)
  obtain p ps where "split_char c xs = p # ps" by (cases "split_char c xs") auto
  with Cons show ?case by (cases ps) auto
qed simp

lemma split_char_pieces: "p \<in> set (split_char c s) \<Longrightarrow> c \<notin> set p"
  by (induction s arbitrary: p) (auto split: if_splits list.splits)

section \<open>Bounds of a numeric setting\<close>

record value_range =
  vr_min :: f64
  vr_max :: f64
  vr_step :: "f64 option"

definition value_range_new :: "f64 \<Rightarrow> f64 \<Rightarrow> f64 \<Rightarrow> value_range option" where
  "value_range_new lo hi step =
     (if is_finite lo \<and> is_finite hi \<and> fle lo hi
      then Some \<lparr>vr_min = lo, vr_max = hi,
                 vr_step = (if is_finite step \<and> flt zero step then Some step else None)\<rparr>
      else None)"

definition value_range_contains :: "value_range \<Rightarrow> f64 \<Rightarrow> bool" where
  "value_range_contains r v = (is_finite v \<and> fle (vr_min r) v \<and> fle v (vr_max r))"

section \<open>Options of an enumeration\<close>

record config_option =
  opt_index :: nat
  opt_label :: string
  opt_enabled :: bool

definition sdk_options :: "string \<Rightarrow> 64 word \<Rightarrow> config_option list" where
  "sdk_options labels disabled =
     List.map_filter (\<lambda>(index, label).
       let label = str_trim label
       in if label = [] then None
          else Some \<lparr>opt_index = index, opt_label = label,
                     opt_enabled = (64 \<le> index \<or> and disabled (push_bit index 1) = 0)\<rparr>)
       (enumerate 0 (split_char CHR '';'' labels))"

section \<open>The device\<close>

record native_receiver_options =
  nro_family :: "string option"
  nro_mode :: "string option"
  nro_rf_span_hz :: "f64 option"
  nro_receiver_clock :: "string option"
  decimation_factor :: "nat option"

record device_capabilities =
  transport :: "string option"
  device_mode :: "string option"
  sdk_version :: "nat option"
  rf_span_hz :: "value_range option"
  receiver_clocks :: "config_option list"
  receiver_clock :: "string option"
  receiver_channels :: "config_option list"
  decimations :: "config_option list"
  model :: "string option"
  serial :: "string option"
  version :: "string option"
  center_frequency_range :: "value_range option"
  reference_level_range :: "value_range option"
  decimation_steps :: "nat option"
  native_iq_rate_hz :: "f64 option"
  clock_sources :: "string list"
  clock_source :: "string option"
  gps_modes :: "string list"
  gps_mode :: "string option"
  rx_antenna :: "string option"

definition capabilities_default :: device_capabilities where
  "capabilities_default =
     \<lparr>transport = None, device_mode = None, sdk_version = None, rf_span_hz = None, receiver_clocks = [],
      receiver_clock = None, receiver_channels = [], decimations = [], model = None, serial = None,
      version = None, center_frequency_range = None, reference_level_range = None, decimation_steps = None,
      native_iq_rate_hz = None, clock_sources = [], clock_source = None, gps_modes = [], gps_mode = None,
      rx_antenna = None\<rparr>"

definition sample_rates :: "device_capabilities \<Rightarrow> (f64 list) option" where
  "sample_rates caps =
     Option.bind (native_iq_rate_hz caps) (\<lambda>rate.
     Option.bind (snap_to_ladder_top rate) (\<lambda>ladder_top.
     Option.bind (decimation_steps caps) (\<lambda>steps.
       if steps = 0 then None else Some (iq_ladder_from_top_n ladder_top steps))))"

section \<open>Positions are kept\<close>

lemma masked_bit: "i < 64 \<Longrightarrow> (and w (push_bit i (1 :: 64 word)) = 0) = (\<not> bit w i)"
  by (metis (mono_tags, lifting) and_exp_eq_0_iff_not_bit push_bit_of_1)

lemma option_positions:
  fixes f :: "nat \<Rightarrow> 'a \<Rightarrow> 'b option"
  shows "y \<in> set (List.map_filter (\<lambda>(i, x). f i x) (enumerate 0 xs)) \<longleftrightarrow> (\<exists>i < length xs. f i (xs ! i) = Some y)"
proof -
  have "set (List.map_filter g zs) = {y. \<exists>z \<in> set zs. g z = Some y}" for g :: "nat \<times> 'a \<Rightarrow> 'b option" and zs
    by (induction zs) (auto simp: map_filter_simps split: option.split)
  moreover have "set (enumerate 0 xs) = {(i, x). i < length xs \<and> x = xs ! i}"
    by (auto simp: in_set_enumerate_eq)
  ultimately show ?thesis by auto
qed

text \<open>
  The options of an SDK enumeration keep the positions the device counts: option \<open>n\<close> is
  listed exactly when the label at position \<open>n\<close> of the raw list is not blank, under that
  label without its padding, enabled exactly when bit \<open>n\<close> of the device's mask is clear, and a
  position the 64-bit mask cannot reach is never taken for masked.
\<close>

theorem sdk_options_keep_positions:
  "opt \<in> set (sdk_options labels disabled) \<longleftrightarrow>
     opt_index opt < length (split_char CHR '';'' labels) \<and>
     opt_label opt = str_trim (split_char CHR '';'' labels ! opt_index opt) \<and> opt_label opt \<noteq> [] \<and>
     opt_enabled opt = (\<not> bit disabled (opt_index opt))"
proof -
  have bits: "(64 \<le> i \<or> and disabled (push_bit i 1) = 0) = (\<not> bit disabled i)" for i
  proof (cases "i < 64")
    case True
    with masked_bit [of i disabled] show ?thesis by simp
  next
    case False
    then have "\<not> bit disabled i" using bit_imp_le_length [of disabled i] by auto
    with False show ?thesis by simp
  qed
  have e: "(let label = str_trim l in if label = [] then None
      else Some \<lparr>opt_index = i, opt_label = label, opt_enabled = (64 \<le> i \<or> and disabled (push_bit i 1) = 0)\<rparr>) = Some opt
    \<longleftrightarrow> i = opt_index opt \<and> opt_label opt = str_trim l \<and> opt_label opt \<noteq> [] \<and> opt_enabled opt = (\<not> bit disabled i)" for l i
    unfolding bits Let_def by (cases opt) auto
  show ?thesis
    unfolding sdk_options_def option_positions e by blast
qed

end
