(* ===== verification/Config_Tree.thy ===== *)
theory Config_Tree
  imports Capabilities
begin

text \<open>
  The configuration tree of \<open>src/src/http_endpoints.rs\<close>: the typed tree (\<open>ConfigItem\<close>) with the
  health, sensor and capability readings taken from it, and the untyped tree of the block
  discovery. Of an untyped JSON value the walkers only ever read the field \<open>name\<close> as a string,
  \<open>items\<close> as an array and \<open>value\<close> as a number, and a node keeps those three.
\<close>

section \<open>The typed tree\<close>

datatype config_item =
    Group string string string "config_item list"
  | Bool string string string bool bool "string option" "string option"
  | Number string string string f64 f64 "f64 option" "f64 option" "f64 option" "string option"
  | Float string string string f64 f64 "f64 option" "f64 option" "f64 option" "string option"
  | Integer string string string int int "int option" "int option" "int option" "string option"
  | String string string string string string "string option"
  | Enum string string string int int string int
  | Button string string string
  | FrequencyProfiles string string string "(string list) option"

type_synonym health_status = config_item

fun find_map :: "('a \<Rightarrow> 'b option) \<Rightarrow> 'a list \<Rightarrow> 'b option" where
  "find_map f [] = None"
| "find_map f (x # xs) = (case f x of Some y \<Rightarrow> Some y | None \<Rightarrow> find_map f xs)"

lemma find_map_cong [fundef_cong]:
  "xs = ys \<Longrightarrow> (\<And>x. x \<in> set ys \<Longrightarrow> f x = g x) \<Longrightarrow> find_map f xs = find_map g ys"
  by (induction xs arbitrary: ys) (auto split: option.split)

fun item_name :: "config_item \<Rightarrow> string option" where
  "item_name (Group n l f items) = Some n"
| "item_name (Bool n l f v d off on) = Some n"
| "item_name (Number n l f v d lo hi st u) = Some n"
| "item_name (Float n l f v d lo hi st u) = Some n"
| "item_name (Integer n l f v d lo hi st u) = Some n"
| "item_name (String n l f v d p) = Some n"
| "item_name (Enum n l f v d vs dis) = Some n"
| "item_name (Button n l f) = Some n"
| "item_name (FrequencyProfiles n l f ps) = Some n"

fun number_item :: "string \<Rightarrow> config_item \<Rightarrow> f64 option" where
  "number_item want (Float n l f v d lo hi st u) = (if n = want then Some v else None)"
| "number_item want (Number n l f v d lo hi st u) = (if n = want then Some v else None)"
| "number_item want (Integer n l f v d lo hi st u) = (if n = want then Some (of_int_fl B64 v) else None)"
| "number_item want other = None"

definition number_named :: "config_item list \<Rightarrow> string \<Rightarrow> f64 option" where
  "number_named items want = find_map (number_item want) items"

fun string_item :: "string \<Rightarrow> config_item \<Rightarrow> string option" where
  "string_item want (String n l f v d p) = (if n = want then Some v else None)"
| "string_item want other = None"

definition string_named :: "config_item list \<Rightarrow> string \<Rightarrow> string option" where
  "string_named items want = find_map (string_item want) items"

fun find_group :: "config_item \<Rightarrow> string \<Rightarrow> (config_item list) option" where
  "find_group (Group n l f items) want =
     (if n = want then Some items else find_map (\<lambda>child. find_group child want) items)"
| "find_group other want = None"

fun carries :: "config_item \<Rightarrow> string \<Rightarrow> bool" where
  "carries (Group n l f items) marker = list_ex (\<lambda>c. carries c marker) items"
| "carries other marker = (item_name other = Some marker)"

fun is_group :: "config_item \<Rightarrow> bool" where
  "is_group (Group n l f items) = True"
| "is_group other = False"

fun device_block :: "config_item \<Rightarrow> string \<Rightarrow> config_item" where
  "device_block (Group n l f items) marker =
     (case List.find (\<lambda>child. is_group child \<and> carries child marker) items of
        Some block \<Rightarrow> block
      | None \<Rightarrow> Group n l f items)"
| "device_block tree marker = tree"

fun range_of :: "config_item \<Rightarrow> string \<Rightarrow> value_range option" where
  "range_of (Group n l f items) want = find_map (\<lambda>c. range_of c want) items"
| "range_of (Float n l f v d lo hi step u) want =
     (if n = want
      then Option.bind lo (\<lambda>lo. Option.bind hi (\<lambda>hi.
             if is_finite lo \<and> is_finite hi \<and> flt lo hi
             then Some \<lparr>vr_min = lo, vr_max = hi, vr_step = step\<rparr> else None))
      else None)"
| "range_of (Number n l f v d lo hi step u) want =
     (if n = want
      then Option.bind lo (\<lambda>lo. Option.bind hi (\<lambda>hi.
             if is_finite lo \<and> is_finite hi \<and> flt lo hi
             then Some \<lparr>vr_min = lo, vr_max = hi, vr_step = step\<rparr> else None))
      else None)"
| "range_of other want = None"

text \<open>One enumeration: the options the device accepts, and the one its value selects.\<close>

definition enum_reading :: "string \<Rightarrow> int \<Rightarrow> int \<Rightarrow> string list \<times> string option" where
  "enum_reading values value disabled =
     (let raw = map str_trim (split_char CHR '','' values);
          selected = (if 0 \<le> value \<and> nat value < length raw \<and> raw ! nat value \<noteq> []
                      then Some (raw ! nat value) else None);
          options = map snd (filter (\<lambda>(i, v).
            let masked = (i < 64 \<and> and (word_of_int disabled :: 64 word) (push_bit i 1) \<noteq> 0)
            in v \<noteq> [] \<and> \<not> masked) (enumerate 0 raw))
      in (options, selected))"

fun visit_enum :: "config_item \<Rightarrow> string \<Rightarrow> (string list \<times> string option) option" where
  "visit_enum (Group n l f items) want = find_map (\<lambda>c. visit_enum c want) items"
| "visit_enum (Enum n l f value d values disabled) want =
     (if n = want then Some (enum_reading values value disabled) else None)"
| "visit_enum other want = None"

definition enum_options :: "config_item \<Rightarrow> string \<Rightarrow> string list \<times> string option" where
  "enum_options item want = (case visit_enum item want of Some r \<Rightarrow> r | None \<Rightarrow> ([], None))"

fun walk_value :: "config_item \<Rightarrow> string \<Rightarrow> f64 option" where
  "walk_value (Group n l f items) target = find_map (\<lambda>i. walk_value i target) items"
| "walk_value (Float n l f v d lo hi st u) target = (if n = target then Some v else None)"
| "walk_value (Number n l f v d lo hi st u) target = (if n = target then Some v else None)"
| "walk_value other target = None"

definition extract_parameter_value :: "config_item \<Rightarrow> string \<Rightarrow> f64 result" where
  "extract_parameter_value config parameter_path =
     (case walk_value config (str_trim (last (split_char CHR ''/'' parameter_path))) of
        Some v \<Rightarrow> Ok v
      | None \<Rightarrow> Err (Protocol ''Parameter ''))"

section \<open>Health and sensors\<close>

definition LOSS_RATE_THRESHOLD :: f64 where "LOSS_RATE_THRESHOLD = lit B64 (1 / 2)"

record device_health_summary =
  health_block :: string
  device_state_word :: "string option"
  dh_errors_per_second :: "f64 option"
  dh_usb_overflows_per_second :: "f64 option"
  dh_dsp_overflows_per_second :: "f64 option"

fun group_named :: "string \<Rightarrow> config_item \<Rightarrow> (config_item list) option" where
  "group_named want (Group n l f items) = (if n = want then Some items else None)"
| "group_named want other = None"

definition child_group :: "(config_item list) option \<Rightarrow> string \<Rightarrow> (config_item list) option" where
  "child_group block want = Option.bind block (\<lambda>items. find_map (group_named want) items)"

definition summary_of :: "string \<Rightarrow> config_item list \<Rightarrow> device_health_summary" where
  "summary_of name status =
     \<lparr>health_block = name, device_state_word = string_named status ''devstate'',
      dh_errors_per_second = number_named status ''errors'',
      dh_usb_overflows_per_second = number_named status ''usboverflows'',
      dh_dsp_overflows_per_second = number_named status ''dsboverflows''\<rparr>"

fun collect_health :: "config_item \<Rightarrow> device_health_summary list" where
  "collect_health (Group n l f items) =
     (case find_map (group_named ''status'') items of
        Some status \<Rightarrow> [summary_of n status]
      | None \<Rightarrow> []) @ concat (map collect_health items)"
| "collect_health other = []"

definition from_health_status :: "health_status \<Rightarrow> device_health_summary list" where
  "from_health_status health = collect_health health"

definition losing_nothing :: "device_health_summary \<Rightarrow> bool option" where
  "losing_nothing d =
     (let counters = [dh_errors_per_second d, dh_usb_overflows_per_second d, dh_dsp_overflows_per_second d]
      in if list_all (\<lambda>c. c = None) counters then None
         else Some (list_all (\<lambda>rate. flt rate LOSS_RATE_THRESHOLD) (List.map_filter (\<lambda>c. c) counters)))"

record device_sensors =
  fpga_temp_c :: "f64 option"
  frontend_temp_c :: "f64 option"
  board_power_w :: "f64 option"
  adc_range_db :: "f64 option"
  usb_buffer_fill :: "f64 option"
  dsp_buffer_fill :: "f64 option"
  ds_errors_per_second :: "f64 option"
  ds_usb_overflows_per_second :: "f64 option"
  ds_dsp_overflows_per_second :: "f64 option"
  gps_satellites :: "f64 option"
  gps_latitude :: "f64 option"
  gps_longitude :: "f64 option"

fun block_with_status :: "config_item \<Rightarrow> (config_item list) option" where
  "block_with_status (Group n l f items) =
     (if list_ex (\<lambda>child. group_named ''status'' child \<noteq> None) items then Some items
      else find_map block_with_status items)"
| "block_with_status other = None"

definition sensors_from_health_status :: "health_status \<Rightarrow> device_sensors" where
  "sensors_from_health_status health =
     (let block = block_with_status health;
          status = child_group block ''status'';
          health_grp = child_group block ''health'';
          pick = (\<lambda>group key. Option.bind group (\<lambda>items. number_named items key))
      in \<lparr>fpga_temp_c = pick health_grp ''fpgatemp'', frontend_temp_c = pick health_grp ''fronttemp'',
          board_power_w = pick health_grp ''boardpower'', adc_range_db = pick status ''adcrange'',
          usb_buffer_fill = pick status ''usbbuffer'', dsp_buffer_fill = pick status ''dspbuffer'',
          ds_errors_per_second = pick status ''errors'',
          ds_usb_overflows_per_second = pick status ''usboverflows'',
          ds_dsp_overflows_per_second = pick status ''dsboverflows'',
          gps_satellites = pick status ''satellites'', gps_latitude = pick status ''gpslatitude'',
          gps_longitude = pick status ''gpslongitude''\<rparr>)"

section \<open>Capabilities\<close>

definition from_config_tree :: "config_item \<Rightarrow> device_capabilities \<Rightarrow> device_capabilities" where
  "from_config_tree config caps =
     (let steps = length (fst (enum_options config ''decimation0''));
          block = device_block config ''centerfreq0'';
          (sources, selected) = enum_options config ''sclksource'';
          (modes, mode) = enum_options config ''gpsmode''
      in caps\<lparr>center_frequency_range := range_of config ''centerfreq0'',
              reference_level_range := range_of config ''reflevel0'',
              decimation_steps := (if steps = 0 then None else Some steps),
              model := Option.bind (find_group block ''info'') (\<lambda>i. string_named i ''title''),
              clock_sources := sources, clock_source := selected, gps_modes := modes, gps_mode := mode,
              rx_antenna := Option.bind (snd (enum_options config ''devicemode''))
                (\<lambda>mode. List.find (\<lambda>token. starts_with token ''RX'') (split_whitespace mode))\<rparr>)"

definition from_health_tree :: "health_status \<Rightarrow> device_capabilities \<Rightarrow> device_capabilities" where
  "from_health_tree tree caps =
     (let health = device_block tree ''devstate'';
          info = find_group health ''info'';
          named = Option.bind info (\<lambda>i. string_named i ''devname'')
      in caps\<lparr>model := (case named of Some name \<Rightarrow> Some name | None \<Rightarrow> model caps),
              serial := Option.bind info (\<lambda>i. string_named i ''serialno''),
              version := Option.bind info (\<lambda>i. string_named i ''version''),
              native_iq_rate_hz := Option.bind (find_group health ''status'') (\<lambda>s. number_named s ''iqsamples'')\<rparr>)"

definition from_trees :: "config_item option \<Rightarrow> health_status option \<Rightarrow> device_capabilities" where
  "from_trees config health =
     (let caps = capabilities_default\<lparr>transport := Some ''http''\<rparr>;
          caps' = (case config of Some c \<Rightarrow> from_config_tree c caps | None \<Rightarrow> caps)
      in case health of Some h \<Rightarrow> from_health_tree h caps' | None \<Rightarrow> caps')"

section \<open>The untyped tree\<close>

datatype json_node = Node (node_name: "string option") (node_items: "(json_node list) option") (node_value: "f64 option")

fun find_config_item_by_name_prefix :: "json_node list \<Rightarrow> string \<Rightarrow> string option" where
  "find_config_item_by_name_prefix [] prefix = None"
| "find_config_item_by_name_prefix (Node name items value # rest) prefix =
     (case name of
        Some n \<Rightarrow>
          if starts_with n prefix then Some n
          else (case Option.bind items (\<lambda>nested. find_config_item_by_name_prefix nested prefix) of
                  Some found \<Rightarrow> Some found
                | None \<Rightarrow> find_config_item_by_name_prefix rest prefix)
      | None \<Rightarrow>
          (case Option.bind items (\<lambda>nested. find_config_item_by_name_prefix nested prefix) of
             Some found \<Rightarrow> Some found
           | None \<Rightarrow> find_config_item_by_name_prefix rest prefix))"

definition next_block :: "string option \<Rightarrow> string option \<Rightarrow> string option" where
  "next_block name enclosing =
     (case name of Some n \<Rightarrow> if starts_with n ''Block_'' then Some n else enclosing | None \<Rightarrow> enclosing)"

fun find_block_name_carrying_field :: "json_node list \<Rightarrow> string \<Rightarrow> string option \<Rightarrow> string option" where
  "find_block_name_carrying_field [] field enclosing = None"
| "find_block_name_carrying_field (Node name items value # rest) field enclosing =
     (if name = Some field \<and> enclosing \<noteq> None then enclosing
      else case Option.bind items (\<lambda>nested. find_block_name_carrying_field nested field (next_block name enclosing)) of
             Some found \<Rightarrow> Some found
           | None \<Rightarrow> find_block_name_carrying_field rest field enclosing)"

fun find_group_items :: "json_node list \<Rightarrow> string \<Rightarrow> (json_node list) option" where
  "find_group_items [] wanted = None"
| "find_group_items (Node name items value # rest) wanted =
     (if name = Some wanted then items
      else case Option.bind items (\<lambda>nested. find_group_items nested wanted) of
             Some found \<Rightarrow> Some found
           | None \<Rightarrow> find_group_items rest wanted)"

fun read_config_leaf_value :: "json_node list \<Rightarrow> string \<Rightarrow> f64 option" where
  "read_config_leaf_value [] field = None"
| "read_config_leaf_value (Node name items value # rest) field =
     (if name = Some field then value
      else case Option.bind items (\<lambda>nested. read_config_leaf_value nested field) of
             Some found \<Rightarrow> Some found
           | None \<Rightarrow> read_config_leaf_value rest field)"

section \<open>The walks in the order of the tree\<close>

lemma find_map_append: "find_map f (xs @ ys) = (case find_map f xs of Some y \<Rightarrow> Some y | None \<Rightarrow> find_map f ys)"
  by (induction xs) (auto split: option.split)

lemma find_map_concat: "find_map f (concat xss) = find_map (find_map f) xss"
  by (induction xss) (auto simp: find_map_append split: option.split)

lemma find_map_None: "find_map f xs = None \<longleftrightarrow> (\<forall>x \<in> set xs. f x = None)"
  by (induction xs) (auto split: option.split)

lemma find_map_Some: "find_map f xs = Some y \<Longrightarrow> \<exists>x \<in> set xs. f x = Some y"
  by (induction xs) (auto split: option.splits)

lemma find_map_filter: "find_map f xs = (case List.map_filter f xs of [] \<Rightarrow> None | y # ys \<Rightarrow> Some y)"
  by (induction xs) (auto simp: map_filter_simps split: option.split)

lemma find_map_map: "find_map f (map g xs) = find_map (f \<circ> g) xs"
  by (induction xs) (auto split: option.split)

text \<open>Every node of a tree before its children, each with the nearest block that encloses it.\<close>

fun preorder :: "json_node list \<Rightarrow> string option \<Rightarrow> (string option \<times> string option) list" where
  "preorder [] enclosing = []"
| "preorder (Node name items value # rest) enclosing =
     (name, enclosing) #
     (case items of None \<Rightarrow> [] | Some nested \<Rightarrow> preorder nested (next_block name enclosing)) @ preorder rest enclosing"

lemma preorder_blocks:
  "list_all (\<lambda>(name, block). block = enclosing \<or> (case block of Some b \<Rightarrow> starts_with b ''Block_'' | None \<Rightarrow> False))
     (preorder items enclosing)"
proof (induction items enclosing rule: preorder.induct)
  case (2 name items v rest enclosing)
  have "next_block name enclosing = enclosing \<or>
      (case next_block name enclosing of Some b \<Rightarrow> starts_with b ''Block_'' | None \<Rightarrow> False)"
    by (auto simp: next_block_def split: option.split)
  with 2 show ?case
    by (cases items) (auto simp: list_all_iff split: option.splits)
qed simp


text \<open>Where blocks nest it is the innermost that is found.\<close>

lemma nested_block_innermost:
  "find_block_name_carrying_field
     [Node (Some ''Block_Outer'') (Some [Node (Some ''Block_Inner'') (Some [Node (Some field) None v]) None]) None]
     field None = (if field = ''Block_Inner'' then Some ''Block_Outer'' else Some ''Block_Inner'')"
  by (auto simp: next_block_def starts_with_def)

section \<open>Enumerations\<close>

lemma filter_enumerate: "map snd (filter (\<lambda>(i, v). P i v) (enumerate 0 xs)) = map (nth xs) (filter (\<lambda>i. P i (xs ! i)) [0..<length xs])"
proof (induction xs rule: rev_induct)
  case (snoc x xs)
  have "filter (\<lambda>i. P i ((xs @ [x]) ! i)) [0..<length xs] = filter (\<lambda>i. P i (xs ! i)) [0..<length xs]"
    by (rule filter_cong) (auto simp: nth_append)
  with snoc show ?case by (simp add: enumerate_append_eq) (auto simp: nth_append)
qed simp

text \<open>
  What an enumeration selects is read at the position its value counts, blank entries
  included, and what it offers is every non-blank entry at a position the device's mask leaves
  open; so an accepted selection is always among the options.
\<close>

theorem enumeration_read_by_position:
  "fst (enum_reading values value disabled) =
     map (\<lambda>i. str_trim (split_char CHR '','' values ! i))
       (filter (\<lambda>i. str_trim (split_char CHR '','' values ! i) \<noteq> [] \<and> \<not> bit (word_of_int disabled :: 64 word) i)
         [0..<length (split_char CHR '','' values)]) \<and>
   (snd (enum_reading values value disabled) = None \<or>
    snd (enum_reading values value disabled) = Some (str_trim (split_char CHR '','' values ! nat value)) \<and>
    (bit (word_of_int disabled :: 64 word) (nat value) \<or>
     the (snd (enum_reading values value disabled)) \<in> set (fst (enum_reading values value disabled))))"
proof -
  let ?raw = "split_char CHR '','' values" and ?mask = "word_of_int disabled :: 64 word"
  have bits: "(i < 64 \<and> and ?mask (push_bit i 1) \<noteq> 0) = bit ?mask i" for i
    using masked_bit [of i ?mask] bit_imp_le_length [of ?mask i] by auto
  have "fst (enum_reading values value disabled) =
      map snd (filter (\<lambda>(i, v). v \<noteq> [] \<and> \<not> bit ?mask i) (enumerate 0 (map str_trim ?raw)))"
    unfolding enum_reading_def Let_def bits by simp
  also have "\<dots> = map (nth (map str_trim ?raw)) (filter (\<lambda>i. map str_trim ?raw ! i \<noteq> [] \<and> \<not> bit ?mask i) [0..<length ?raw])"
    by (simp add: filter_enumerate)
  also have "\<dots> = map (\<lambda>i. str_trim (?raw ! i)) (filter (\<lambda>i. str_trim (?raw ! i) \<noteq> [] \<and> \<not> bit ?mask i) [0..<length ?raw])"
    by (intro map_cong filter_cong) auto
  finally have options: "fst (enum_reading values value disabled) =
      map (\<lambda>i. str_trim (?raw ! i)) (filter (\<lambda>i. str_trim (?raw ! i) \<noteq> [] \<and> \<not> bit ?mask i) [0..<length ?raw])" .
  show ?thesis
    unfolding options by (auto simp: enum_reading_def Let_def)
qed

section \<open>Health\<close>

text \<open>Every group of a tree, parents first, with its items.\<close>

fun groups :: "config_item \<Rightarrow> (string \<times> config_item list) list" where
  "groups (Group n l f items) = (n, items) # concat (map groups items)"
| "groups other = []"

definition status_of :: "string \<times> config_item list \<Rightarrow> (config_item list) option" where
  "status_of g = find_map (group_named ''status'') (snd g)"

lemma collect_health_groups:
  "collect_health item = List.map_filter (\<lambda>g. map_option (summary_of (fst g)) (status_of g)) (groups item)"
proof (induction item rule: collect_health.induct)
  case (1 n l f items)
  have "List.map_filter h (concat xss) = concat (map (List.map_filter h) xss)" for h :: "string \<times> config_item list \<Rightarrow> device_health_summary option" and xss
    by (induction xss) (auto simp: map_filter_def)
  with 1 show ?case
    by (simp add: map_filter_simps status_of_def o_def cong: map_cong split: option.split)
qed (simp_all add: map_filter_simps)

lemma block_with_status_groups:
  "block_with_status item = find_map (\<lambda>g. if status_of g = None then None else Some (snd g)) (groups item)"
proof (induction item rule: block_with_status.induct)
  case (1 n l f items)
  have "list_ex (\<lambda>child. group_named ''status'' child \<noteq> None) items \<longleftrightarrow> find_map (group_named ''status'') items \<noteq> None"
    by (auto simp: list_ex_iff find_map_None)
  with 1 show ?case
    by (simp add: status_of_def find_map_concat find_map_map o_def cong: find_map_cong)
qed simp_all

text \<open>
  The sensors and the loss report speak of the same block: the sensor reading's loss
  counters are those of the first block, parents before children, that publishes a status, which
  is the first of the reported summaries; without one both are empty. Its temperatures come from
  that block too, never from another block's health group.
\<close>

theorem sensors_are_the_first_reported_block:
  "case from_health_status health of
     [] \<Rightarrow> sensors_from_health_status health =
         \<lparr>fpga_temp_c = None, frontend_temp_c = None, board_power_w = None, adc_range_db = None,
          usb_buffer_fill = None, dsp_buffer_fill = None, ds_errors_per_second = None,
          ds_usb_overflows_per_second = None, ds_dsp_overflows_per_second = None, gps_satellites = None,
          gps_latitude = None, gps_longitude = None\<rparr>
   | d # ds \<Rightarrow>
       ds_errors_per_second (sensors_from_health_status health) = dh_errors_per_second d \<and>
       ds_usb_overflows_per_second (sensors_from_health_status health) = dh_usb_overflows_per_second d \<and>
       ds_dsp_overflows_per_second (sensors_from_health_status health) = dh_dsp_overflows_per_second d \<and>
       list_ex (\<lambda>(name, items). name = health_block d \<and>
         fpga_temp_c (sensors_from_health_status health) =
           Option.bind (find_map (group_named ''health'') items) (\<lambda>hs. number_named hs ''fpgatemp''))
         (groups health)"
proof (cases "find_map (\<lambda>g. if status_of g = None then None else Some g) (groups health)")
  case None
  then have none: "\<forall>g \<in> set (groups health). status_of g = None"
    by (auto simp: find_map_None split: if_splits)
  then have "from_health_status health = []" "block_with_status health = None"
    by (auto simp: from_health_status_def collect_health_groups block_with_status_groups find_map_None
        map_filter_def filter_empty_conv)
  then show ?thesis by (simp add: sensors_from_health_status_def child_group_def Let_def)
next
  case (Some g)
  then obtain st where g: "g \<in> set (groups health)" "status_of g = Some st"
    by (auto dest!: find_map_Some split: if_splits)
  have "find_map (\<lambda>g. if status_of g = None then None else Some (snd g)) gs = Some (snd g) \<and>
      (\<exists>ds. List.map_filter (\<lambda>g. map_option (summary_of (fst g)) (status_of g)) gs = summary_of (fst g) st # ds)"
    if "find_map (\<lambda>g. if status_of g = None then None else Some g) gs = Some g" for gs
    using that g(2) by (induction gs) (auto simp: map_filter_simps split: if_splits option.splits)
  from this [OF Some] obtain ds where d: "from_health_status health = summary_of (fst g) st # ds"
    and b: "block_with_status health = Some (snd g)"
    by (auto simp: from_health_status_def collect_health_groups block_with_status_groups)
  have "find_map (group_named ''status'') (snd g) = Some st" using g(2) by (simp add: status_of_def)
  with b g(1) show ?thesis
    unfolding d by (cases g) (auto simp: sensors_from_health_status_def child_group_def summary_of_def Let_def list_ex_iff
        intro!: bexI [of _ g])
qed

section \<open>The receiver's block\<close>

lemma range_of_carries: "range_of item want = Some r \<Longrightarrow> carries item want"
proof (induction item want rule: range_of.induct)
  case (1 n l f items want)
  then show ?case by (auto simp: list_ex_iff dest!: find_map_Some)
qed (auto split: if_splits)

text \<open>
  A mission's other blocks do not stand in for the receiver. Whatever blocks the server
  lists before the one that carries the centre frequency, the model is read from that block's
  own information, and the centre's bounds are that block's when it declares usable ones.
\<close>

theorem capabilities_from_the_receiver:
  assumes "is_group receiver" "carries receiver ''centerfreq0''"
    and "list_all (\<lambda>c. \<not> carries c ''centerfreq0'') before"
  shows "model (from_trees (Some (Group n l f (before @ receiver # after))) None) =
       Option.bind (find_group receiver ''info'') (\<lambda>i. string_named i ''title'') \<and>
     (range_of receiver ''centerfreq0'' = None \<or>
      center_frequency_range (from_trees (Some (Group n l f (before @ receiver # after))) None) =
        range_of receiver ''centerfreq0'')"
proof -
  have "List.find (\<lambda>child. is_group child \<and> carries child ''centerfreq0'') (before @ receiver # after) = Some receiver"
    using assms by (induction before) auto
  then have "device_block (Group n l f (before @ receiver # after)) ''centerfreq0'' = receiver" by simp
  moreover have "find_map (\<lambda>c. range_of c ''centerfreq0'') before = None"
    using assms(3) range_of_carries by (fastforce simp: find_map_None list_all_iff)
  then have "range_of (Group n l f (before @ receiver # after)) ''centerfreq0'' =
      (case range_of receiver ''centerfreq0'' of Some r \<Rightarrow> Some r | None \<Rightarrow> find_map (\<lambda>c. range_of c ''centerfreq0'') after)"
    by (simp add: find_map_append)
  ultimately show ?thesis
    by (cases "range_of receiver ''centerfreq0''")
      (simp_all add: from_trees_def from_config_tree_def Let_def split_beta del: device_block.simps range_of.simps)
qed

text \<open>A mission whose HTTP server block is listed before its receiver.\<close>

definition example_block :: "string \<Rightarrow> string \<Rightarrow> config_item list \<Rightarrow> config_item" where
  "example_block name title leaves =
     Group name [] [] [Group ''info'' [] [] [String ''title'' [] [] title [] None], Group ''main'' [] [] leaves]"

definition example_receiver :: config_item where
  "example_receiver = example_block ''Block_Spectran'' ''SPECTRAN V6''
     [Float ''centerfreq0'' [] [] zero zero (Some zero) (Some (lit B64 8)) None None]"

theorem capabilities_from_the_receiver_witness:
  "model (from_trees (Some (Group ''root'' [] [] [example_block ''Block_HTTPServer'' ''HTTP Server'' [], example_receiver])) None)
     = Some ''SPECTRAN V6''"
proof -
  have "is_group example_receiver" "carries example_receiver ''centerfreq0''"
    "list_all (\<lambda>c. \<not> carries c ''centerfreq0'') [example_block ''Block_HTTPServer'' ''HTTP Server'' []]"
    by (simp_all add: example_receiver_def example_block_def)
  from capabilities_from_the_receiver [OF this, of "''root''" "[]" "[]" "[]"] show ?thesis
    by (simp add: example_receiver_def example_block_def string_named_def del: device_block.simps)
qed

end
