(* ===== verification/Endpoints.thy ===== *)
theory Endpoints
  imports Config_Tree Stream_Format
begin

text \<open>
  The endpoints client of \<open>src/src/http_endpoints.rs\<close>: what it checks before it connects,
  the parameters of a stream, and the configuration writes that are confirmed by reading back.

  The server is a parameter (\<open>rtsa\<close>): how it answers each request from a state of its own, which
  is any type; the parsing of URLs and the encoding of query strings (the \<open>url\<close> crate) and
  the printing of a floating-point scale are parameters too.
\<close>

section \<open>Connecting\<close>

datatype auth_method = Basic string string | Token string | NoAuth

datatype auth_header = BasicAuth string string | Authorization string

fun apply_to :: "auth_method \<Rightarrow> auth_header list" where
  "apply_to (Basic username password) = [BasicAuth username password]"
| "apply_to (Token token) = [Authorization (''RToken '' @ token)]"
| "apply_to NoAuth = []"

text \<open>The scheme of a base URL, when it parses.\<close>

definition validate_base_url :: "(string \<Rightarrow> string option) \<Rightarrow> string \<Rightarrow> unit result" where
  "validate_base_url scheme_of base_url =
     (case scheme_of base_url of
        None \<Rightarrow> Err (Protocol ''Invalid base URL format: '')
      | Some scheme \<Rightarrow>
          if scheme = ''http'' \<or> scheme = ''https'' then Ok ()
          else Err (Protocol ''Only HTTP/HTTPS URLs are allowed, got: ''))"

record endpoints_client =
  ec_base_url :: string
  ec_auth :: auth_method

definition endpoints_client_new :: "string \<Rightarrow> auth_method \<Rightarrow> endpoints_client" where
  "endpoints_client_new base_url auth = \<lparr>ec_base_url = trim_end_matches ''/'' base_url, ec_auth = auth\<rparr>"

definition ensure_success :: "string \<Rightarrow> nat \<Rightarrow> unit result" where
  "ensure_success context status = (if 200 \<le> status \<and> status < 300 then Ok () else Err (Http status context))"

section \<open>Stream parameters\<close>

record stream_params =
  sp_stream_format :: stream_format
  limit :: "nat option"
  sp_rate_reduction :: "nat option"
  rate_adaption :: "bool option"
  sp_input :: "string option"
  sp_scale_factor :: "f64 option"

definition stream_params_new :: stream_params where
  "stream_params_new =
     \<lparr>sp_stream_format = Float32, limit = None, sp_rate_reduction = None, rate_adaption = None, sp_input = None,
      sp_scale_factor = None\<rparr>"

definition validate_rate_reduction :: "nat option \<Rightarrow> unit result" where
  "validate_rate_reduction factor =
     (if factor = Some 0 then Err (Config ''rate_reduction must be at least 1'') else Ok ())"

definition validate_params :: "stream_params \<Rightarrow> unit result" where
  "validate_params p = validate_rate_reduction (sp_rate_reduction p)"

definition optional_pair :: "string \<Rightarrow> ('a \<Rightarrow> string) \<Rightarrow> 'a option \<Rightarrow> (string \<times> string) list" where
  "optional_pair key show v = (case v of Some x \<Rightarrow> [(key, show x)] | None \<Rightarrow> [])"

definition query_pairs :: "(f64 \<Rightarrow> string) \<Rightarrow> stream_params \<Rightarrow> (string \<times> string) list" where
  "query_pairs show_f64 p =
     [(''format'', format_as_str (sp_stream_format p))] @
     optional_pair ''limit'' show_nat (limit p) @
     optional_pair ''rate_reduction'' show_nat (sp_rate_reduction p) @
     optional_pair ''rate_adaption'' (\<lambda>b. if b then ''1'' else ''0'') (rate_adaption p) @
     optional_pair ''input'' (\<lambda>i. i) (sp_input p) @
     optional_pair ''scale'' show_f64 (sp_scale_factor p)"

definition stream_url ::
  "((string \<times> string) list \<Rightarrow> string) \<Rightarrow> (f64 \<Rightarrow> string) \<Rightarrow> string \<Rightarrow> stream_params \<Rightarrow> string" where
  "stream_url encode show_f64 base_url p = base_url @ ''/stream?'' @ encode (query_pairs show_f64 p)"

section \<open>Reading and writing the configuration\<close>

text \<open>A value written: a number, the index of an enumeration, or a label.\<close>

datatype setting = NumberSetting f64 | IndexSetting nat | LabelSetting string

type_synonym config_groups = "(string \<times> (string \<times> setting) list) list"

record 's rtsa =
  document :: "'s \<Rightarrow> (json_node list) result \<times> 's"
  config_tree :: "'s \<Rightarrow> config_item result \<times> 's"
  health_tree :: "'s \<Rightarrow> health_status result \<times> 's"
  put_config :: "string \<Rightarrow> config_groups \<Rightarrow> 's \<Rightarrow> unit result \<times> 's"

text \<open>One request after another, the first error ending the sequence.\<close>

definition bind_request :: "'a result \<times> 's \<Rightarrow> ('a \<Rightarrow> 's \<Rightarrow> 'b result \<times> 's) \<Rightarrow> 'b result \<times> 's" where
  "bind_request r f = (case r of (Inl e, s) \<Rightarrow> (Err e, s) | (Inr a, s) \<Rightarrow> f a s)"

lemma bind_request_simps [simp]:
  "bind_request (Inl e, s) f = (Inl e, s)" "bind_request (Inr a, s) f = f a s"
  by (simp_all add: bind_request_def)

definition find_iq_demodulator_block_name :: "'s rtsa \<Rightarrow> 's \<Rightarrow> string result \<times> 's" where
  "find_iq_demodulator_block_name srv s =
     bind_request (document srv s) (\<lambda>root s.
       (case find_config_item_by_name_prefix root ''Block_IQDemodulator'' of
          Some n \<Rightarrow> Ok n
        | None \<Rightarrow> Err (Protocol ''no Block_IQDemodulator_* block found anywhere in current mission's config tree''), s))"

definition find_block_name_with_field :: "'s rtsa \<Rightarrow> string \<Rightarrow> 's \<Rightarrow> string result \<times> 's" where
  "find_block_name_with_field srv field s =
     bind_request (document srv s) (\<lambda>root s.
       (case find_block_name_carrying_field root field None of
          Some n \<Rightarrow> Ok n
        | None \<Rightarrow> Err (Protocol ''no Block_* group carrying `''), s))"

definition simple_remote_config :: "'s rtsa \<Rightarrow> string \<Rightarrow> config_groups \<Rightarrow> 's \<Rightarrow> unit result \<times> 's" where
  "simple_remote_config srv receiver gs s = put_config srv receiver gs s"

definition get_device_capabilities :: "'s rtsa \<Rightarrow> 's \<Rightarrow> device_capabilities \<times> 's" where
  "get_device_capabilities srv s =
     (let (config, s1) = config_tree srv s;
          (health, s2) = health_tree srv s1
      in (from_trees (case config of Inr c \<Rightarrow> Some c | Inl e \<Rightarrow> None) (case health of Inr h \<Rightarrow> Some h | Inl e \<Rightarrow> None), s2))"

definition eq_ignore_ascii_case :: "string \<Rightarrow> string \<Rightarrow> bool" where
  "eq_ignore_ascii_case a b = (map to_lower a = map to_lower b)"

text \<open>The two device settings written by label, each confirmed by a reading.\<close>

definition set_device_label ::
  "'s rtsa \<Rightarrow> string \<Rightarrow> (device_capabilities \<Rightarrow> string option) \<Rightarrow> string \<Rightarrow> string \<Rightarrow> 's \<Rightarrow>
   (string option) result \<times> 's" where
  "set_device_label srv field reading refusal wanted s =
     bind_request (find_block_name_with_field srv ''centerfreq0'' s) (\<lambda>block s.
     bind_request (simple_remote_config srv block [(''device'', [(field, LabelSetting wanted)])] s) (\<lambda>u s.
       let (caps, s') = get_device_capabilities srv s
       in (case reading caps of
             Some got \<Rightarrow> if eq_ignore_ascii_case got wanted then Ok (Some got) else Err (Config refusal)
           | None \<Rightarrow> Ok None, s')))"

definition set_clock_source :: "'s rtsa \<Rightarrow> string \<Rightarrow> 's \<Rightarrow> (string option) result \<times> 's" where
  "set_clock_source srv wanted s =
     set_device_label srv ''sclksource'' clock_source ''clock source did not take on '' wanted s"

definition set_gps_mode :: "'s rtsa \<Rightarrow> string \<Rightarrow> 's \<Rightarrow> (string option) result \<times> 's" where
  "set_gps_mode srv wanted s =
     set_device_label srv ''gpsmode'' gps_mode ''GPS mode did not take on '' wanted s"

record capture_config =
  cc_center_frequency_hz :: "f64 option"
  cc_decimation_index :: "nat option"
  cc_reference_level_dbm :: "f64 option"

record applied_capture_config =
  receiver_name :: string
  ac_center_frequency_hz :: "f64 option"
  ac_decimation_index :: "nat option"
  ac_reference_level_dbm :: "f64 option"

definition read_capture_config :: "'s rtsa \<Rightarrow> string \<Rightarrow> 's \<Rightarrow> applied_capture_config result \<times> 's" where
  "read_capture_config srv block s =
     bind_request (document srv s) (\<lambda>root s.
       (case find_group_items root block of
          None \<Rightarrow> Err (Protocol ''block `'')
        | Some items \<Rightarrow>
            Ok \<lparr>receiver_name = block, ac_center_frequency_hz = read_config_leaf_value items ''centerfreq0'',
                ac_decimation_index =
                  map_option (\<lambda>v. nat (to_int 0 (int USIZE_MAX) v)) (read_config_leaf_value items ''decimation0''),
                ac_reference_level_dbm = read_config_leaf_value items ''reflevel0''\<rparr>, s))"

definition requested_fields :: "capture_config \<Rightarrow> (string \<times> setting) list" where
  "requested_fields request =
     (case cc_center_frequency_hz request of Some hz \<Rightarrow> [(''centerfreq0'', NumberSetting hz)] | None \<Rightarrow> []) @
     (case cc_decimation_index request of Some i \<Rightarrow> [(''decimation0'', IndexSetting i)] | None \<Rightarrow> []) @
     (case cc_reference_level_dbm request of Some dbm \<Rightarrow> [(''reflevel0'', NumberSetting dbm)] | None \<Rightarrow> [])"

definition apply_capture_config :: "'s rtsa \<Rightarrow> capture_config \<Rightarrow> 's \<Rightarrow> applied_capture_config result \<times> 's" where
  "apply_capture_config srv request s =
     bind_request (find_block_name_with_field srv ''centerfreq0'' s) (\<lambda>block s.
       if requested_fields request = [] then read_capture_config srv block s
       else bind_request (simple_remote_config srv block [(''main'', requested_fields request)] s) (\<lambda>u s.
              read_capture_config srv block s))"

section \<open>The licence\<close>

datatype remote_config_status = Active | NotLicensedStatus | AuthenticationRequired | Unknown

fun is_available :: "remote_config_status \<Rightarrow> bool" where
  "is_available Active = True"
| "is_available s = False"

definition detect_remote_config_license :: "'s rtsa \<Rightarrow> 's \<Rightarrow> remote_config_status \<times> 's" where
  "detect_remote_config_license srv s =
     (case config_tree srv s of
        (Inr c, s') \<Rightarrow> (Unknown, s')
      | (Inl (Http status context), s') \<Rightarrow>
          (if status = 401 then AuthenticationRequired else if status = 403 then NotLicensedStatus else Unknown, s')
      | (Inl e, s') \<Rightarrow> (Unknown, s'))"

record config_change_verification =
  applied :: bool
  parameter :: string
  original_value :: f64
  test_value :: f64
  current_value :: f64
  change_error :: "error option"

definition apply_parameter_change :: "'s rtsa \<Rightarrow> string \<Rightarrow> f64 \<Rightarrow> 's \<Rightarrow> unit result \<times> 's" where
  "apply_parameter_change srv param v s =
     (if \<not> starts_with param ''reflevel'' then (Err (Protocol ''Unsupported parameter type: ''), s)
      else bind_request (find_block_name_with_field srv param s) (\<lambda>block s.
             simple_remote_config srv block [(''main'', [(param, NumberSetting v)])] s))"

definition read_parameter :: "'s rtsa \<Rightarrow> string \<Rightarrow> 's \<Rightarrow> f64 result \<times> 's" where
  "read_parameter srv param s =
     bind_request (config_tree srv s) (\<lambda>tree s. (extract_parameter_value tree param, s))"

text \<open>The restore is attempted on every path behind the write.\<close>

definition verify_config_changes ::
  "'s rtsa \<Rightarrow> string \<Rightarrow> f64 \<Rightarrow> 's \<Rightarrow> config_change_verification result \<times> 's" where
  "verify_config_changes srv param safe_delta s =
     bind_request (read_parameter srv param s) (\<lambda>original s1.
       let test = fadd B64 original safe_delta;
           (change, s2) = apply_parameter_change srv param test s1;
           (readback, s3) = read_parameter srv param s2;
           (restore, s4) = apply_parameter_change srv param original s3
       in case readback of
            Inl e \<Rightarrow> (Err e, s4)
          | Inr current \<Rightarrow>
              (Ok \<lparr>applied = flt (fabs (fsub B64 current test)) (lit B64 (1 / 1000)), parameter = param,
                   original_value = original, test_value = test, current_value = current,
                   change_error = (case change of Inl e \<Rightarrow> Some e
                                   | Inr u \<Rightarrow> (case restore of Inl e \<Rightarrow> Some e | Inr u \<Rightarrow> None))\<rparr>, s4))"

definition probe_remote_config_write_license :: "'s rtsa \<Rightarrow> 's \<Rightarrow> remote_config_status \<times> 's" where
  "probe_remote_config_write_license srv s =
     (case config_tree srv s of
        (Inl (Http status context), s1) \<Rightarrow> (if status = 401 then AuthenticationRequired else Unknown, s1)
      | (Inl e, s1) \<Rightarrow> (Unknown, s1)
      | (Inr c, s1) \<Rightarrow>
          (case verify_config_changes srv ''reflevel0'' (lit B64 1) s1 of
             (Inr v, s2) \<Rightarrow> (if applied v then Active else NotLicensedStatus, s2)
           | (Inl (Http status context), s2) \<Rightarrow>
               (if status = 401 then AuthenticationRequired else NotLicensedStatus, s2)
           | (Inl e, s2) \<Rightarrow> (NotLicensedStatus, s2)))"

section \<open>What the writes do\<close>

lemma bind_request_fst: "fst (bind_request r f) = bind_result (fst r) (\<lambda>a. fst (f a (snd r)))"
  by (cases r) (auto simp: bind_request_def split: sum.split)

lemma bind_request_snd:
  "snd (bind_request r f) = (case fst r of Inl e \<Rightarrow> snd r | Inr a \<Rightarrow> snd (f a (snd r)))"
  by (cases r) (auto simp: bind_request_def split: sum.split)

text \<open>A server that also keeps the writes it is sent.\<close>

definition logging :: "'s rtsa \<Rightarrow> ('s \<times> (string \<times> config_groups) list) rtsa" where
  "logging srv =
     \<lparr>document = (\<lambda>(s, w). let (r, s') = document srv s in (r, s', w)),
      config_tree = (\<lambda>(s, w). let (r, s') = config_tree srv s in (r, s', w)),
      health_tree = (\<lambda>(s, w). let (r, s') = health_tree srv s in (r, s', w)),
      put_config = (\<lambda>block gs (s, w). let (r, s') = put_config srv block gs s in (r, s', w @ [(block, gs)]))\<rparr>"

lemma logged_find:
  "find_block_name_with_field (logging srv) field (s, w) =
     (fst (find_block_name_with_field srv field s), snd (find_block_name_with_field srv field s), w)"
  by (auto simp: find_block_name_with_field_def logging_def bind_request_def split: prod.split sum.split)

lemma logged_read:
  "read_capture_config (logging srv) block (s, w) =
     (fst (read_capture_config srv block s), snd (read_capture_config srv block s), w)"
  by (auto simp: read_capture_config_def logging_def bind_request_def split: prod.split sum.split)

text \<open>
  A capture request writes what it asks for and nothing else: no write without a request,
  or when no block carries the tuner's field; otherwise exactly one, to the block found, of
  exactly the requested fields. What it answers was read after the write.
\<close>

theorem capture_config_writes_its_request:
  "case find_block_name_with_field srv ''centerfreq0'' s of
     (Inl e, s1) \<Rightarrow> apply_capture_config (logging srv) request (s, []) = (Err e, s1, [])
   | (Inr block, s1) \<Rightarrow>
       if request = \<lparr>cc_center_frequency_hz = None, cc_decimation_index = None, cc_reference_level_dbm = None\<rparr>
       then apply_capture_config (logging srv) request (s, []) =
              (let (r, s2) = read_capture_config srv block s1 in (r, s2, []))
       else apply_capture_config (logging srv) request (s, []) =
              (let writes = [(block, [(''main'', requested_fields request)])];
                   (r, s2) = put_config srv block [(''main'', requested_fields request)] s1
               in case r of Inl e \<Rightarrow> (Err e, s2, writes)
                  | Inr u \<Rightarrow> (let (r', s3) = read_capture_config srv block s2 in (r', s3, writes)))"
proof -
  have empty: "requested_fields request = [] \<longleftrightarrow>
      request = \<lparr>cc_center_frequency_hz = None, cc_decimation_index = None, cc_reference_level_dbm = None\<rparr>"
    by (cases request) (auto simp: requested_fields_def split: option.split)
  have put: "put_config (logging srv) b gs (t, w) = (let (r, t') = put_config srv b gs t in (r, t', w @ [(b, gs)]))" for b gs t w
    by (simp add: logging_def)
  show ?thesis
    unfolding apply_capture_config_def logged_find empty
    by (auto simp: bind_request_def simple_remote_config_def put logged_read split_beta split: prod.split sum.split)
qed


lemma show_nat_digits: "list_all is_digit (show_nat n) \<and> digits_nat (show_nat n) = n"
proof (induction n rule: show_nat.induct)
  case (1 n)
  have d: "of_char (char_of (48 + k) :: char) = 48 + k" if "k < 10" for k :: nat
    using that by simp
  show ?case
  proof (cases "n < 10")
    case True
    then show ?thesis by (subst (1 2) show_nat.simps) (simp add: is_digit_def digits_nat_def d)
  next
    case False
    have "is_digit (char_of (48 + n mod 10))" by (simp add: is_digit_def d)
    with False 1 show ?thesis
      by (subst (1 2) show_nat.simps) (simp add: digits_nat_snoc d)
  qed
qed

text \<open>
  Zero is never sent as a rate reduction. The parameters are refused exactly when they ask
  for a reduction by zero, and of accepted parameters every \<open>rate_reduction\<close> pair of the query
  prints a number of at least one, the one asked for.
\<close>

theorem rate_reduction_zero_refused:
  "validate_params p = (if sp_rate_reduction p = Some 0 then Err (Config ''rate_reduction must be at least 1'') else Ok ()) \<and>
   list_all (\<lambda>(key, text). key \<noteq> ''rate_reduction'' \<or> sp_rate_reduction p = Some (digits_nat text)) (query_pairs show_f64 p)"
  by (auto simp: validate_params_def validate_rate_reduction_def query_pairs_def optional_pair_def show_nat_digits
      split: option.split)

text \<open>A receiver whose configuration can be read once and then no more.\<close>

definition example_rtsa :: "(f64 \<times> nat) rtsa" where
  "example_rtsa =
     \<lparr>document = (\<lambda>s. (Ok [Node (Some ''Block_Spectran'') (Some [Node (Some ''reflevel0'') None (Some (fst s))]) None], s)),
      config_tree = (\<lambda>(l, n). (if n = 0 then Ok (Float ''reflevel0'' '''' '''' l l None None None None) else Err (Transport ''''),
        (l, n + 1))),
      health_tree = (\<lambda>s. (Err (Transport ''''), s)),
      put_config = (\<lambda>block gs (l, n).
        (case gs of [(g, [(f, NumberSetting v)])] \<Rightarrow> (Ok (), (v, n)) | _ \<Rightarrow> (Err (Transport ''''), (l, n))))\<rparr>"


end
