(* ===== verification/Http_Source.thy ===== *)
theory Http_Source
  imports Break_Queue Stream_Parser Drop_Detector Link_Budget Utils Endpoints
begin

text \<open>
  The block of \<open>src/src/http_source.rs\<close>: capacities of its sample buffer, the handling
  of one parsed item and of one chunk, the passive link-budget check, opening and closing
  the stream, one sweep of the chunk channel and one call of \<open>work\<close>.

  The server's answers, the arrivals on the channel and the clock are inputs; one instant is
  given for each chunk and each sweep. What the block sends to the device is kept, in order, in
  the field \<open>device_writes\<close>, and the health probes it spawns in \<open>gap_probes\<close>; the type
  \<open>'h\<close> of a device health reading is the endpoints client's.
\<close>

definition PACKET_CAPACITY_FACTOR :: nat where "PACKET_CAPACITY_FACTOR = 4"
definition CHUNK_CHANNEL_DEPTH :: nat where "CHUNK_CHANNEL_DEPTH = 64"
definition MAX_FETCHES_PER_WORK :: nat where "MAX_FETCHES_PER_WORK = 16"
definition LINK_CHECK_WINDOW :: nat where "LINK_CHECK_WINDOW = 2 * 10 ^ 9"
definition LINK_BUDGET_TOLERANCE :: f64 where "LINK_BUDGET_TOLERANCE = lit B64 (98 / 100)"

text \<open>
  The reader task: chunks go to the channel until the stream stalls, fails or ends, or the
  receiver is gone; the flag of a chunk says whether the channel took it.
\<close>

datatype reader_event = ReadChunk bytes bool | ReadFailed | ReadEnded | ReadStalled

fun read_stream_into :: "reader_event list \<Rightarrow> bytes list" where
  "read_stream_into [] = []"
| "read_stream_into (ReadChunk chunk taken # events) = (if taken then chunk # read_stream_into events else [])"
| "read_stream_into (ReadFailed # events) = []"
| "read_stream_into (ReadEnded # events) = []"
| "read_stream_into (ReadStalled # events) = []"

datatype link_check = Unmeasured | Measuring throughput_meter | Done "link_budget_verdict option"

definition armed_at :: "nat \<Rightarrow> link_check" where
  "armed_at open_at = Measuring (starting_at open_at LINK_PROBE_SETTLE LINK_CHECK_WINDOW)"

record 'h stream_stats =
  ss_active :: bool
  ss_format :: stream_format
  ss_current_frequency :: f64
  ss_current_sample_rate :: f64
  buffer_level :: nat
  ss_buffer_capacity :: nat
  ss_input_name :: "string option"
  input_msps :: f64
  dropped_packets :: nat
  ss_packet_rate :: f64
  restart_pending :: bool
  ss_link_budget :: "link_budget_verdict option"
  device_health :: "('h list) option"
  device_health_drops :: nat
  ss_non_iq_packets_skipped :: nat
  ss_packets_lost :: nat

definition stream_stats_default :: "'h stream_stats" where
  "stream_stats_default =
     \<lparr>ss_active = False, ss_format = CAPTURE_DEFAULT, ss_current_frequency = zero,
      ss_current_sample_rate = zero, buffer_level = 0, ss_buffer_capacity = 0, ss_input_name = None,
      input_msps = zero, dropped_packets = 0, ss_packet_rate = zero, restart_pending = False,
      ss_link_budget = None, device_health = None, device_health_drops = 0,
      ss_non_iq_packets_skipped = 0, ss_packets_lost = 0\<rparr>"

text \<open>What the block writes to the device.\<close>

datatype device_write =
    ConnectRun nat
  | CaptureConfig "f64 option" "nat option" "f64 option"
  | CaptureControl "f64 option" "f64 option" "f32 option"
  | ControlStreaming bool

text \<open>The receiving end of the chunk channel: what is queued, and whether the reader task ended.\<close>

record chunk_channel =
  queued :: "bytes list"
  reader_ended :: bool

record ('k, 'h) http_source = "(complex32, 'k) break_queue" +
  hs_base_url :: string
  hs_endpoints :: endpoints_client
  max_packet_samples :: nat
  max_chunk_bytes :: nat
  downstream_capacity :: nat
  hs_format :: stream_format
  hs_parser :: stream_parser
  input_name :: "string option"
  rate_reduction :: "nat option"
  hs_scale :: "f64 option"
  stream_active :: bool
  current_frequency :: f64
  current_sample_rate :: f64
  configured_center_hz :: f64
  configured_rate_hz :: f64
  overflow_samples :: nat
  next_overflow_report :: nat
  stream_gap_seconds :: f64
  next_gap_report :: nat
  non_iq_packets_skipped :: nat
  packets_lost_to_parse_errors :: nat
  next_parse_loss_report :: nat
  link_check :: link_check
  link_device_rate :: "f64 option"
  chunk_rx :: "chunk_channel option"
  buffer_size :: nat
  reference_level_dbm :: "f64 option"
  shared_stats :: "('h stream_stats) option"
  detector :: drop_detector
  initial_tune_done :: bool
  listen_only :: bool
  device_writes :: "device_write list"
  gap_probes :: "nat list"

section \<open>Capacities\<close>

definition refill_capacity :: "('k, 'h) http_source \<Rightarrow> nat" where
  "refill_capacity s =
     (let configured = max (sat_mul (buffer_size s) 2) 1;
          packet_floor = sat_mul (max_packet_samples s) PACKET_CAPACITY_FACTOR;
          downstream_floor = sat_add (downstream_capacity s) (max_packet_samples s)
      in max (max configured packet_floor) downstream_floor)"

definition catch_up_headroom :: "('k, 'h) http_source \<Rightarrow> nat" where
  "catch_up_headroom s =
     (if max_chunk_bytes s = 0 then 0
      else case iq_bytes_per_sample (hs_format s) of
             None \<Rightarrow> 0
           | Some bytes_per_sample \<Rightarrow>
               sat_add (div_ceil (sat_mul CHUNK_CHANNEL_DEPTH (max_chunk_bytes s)) bytes_per_sample)
                 (max_packet_samples s))"

definition buffer_capacity :: "('k, 'h) http_source \<Rightarrow> nat" where
  "buffer_capacity s = sat_add (refill_capacity s) (catch_up_headroom s)"

text \<open>The elapsed time of the parser's statistics is the argument.\<close>

definition get_stream_stats :: "f64 \<Rightarrow> ('k, 'h) http_source \<Rightarrow> 'h stream_stats" where
  "get_stream_stats elapsed s =
     (let stats = parser_stats (hs_parser s) elapsed
      in \<lparr>ss_active = stream_active s, ss_format = hs_format s, ss_current_frequency = current_frequency s,
          ss_current_sample_rate = current_sample_rate s, buffer_level = length (sample_buffer s),
          ss_buffer_capacity = buffer_capacity s, ss_input_name = input_name s,
          input_msps = fdiv B64 (samples_per_second stats) (lit B64 (10 ^ 6)),
          dropped_packets = drops (detector s), ss_packet_rate = packet_rate stats,
          restart_pending = False,
          ss_link_budget = (case link_check s of Done verdict \<Rightarrow> verdict | _ \<Rightarrow> None),
          device_health = None, device_health_drops = 0,
          ss_non_iq_packets_skipped = non_iq_packets_skipped s,
          ss_packets_lost = packets_lost_to_parse_errors s\<rparr>)"

section \<open>One parsed item\<close>

definition note_lost_packet :: "('k, 'h) http_source \<Rightarrow> ('k, 'h) http_source" where
  "note_lost_packet s =
     (let n = sat_add (packets_lost_to_parse_errors s) 1;
          s' = note_break Gap (s\<lparr>packets_lost_to_parse_errors := n\<rparr>);
          s'' = s'\<lparr>detector := detector_resync (detector s')\<rparr>
      in if next_parse_loss_report s \<le> n then s''\<lparr>next_parse_loss_report := sat_mul n 4\<rparr> else s'')"

definition note_undecoded_non_iq_packet :: "('k, 'h) http_source \<Rightarrow> ('k, 'h) http_source" where
  "note_undecoded_non_iq_packet s = s\<lparr>non_iq_packets_skipped := sat_add (non_iq_packets_skipped s) 1\<rparr>"

definition note_non_iq_packet :: "('k, 'h) http_source \<Rightarrow> ('k, 'h) http_source" where
  "note_non_iq_packet s = s\<lparr>non_iq_packets_skipped := sat_add (non_iq_packets_skipped s) 1\<rparr>"

definition note_device_rate :: "nat \<Rightarrow> f64 \<Rightarrow> ('k, 'h) http_source \<Rightarrow> ('k, 'h) http_source" where
  "note_device_rate now inferred s =
     (if \<not> is_finite inferred \<or> fle inferred zero then s
      else let moved = (case link_device_rate s of Some previous \<Rightarrow> rate_moved previous inferred | None \<Rightarrow> False);
               live = (case link_check s of Measuring m \<Rightarrow> True | Done (Some v) \<Rightarrow> True | _ \<Rightarrow> False);
               s' = (if moved \<and> live then s\<lparr>link_check := armed_at now\<rparr> else s)
           in s'\<lparr>link_device_rate := Some inferred\<rparr>)"

definition spawn_gap_health_probe :: "nat \<Rightarrow> ('k, 'h) http_source \<Rightarrow> ('k, 'h) http_source" where
  "spawn_gap_health_probe n s = s\<lparr>gap_probes := gap_probes s @ [n]\<rparr>"

text \<open>The probe's own write to the shared statistics, when its reading arrives.\<close>

definition health_probe_answer :: "nat \<Rightarrow> 'h list \<Rightarrow> ('k, 'h) http_source \<Rightarrow> ('k, 'h) http_source" where
  "health_probe_answer n blocks s =
     (case shared_stats s of
        None \<Rightarrow> s
      | Some stats \<Rightarrow>
          if device_health_drops stats \<le> n
          then s\<lparr>shared_stats := Some (stats\<lparr>device_health := Some blocks, device_health_drops := n\<rparr>)\<rparr>
          else s)"

text \<open>What the drop detector says of an IQ packet, and what follows from it.\<close>

definition check_continuity :: "stream_packet \<Rightarrow> ('k, 'h) http_source \<Rightarrow> ('k, 'h) http_source" where
  "check_continuity p s =
     (let (result, d) = detector_observe p (detector s);
          s1 = s\<lparr>detector := d\<rparr>
      in case result of
           Continuous \<Rightarrow> s1
         | Backward overlap \<Rightarrow> note_break Gap s1
         | Drop gap_seconds \<Rightarrow>
             let s2 = note_break Gap (s1\<lparr>stream_gap_seconds := fadd B64 (stream_gap_seconds s1) gap_seconds\<rparr>);
                 n = drops d
             in if next_gap_report s2 \<le> n
                then spawn_gap_health_probe n (s2\<lparr>next_gap_report := sat_mul n 4\<rparr>)
                else s2)"

text \<open>What the stream says of itself: centre, rate and geometry.\<close>

definition track_metadata :: "nat \<Rightarrow> stream_packet \<Rightarrow> ('k, 'h) http_source \<Rightarrow> ('k, 'h) http_source" where
  "track_metadata now p s =
     (let center = cfg_center_frequency_hz (sdr_config p);
          s1 = (if flt zero center then s\<lparr>current_frequency := center\<rparr> else s);
          inferred = cfg_sample_rate_hz (sdr_config p);
          s2 = note_device_rate now inferred s1;
          s3 = (if flt zero inferred \<and>
                   (fle (current_sample_rate s2) zero \<or> rate_moved (current_sample_rate s2) inferred)
                then s2\<lparr>current_sample_rate := inferred\<rparr> else s2)
      in note_geometry p s3)"

text \<open>The samples go to the buffer; what its capacity does not hold goes from the front.\<close>

definition enforce_capacity :: "('k, 'h) http_source \<Rightarrow> ('k, 'h) http_source" where
  "enforce_capacity s =
     (let capacity = buffer_capacity s
      in if capacity < length (sample_buffer s)
         then let overflow = length (sample_buffer s) - capacity;
                  s1 = trim_buffer overflow s;
                  n = sat_add (overflow_samples s1) overflow;
                  s2 = s1\<lparr>overflow_samples := n\<rparr>
              in if next_overflow_report s2 \<le> n then s2\<lparr>next_overflow_report := sat_mul n 4\<rparr> else s2
         else s)"

definition queue_packet :: "stream_packet \<Rightarrow> ('k, 'h) http_source \<Rightarrow> ('k, 'h) http_source" where
  "queue_packet p s =
     enforce_capacity (extend_buffer (pkt_samples p)
       (s\<lparr>max_packet_samples := max (max_packet_samples s) (length (pkt_samples p))\<rparr>))"

text \<open>One item: the samples it added, and the source after it.\<close>

fun process_item :: "nat \<Rightarrow> parsed_item \<Rightarrow> ('k, 'h) http_source \<Rightarrow> nat \<times> ('k, 'h) http_source" where
  "process_item now (Lost e) s = (0, note_lost_packet s)"
| "process_item now (Skipped t e) s = (0, note_undecoded_non_iq_packet s)"
| "process_item now (Packet p) s =
     (if payload (metadata p) \<noteq> Iq then (0, note_non_iq_packet s)
      else (length (pkt_samples p), queue_packet p (track_metadata now p (check_continuity p s))))"

fun process_items :: "nat \<Rightarrow> parsed_item list \<Rightarrow> ('k, 'h) http_source \<Rightarrow> nat \<times> ('k, 'h) http_source" where
  "process_items now [] s = (0, s)"
| "process_items now (item # items) s =
     (let (n, s1) = process_item now item s; (m, s2) = process_items now items s1 in (n + m, s2))"

text \<open>The refresh of the shared statistics carries over what the block does not hold itself.\<close>

definition refresh_stats :: "f64 \<Rightarrow> ('k, 'h) http_source \<Rightarrow> ('k, 'h) http_source" where
  "refresh_stats elapsed s =
     (case shared_stats s of
        None \<Rightarrow> s
      | Some stats \<Rightarrow>
          s\<lparr>shared_stats := Some ((get_stream_stats elapsed s)
              \<lparr>restart_pending := restart_pending stats, device_health := device_health stats,
               device_health_drops := device_health_drops stats\<rparr>)\<rparr>)"

text \<open>\<open>(samples_added, iq_samples)\<close>: only IQ is queued, so the two are equal.\<close>

definition process_advanced_stream_data ::
  "deps \<Rightarrow> (nat \<Rightarrow> bool) \<Rightarrow> nat \<Rightarrow> f64 \<Rightarrow> bytes \<Rightarrow> ('k, 'h) http_source \<Rightarrow>
   (nat \<times> nat) result \<times> ('k, 'h) http_source" where
  "process_advanced_stream_data D aligned now elapsed data s =
     (let (r, parser) = process_data_recovering D aligned data (hs_parser s);
          s1 = s\<lparr>hs_parser := parser\<rparr>
      in case r of
           Inl e \<Rightarrow> (Err e, s1)
         | Inr items \<Rightarrow>
             let (n, s2) = process_items now items s1 in (Ok (n, n), refresh_stats elapsed s2))"

section \<open>The passive link-budget check\<close>

definition link_check_measurable :: "('k, 'h) http_source \<Rightarrow> bool" where
  "link_check_measurable s =
     (iq_bytes_per_sample (hs_format s) \<noteq> None \<and>
      (case rate_reduction s of None \<Rightarrow> True | Some n \<Rightarrow> n = 1))"

definition publish_verdict :: "link_budget_verdict \<Rightarrow> ('k, 'h) http_source \<Rightarrow> ('k, 'h) http_source" where
  "publish_verdict v s =
     s\<lparr>shared_stats := map_option (\<lambda>stats. stats\<lparr>ss_link_budget := Some v\<rparr>) (shared_stats s)\<rparr>"

definition report_link_budget :: "nat \<Rightarrow> ('k, 'h) http_source \<Rightarrow> ('k, 'h) http_source" where
  "report_link_budget now s =
     (case link_check s of
        Measuring meter \<Rightarrow>
          if \<not> is_complete meter then s
          else if mt_consumer_limited meter then s\<lparr>link_check := armed_at now\<rparr>
          else let verdict =
                 Option.bind (meter_finish meter) (\<lambda>measured.
                 Option.bind (link_device_rate s) (\<lambda>rate.
                   judge rate (hs_format s) (measured\<lparr>stream_sample_rate_hz := Some rate\<rparr>) LINK_BUDGET_TOLERANCE))
               in (case verdict of
                     None \<Rightarrow> s\<lparr>link_check := armed_at now\<rparr>
                   | Some v \<Rightarrow> (publish_verdict v s)\<lparr>link_check := Done (Some v)\<rparr>)
      | _ \<Rightarrow> s)"

section \<open>Opening and closing the stream\<close>

text \<open>What the server answers while a stream is opened, and when the response arrives.\<close>

record start_answers =
  inputs_answer :: "(string list) result"
  config_answer :: "nat result"
  connect_run_answer :: "unit result"
  capture_config_answer :: "unit result"
  stream_answer :: "unit result"
  opened_at :: nat

definition select_input :: "(string list) result \<Rightarrow> string option \<Rightarrow> string option" where
  "select_input answer selected =
     (case selected of
        Some i \<Rightarrow> Some i
      | None \<Rightarrow>
          (case answer of
             Inl e \<Rightarrow> None
           | Inr [] \<Rightarrow> None
           | Inr (i # is) \<Rightarrow> Some (if ''main'' \<in> set (i # is) then ''main'' else i)))"

definition log_write :: "device_write \<Rightarrow> ('k, 'h) http_source \<Rightarrow> ('k, 'h) http_source" where
  "log_write w s = s\<lparr>device_writes := device_writes s @ [w]\<rparr>"

definition write_connect_run ::
  "start_answers \<Rightarrow> ('k, 'h) http_source \<Rightarrow> unit result \<times> ('k, 'h) http_source" where
  "write_connect_run a s =
     (case config_answer a of
        Inl e \<Rightarrow> (Err e, s)
      | Inr request \<Rightarrow> (connect_run_answer a, log_write (ConnectRun (request + 1)) s))"

definition when_positive :: "f64 \<Rightarrow> f64 option" where
  "when_positive x = (if flt zero x then Some x else None)"

definition apply_initial_tune :: "start_answers \<Rightarrow> ('k, 'h) http_source \<Rightarrow> ('k, 'h) http_source" where
  "apply_initial_tune a s =
     (let center = when_positive (configured_center_hz s);
          rate = when_positive (configured_rate_hz s);
          s1 = log_write (CaptureConfig center (map_option decimation_index_for_rate rate) (reference_level_dbm s)) s
      in case capture_config_answer a of
           Inr u \<Rightarrow> s1
         | Inl e \<Rightarrow>
             let level = map_option (cast_fl B32) (reference_level_dbm s)
             in if center = None \<and> rate = None \<and> level = None then s1
                else log_write (CaptureControl center rate level) s1)"

definition configure_rtsa_device ::
  "start_answers \<Rightarrow> ('k, 'h) http_source \<Rightarrow> unit result \<times> ('k, 'h) http_source" where
  "configure_rtsa_device a s =
     (let (connect_run, s1) = write_connect_run a s
      in if initial_tune_done s1 then (connect_run, s1)
         else (connect_run, apply_initial_tune a (s1\<lparr>initial_tune_done := True\<rparr>)))"

definition arm_link_check :: "nat \<Rightarrow> ('k, 'h) http_source \<Rightarrow> ('k, 'h) http_source" where
  "arm_link_check now s =
     (case link_check s of
        Done v \<Rightarrow> s
      | _ \<Rightarrow> s\<lparr>link_check := (if link_check_measurable s then armed_at now else Done None)\<rparr>)"

text \<open>The parameters of the stream that is asked for, and its URL.\<close>

definition stream_request :: "('k, 'h) http_source \<Rightarrow> stream_params" where
  "stream_request s =
     stream_params_new\<lparr>sp_stream_format := hs_format s, sp_input := input_name s,
       sp_rate_reduction := rate_reduction s, sp_scale_factor := hs_scale s\<rparr>"

definition stream_request_url ::
  "((string \<times> string) list \<Rightarrow> string) \<Rightarrow> (f64 \<Rightarrow> string) \<Rightarrow> ('k, 'h) http_source \<Rightarrow> string" where
  "stream_request_url encode show_f64 s = stream_url encode show_f64 (hs_base_url s) (stream_request s)"

definition start_stream ::
  "start_answers \<Rightarrow> ('k, 'h) http_source \<Rightarrow> unit result \<times> ('k, 'h) http_source" where
  "start_stream a s =
     (let s1 = s\<lparr>input_name := select_input (inputs_answer a) (input_name s)\<rparr>;
          s2 = (if listen_only s1 then s1\<lparr>initial_tune_done := True\<rparr>
                else log_write (ControlStreaming True) (snd (configure_rtsa_device a s1)))
      in case stream_answer a of
           Inl e \<Rightarrow> (Err e, s2)
         | Inr u \<Rightarrow>
             (Ok (), (arm_link_check (opened_at a) (s2\<lparr>chunk_rx := Some \<lparr>queued = [], reader_ended = False\<rparr>\<rparr>))
                       \<lparr>stream_active := True\<rparr>))"

definition cleanup_stream :: "('k, 'h) http_source \<Rightarrow> ('k, 'h) http_source" where
  "cleanup_stream s =
     (let s1 = (if stream_active s \<and> \<not> listen_only s then log_write (ControlStreaming False) s else s)
      in note_break Gap (s1\<lparr>chunk_rx := None, stream_active := False, hs_parser := parser_reset (hs_parser s1),
           detector := detector_resync (detector s1)\<rparr>))"

text \<open>The destructor: no write to the device.\<close>

definition drop_source :: "('k, 'h) http_source \<Rightarrow> ('k, 'h) http_source" where
  "drop_source s = (if stream_active s then s\<lparr>chunk_rx := None, stream_active := False\<rparr> else s)"

section \<open>One sweep of the channel\<close>

text \<open>
  What a sweep meets: the chunks that \<open>try_recv\<close> finds, whether the reader has ended behind
  them, what the parked \<open>recv\<close> returns, and the clock.
\<close>

datatype recv_result = Received bytes | ChannelClosed | WaitTimedOut

record sweep_env =
  arrived :: "bytes list"
  ended :: bool
  waited :: recv_result
  sweep_now :: nat
  sweep_elapsed :: f64

fun try_recv_loop :: "nat \<Rightarrow> bytes list \<Rightarrow> bool \<Rightarrow> bytes list \<Rightarrow> bytes list \<times> bytes list \<times> bool" where
  "try_recv_loop 0 queue gone taken = (taken, queue, False)"
| "try_recv_loop (Suc room) (c # queue) gone taken = try_recv_loop room queue gone (taken @ [c])"
| "try_recv_loop (Suc room) [] gone taken = (taken, [], gone)"

text \<open>The taken one after another, up to the first unrecoverable error.\<close>

fun process_chunks ::
  "deps \<Rightarrow> (nat \<Rightarrow> bool) \<Rightarrow> nat \<Rightarrow> f64 \<Rightarrow> bytes list \<Rightarrow> ('k, 'h) http_source \<Rightarrow>
   nat \<times> nat \<times> error option \<times> ('k, 'h) http_source" where
  "process_chunks D aligned now elapsed [] s = (0, 0, None, s)"
| "process_chunks D aligned now elapsed (c # cs) s =
     (case process_advanced_stream_data D aligned now elapsed c s of
        (Inl e, s1) \<Rightarrow> (0, 0, Some e, s1)
      | (Inr (added, iq), s1) \<Rightarrow>
          let (added', iq', err, s2) = process_chunks D aligned now elapsed cs s1
          in (added + added', iq + iq', err, s2))"

text \<open>What the sweep tells the link-budget meter.\<close>

definition meter_sweep :: "nat \<Rightarrow> nat \<Rightarrow> bool \<Rightarrow> ('k, 'h) http_source \<Rightarrow> ('k, 'h) http_source" where
  "meter_sweep now iq_samples channel_was_full s =
     (let s1 = (case (link_check s, iq_bytes_per_sample (hs_format s)) of
            (Measuring meter, Some n) \<Rightarrow>
              if 0 < iq_samples
              then s\<lparr>link_check := Measuring (snd (meter_observe now (sat_mul iq_samples n) meter))\<rparr>
              else s
          | _ \<Rightarrow> s)
      in case link_check s1 of
           Measuring meter \<Rightarrow>
             if channel_was_full then s1\<lparr>link_check := Measuring (note_consumer_limited now meter)\<rparr> else s1
         | _ \<Rightarrow> s1)"

definition fetch_samples ::
  "deps \<Rightarrow> (nat \<Rightarrow> bool) \<Rightarrow> bool \<Rightarrow> sweep_env \<Rightarrow> ('k, 'h) http_source \<Rightarrow> nat result \<times> ('k, 'h) http_source" where
  "fetch_samples D aligned wait env s =
     (case chunk_rx s of
        None \<Rightarrow> (Err (Protocol ''No active stream''), s)
      | Some rx \<Rightarrow>
          let (taken, left, disconnected) =
                try_recv_loop CHUNK_CHANNEL_DEPTH (queued rx @ arrived env) (reader_ended rx \<or> ended env) [];
              s1 = s\<lparr>chunk_rx := Some \<lparr>queued = left, reader_ended = reader_ended rx \<or> ended env\<rparr>\<rparr>
          in if disconnected \<and> taken = []
             then (Err (StreamClosed ''stream reader task ended''), cleanup_stream s1)
             else if taken = [] \<and> wait \<and> waited env = ChannelClosed
             then (Err (StreamClosed ''stream reader task ended''), cleanup_stream s1)
             else let got = (if taken = [] \<and> wait
                                 then (case waited env of Received c \<Rightarrow> [c] | _ \<Rightarrow> []) else taken);
                      s2 = s1\<lparr>max_chunk_bytes := foldl max (max_chunk_bytes s1) (map length got)\<rparr>;
                      channel_was_full = (CHUNK_CHANNEL_DEPTH \<le> length got);
                      (added, iq, parse_error, s3) =
                        process_chunks D aligned (sweep_now env) (sweep_elapsed env) got s2;
                      s4 = report_link_budget (sweep_now env)
                             (meter_sweep (sweep_now env) iq channel_was_full s3)
                  in (case parse_error of Some e \<Rightarrow> (Err e, s4) | None \<Rightarrow> (Ok added, s4)))"

section \<open>One call of work\<close>

text \<open>
  The refill loop: \<open>True\<close> when it ended with the buffer stocked or the channel idle,
  \<open>False\<close> when the stream failed and was reopened.
\<close>

function refill_loop ::
  "deps \<Rightarrow> (nat \<Rightarrow> bool) \<Rightarrow> (nat \<Rightarrow> sweep_env) \<Rightarrow> start_answers \<Rightarrow> nat \<Rightarrow> nat \<Rightarrow>
   ('k, 'h) http_source \<Rightarrow> bool \<times> ('k, 'h) http_source" where
  "refill_loop D aligned env reconnect refill_below fetches s =
     (if length (sample_buffer s) < refill_below \<and> fetches < MAX_FETCHES_PER_WORK
      then (case fetch_samples D aligned (sample_buffer s = []) (env fetches) s of
              (Inr fetched, s1) \<Rightarrow>
                if fetched = 0 then (True, s1)
                else refill_loop D aligned env reconnect refill_below (fetches + 1) s1
            | (Inl e, s1) \<Rightarrow>
                (False, snd (start_stream reconnect (cleanup_stream (s1\<lparr>stream_active := False\<rparr>)))))
      else (True, s))"
  by pat_completeness auto
termination
  by (relation "measure (\<lambda>(D, a, env, r, b, fetches, s). MAX_FETCHES_PER_WORK - fetches)") auto

declare refill_loop.simps [simp del]

definition restart_stream :: "start_answers \<Rightarrow> ('k, 'h) http_source \<Rightarrow> ('k, 'h) http_source" where
  "restart_stream a s =
     (let s1 = cleanup_stream (s\<lparr>link_check := Unmeasured\<rparr>);
          s2 = clear_buffer (s1\<lparr>stream_active := False\<rparr>)
      in snd (start_stream a s2))"

text \<open>
  The request to restart is taken from the shared statistics. Then the output's size is learned
  once, the buffer refilled, and its samples handed over with their breaks reported first.
\<close>

definition take_restart_request :: "('k, 'h) http_source \<Rightarrow> bool \<times> ('k, 'h) http_source" where
  "take_restart_request s =
     (case shared_stats s of
        Some stats \<Rightarrow>
          if restart_pending stats
          then (True, s\<lparr>shared_stats := Some (stats\<lparr>restart_pending := False\<rparr>)\<rparr>) else (False, s)
      | None \<Rightarrow> (False, s))"

definition work ::
  "(nat \<Rightarrow> stream_discontinuity \<Rightarrow> 'k \<Rightarrow> 'k) \<Rightarrow> deps \<Rightarrow> (nat \<Rightarrow> bool) \<Rightarrow> (nat \<Rightarrow> sweep_env) \<Rightarrow>
   start_answers \<Rightarrow> start_answers \<Rightarrow> nat \<Rightarrow> nat \<Rightarrow> ('k, 'h) http_source \<Rightarrow>
   complex32 list \<times> bool \<times> ('k, 'h) http_source" where
  "work record_break D aligned env restart reconnect o_len max_items s =
     (let (restart_triggered, s1) = take_restart_request s;
          s2 = (if restart_triggered then restart_stream restart s1 else s1);
          s3 = (if downstream_capacity s2 = 0 \<and> max_items \<noteq> USIZE_MAX
                then s2\<lparr>downstream_capacity := max_items\<rparr> else s2);
          refill_cap = refill_capacity s3;
          refill_below = min (max (refill_cap div 2) o_len) refill_cap;
          (stocked, s4) = refill_loop D aligned env reconnect refill_below 0 s3
      in if \<not> stocked then ([], True, s4)
         else let (out, s5) = emit record_break o_len s4
              in (out, sample_buffer s5 = [], s5))"

section \<open>Construction\<close>

text \<open>
  The checks in the order they are made; the building of the two HTTP clients and the runtime
  handle are outcomes of other crates.
\<close>

definition with_advanced_options ::
  "(string \<Rightarrow> string option) \<Rightarrow> unit result \<Rightarrow> unit result \<Rightarrow> string \<Rightarrow>
   f64 \<Rightarrow> f64 \<Rightarrow> f64 option \<Rightarrow> nat \<Rightarrow> stream_format \<Rightarrow> auth_method \<Rightarrow> string option \<Rightarrow> nat option \<Rightarrow> f64 option \<Rightarrow>
   ('k, 'h) http_source result" where
  "with_advanced_options scheme_of clients_ok runtime_ok base_url
     center rate level buffer_samples format auth input reduction scale =
     bind_result (validate_base_url scheme_of base_url) (\<lambda>u.
     bind_result (validate_rate_reduction reduction) (\<lambda>u. bind_result clients_ok (\<lambda>u.
     bind_result runtime_ok (\<lambda>u.
       Ok \<lparr>sample_buffer = [], sink = None, produced = 0, pending_breaks = [], epoch_center_hz = None,
           epoch_rate_hz = None, published_geometry = None, hs_base_url = base_url,
           hs_endpoints = endpoints_client_new base_url auth, max_packet_samples = 0, max_chunk_bytes = 0,
           downstream_capacity = 0, hs_format = format, hs_parser = parser_new format scale,
           input_name = input, rate_reduction = reduction, hs_scale = scale, stream_active = False,
           current_frequency = center, current_sample_rate = rate, configured_center_hz = center,
           configured_rate_hz = rate, overflow_samples = 0, next_overflow_report = 1,
           stream_gap_seconds = zero, next_gap_report = 1, non_iq_packets_skipped = 0,
           packets_lost_to_parse_errors = 0, next_parse_loss_report = 1, link_check = Unmeasured,
           link_device_rate = None, chunk_rx = None, buffer_size = buffer_samples, reference_level_dbm = level,
           shared_stats = None, detector = detector_default, initial_tune_done = False,
           listen_only = False, device_writes = [], gap_probes = []\<rparr>))))"

text \<open>The builder, with its defaults; \<open>sink\<close> and \<open>stats\<close> are the handles it shares.\<close>

record ('k, 'h) source_builder =
  sb_base_url :: string
  sb_auth :: auth_method
  sb_center_frequency_hz :: f64
  sb_sample_rate_hz :: f64
  sb_reference_level_dbm :: "f64 option"
  sb_listen_only :: bool
  sb_buffer_size :: nat
  sb_timeout_ms :: nat
  sb_stream_format :: stream_format
  sb_input_name :: "string option"
  sb_rate_reduction :: "nat option"
  sb_scale :: "f64 option"
  sb_shared_stats :: "('h stream_stats) option"
  sb_break_sink :: "'k option"

definition builder_new :: "string \<Rightarrow> ('k, 'h) source_builder" where
  "builder_new base_url =
     \<lparr>sb_base_url = base_url, sb_auth = NoAuth, sb_center_frequency_hz = lit B64 (100 * 10 ^ 6),
      sb_sample_rate_hz = lit B64 (10 ^ 6), sb_reference_level_dbm = None, sb_listen_only = False,
      sb_buffer_size = 4096, sb_timeout_ms = 15000, sb_stream_format = CAPTURE_DEFAULT, sb_input_name = None,
      sb_rate_reduction = None, sb_scale = None, sb_shared_stats = None, sb_break_sink = None\<rparr>"

definition center_frequency_str :: "string \<Rightarrow> ('k, 'h) source_builder \<Rightarrow> ('k, 'h) source_builder result" where
  "center_frequency_str freq b =
     bind_result (parse_frequency freq) (\<lambda>hz. Ok (b\<lparr>sb_center_frequency_hz := hz\<rparr>))"

definition sample_rate_str :: "string \<Rightarrow> ('k, 'h) source_builder \<Rightarrow> ('k, 'h) source_builder result" where
  "sample_rate_str rate b =
     bind_result (parse_sample_rate rate) (\<lambda>hz. Ok (b\<lparr>sb_sample_rate_hz := hz\<rparr>))"

definition with_shared_stats :: "'h stream_stats \<Rightarrow> ('k, 'h) source_builder \<Rightarrow> ('k, 'h) source_builder" where
  "with_shared_stats stats b = b\<lparr>sb_shared_stats := Some stats\<rparr>"

definition with_stream_breaks :: "'k \<Rightarrow> ('k, 'h) source_builder \<Rightarrow> ('k, 'h) source_builder" where
  "with_stream_breaks k b = b\<lparr>sb_break_sink := Some k\<rparr>"

definition set_listen_only :: "bool \<Rightarrow> ('k, 'h) source_builder \<Rightarrow> ('k, 'h) source_builder" where
  "set_listen_only on b = b\<lparr>sb_listen_only := on\<rparr>"

definition build_source ::
  "(string \<Rightarrow> string option) \<Rightarrow> unit result \<Rightarrow> unit result \<Rightarrow>
   ('k, 'h) source_builder \<Rightarrow> ('k, 'h) http_source result" where
  "build_source scheme_of clients_ok runtime_ok b =
     bind_result (with_advanced_options scheme_of clients_ok runtime_ok (sb_base_url b) (sb_center_frequency_hz b)
         (sb_sample_rate_hz b) (sb_reference_level_dbm b) (sb_buffer_size b) (sb_stream_format b) (sb_auth b)
         (sb_input_name b) (sb_rate_reduction b) (sb_scale b)) (\<lambda>source.
       Ok (source\<lparr>shared_stats := sb_shared_stats b, sink := sb_break_sink b,
                  listen_only := sb_listen_only b\<rparr>))"

end
