(* ===== verification/Source_Contract.thy ===== *)
theory Source_Contract
  imports Http_Source Break_Contract
begin

text \<open>
  What the block of \<open>src/src/http_source.rs\<close> keeps through its operations: the bound of
  the sample buffer, the order of its breaks, the account of its samples, and what it writes to
  the device.
\<close>

section \<open>What the operations leave alone\<close>

text \<open>The fields the capacity depends on beside the largest packet, and those of the device side.\<close>

definition settings :: "('k, 'h) http_source \<Rightarrow> nat \<times> stream_format \<times> nat \<times> nat" where
  "settings s = (buffer_size s, hs_format s, downstream_capacity s, max_chunk_bytes s)"

definition writes :: "('k, 'h) http_source \<Rightarrow> device_write list \<times> bool \<times> bool" where
  "writes s = (device_writes s, listen_only s, initial_tune_done s)"

named_theorems source_frame \<open>fields an operation of the source does not touch\<close>

lemma queue_frame [source_frame]:
  fixes s :: "('k, 'h) http_source"
  shows
  "settings (note_break c s) = settings s" "writes (note_break c s) = writes s"
  "max_packet_samples (note_break c s) = max_packet_samples s"
  "overflow_samples (note_break c s) = overflow_samples s"
  "settings (note_geometry p s) = settings s" "writes (note_geometry p s) = writes s"
  "max_packet_samples (note_geometry p s) = max_packet_samples s"
  "overflow_samples (note_geometry p s) = overflow_samples s"
  "settings (trim_buffer n s) = settings s" "writes (trim_buffer n s) = writes s"
  "max_packet_samples (trim_buffer n s) = max_packet_samples s"
  "overflow_samples (trim_buffer n s) = overflow_samples s"
  "settings (clear_buffer s) = settings s" "writes (clear_buffer s) = writes s"
  "max_packet_samples (clear_buffer s) = max_packet_samples s"
  "settings (extend_buffer xs s) = settings s" "writes (extend_buffer xs s) = writes s"
  "max_packet_samples (extend_buffer xs s) = max_packet_samples s"
  "overflow_samples (extend_buffer xs s) = overflow_samples s"
  by (simp_all add: settings_def writes_def note_break_def note_geometry_def trim_buffer_def note_trim_def
      clear_buffer_def note_buffer_cleared_def extend_buffer_def Let_def split: option.split)

text \<open>Updates of the fields that neither group reads.\<close>

lemma update_frame [source_frame]:
  "settings (s\<lparr>current_frequency := f\<rparr>) = settings s" "writes (s\<lparr>current_frequency := f\<rparr>) = writes s"
  "settings (s\<lparr>current_sample_rate := f\<rparr>) = settings s" "writes (s\<lparr>current_sample_rate := f\<rparr>) = writes s"
  "settings (s\<lparr>link_check := l\<rparr>) = settings s" "writes (s\<lparr>link_check := l\<rparr>) = writes s"
  "settings (s\<lparr>link_device_rate := r\<rparr>) = settings s" "writes (s\<lparr>link_device_rate := r\<rparr>) = writes s"
  "settings (s\<lparr>detector := d\<rparr>) = settings s" "writes (s\<lparr>detector := d\<rparr>) = writes s"
  "settings (s\<lparr>stream_gap_seconds := f\<rparr>) = settings s" "writes (s\<lparr>stream_gap_seconds := f\<rparr>) = writes s"
  "settings (s\<lparr>next_gap_report := n\<rparr>) = settings s" "writes (s\<lparr>next_gap_report := n\<rparr>) = writes s"
  "settings (s\<lparr>gap_probes := g\<rparr>) = settings s" "writes (s\<lparr>gap_probes := g\<rparr>) = writes s"
  "settings (s\<lparr>overflow_samples := n\<rparr>) = settings s" "writes (s\<lparr>overflow_samples := n\<rparr>) = writes s"
  "settings (s\<lparr>next_overflow_report := n\<rparr>) = settings s" "writes (s\<lparr>next_overflow_report := n\<rparr>) = writes s"
  "settings (s\<lparr>max_packet_samples := n\<rparr>) = settings s" "writes (s\<lparr>max_packet_samples := n\<rparr>) = writes s"
  "settings (s\<lparr>non_iq_packets_skipped := n\<rparr>) = settings s" "writes (s\<lparr>non_iq_packets_skipped := n\<rparr>) = writes s"
  "settings (s\<lparr>packets_lost_to_parse_errors := n\<rparr>) = settings s" "writes (s\<lparr>packets_lost_to_parse_errors := n\<rparr>) = writes s"
  "settings (s\<lparr>next_parse_loss_report := n\<rparr>) = settings s" "writes (s\<lparr>next_parse_loss_report := n\<rparr>) = writes s"
  "settings (s\<lparr>shared_stats := st\<rparr>) = settings s" "writes (s\<lparr>shared_stats := st\<rparr>) = writes s"
  "settings (s\<lparr>hs_parser := q\<rparr>) = settings s" "writes (s\<lparr>hs_parser := q\<rparr>) = writes s"
  "settings (s\<lparr>chunk_rx := c\<rparr>) = settings s" "writes (s\<lparr>chunk_rx := c\<rparr>) = writes s"
  "settings (s\<lparr>stream_active := b\<rparr>) = settings s" "writes (s\<lparr>stream_active := b\<rparr>) = writes s"
  "settings (s\<lparr>input_name := i\<rparr>) = settings s" "writes (s\<lparr>input_name := i\<rparr>) = writes s"
  by (simp_all add: settings_def writes_def)

lemma item_frame [source_frame]:
  "settings (note_device_rate now r s) = settings s" "writes (note_device_rate now r s) = writes s"
  "max_packet_samples (note_device_rate now r s) = max_packet_samples s"
  "overflow_samples (note_device_rate now r s) = overflow_samples s"
  "sample_buffer (note_device_rate now r s) = sample_buffer s"
  by (simp_all add: settings_def writes_def note_device_rate_def Let_def)

lemma continuity_frame [source_frame]:
  "settings (check_continuity p s) = settings s" "writes (check_continuity p s) = writes s"
  "max_packet_samples (check_continuity p s) = max_packet_samples s"
  "overflow_samples (check_continuity p s) = overflow_samples s"
  "sample_buffer (check_continuity p s) = sample_buffer s"
  unfolding check_continuity_def Let_def spawn_gap_health_probe_def
  by (simp_all add: settings_def writes_def note_break_def Let_def split: prod.split drop_result.split)

lemma metadata_frame [source_frame]:
  "settings (track_metadata now p s) = settings s" "writes (track_metadata now p s) = writes s"
  "max_packet_samples (track_metadata now p s) = max_packet_samples s"
  "overflow_samples (track_metadata now p s) = overflow_samples s"
  "sample_buffer (track_metadata now p s) = sample_buffer s"
  by (simp_all add: track_metadata_def Let_def source_frame)

section \<open>What is kept through every operation\<close>

text \<open>
  A predicate that survives one parsed item, opening and closing the stream, handing samples
  over, and changes of the bookkeeping fields survives every call of the block.
\<close>

locale refill_invariant =
  fixes I :: "('k, 'h) http_source \<Rightarrow> bool"
  assumes item: "I s \<Longrightarrow> I (snd (process_item now i s))"
    and bookkeeping: "I s \<Longrightarrow> I (s\<lparr>hs_parser := q\<rparr>)" "I s \<Longrightarrow> I (s\<lparr>shared_stats := st\<rparr>)"
      "I s \<Longrightarrow> I (s\<lparr>chunk_rx := c\<rparr>)" "I s \<Longrightarrow> I (s\<lparr>link_check := Unmeasured\<rparr>)"
      "I s \<Longrightarrow> I (s\<lparr>stream_active := active\<rparr>)"
    and metering: "I s \<Longrightarrow> link_check s = Measuring m \<Longrightarrow> I (s\<lparr>link_check := Measuring m'\<rparr>)"
    and judging: "I s \<Longrightarrow> link_check s = Measuring m \<Longrightarrow> I (s\<lparr>link_check := Done (Some v)\<rparr>)"
    and larger_chunk: "I s \<Longrightarrow> max_chunk_bytes s \<le> n \<Longrightarrow> I (s\<lparr>max_chunk_bytes := n\<rparr>)"
    and downstream: "I s \<Longrightarrow> downstream_capacity s = 0 \<Longrightarrow> I (s\<lparr>downstream_capacity := n\<rparr>)"
    and opens: "I s \<Longrightarrow> I (snd (start_stream a s))"
    and closes: "I s \<Longrightarrow> I (cleanup_stream s)"
    and clearing: "I s \<Longrightarrow> I (clear_buffer s)"
begin

lemma items: "I s \<Longrightarrow> I (snd (process_items now is s))"
  by (induction "is" arbitrary: s) (auto simp: item split_beta)

lemma refresh: "I s \<Longrightarrow> I (refresh_stats elapsed s)"
  by (auto simp: refresh_stats_def bookkeeping split: option.split)

lemma chunk:
  assumes "I s"
  shows "I (snd (process_advanced_stream_data D aligned now elapsed data s))"
  using assms
  by (auto simp: process_advanced_stream_data_def Let_def split_beta bookkeeping items refresh split: sum.split)

lemma chunks:
  "I s \<Longrightarrow> I (snd (snd (snd (process_chunks D aligned now elapsed cs s))))"
proof (induction cs arbitrary: s)
  case (Cons c cs)
  obtain r s1 where r: "process_advanced_stream_data D aligned now elapsed c s = (r, s1)" by fastforce
  with chunk [OF Cons.prems, of D aligned now elapsed c] have "I s1" by simp
  with Cons.IH [OF this] r show ?case by (cases r) (auto simp: split_beta)
qed simp

lemma meter: "I s \<Longrightarrow> I (meter_sweep now iq full s)"
  by (auto simp: meter_sweep_def Let_def metering split: link_check.split option.split)

lemma report:
  assumes "I s"
  shows "I (report_link_budget now s)"
proof -
  have "I ((publish_verdict v s)\<lparr>link_check := Done (Some v)\<rparr>)" if "link_check s = Measuring m" for m v
    using judging [OF bookkeeping(2) [OF assms], of "map_option (\<lambda>stats. stats\<lparr>ss_link_budget := Some v\<rparr>) (shared_stats s)" m v] that
    by (simp add: publish_verdict_def)
  with assms show ?thesis
    by (auto simp: report_link_budget_def armed_at_def Let_def metering split: link_check.split option.split)
qed

lemma foldl_max: "(m :: nat) \<le> foldl max m ns"
  by (induction ns arbitrary: m) (auto intro: order_trans [OF max.cobounded1])

lemma fetch:
  assumes "I s"
  shows "I (snd (fetch_samples D aligned wait env s))"
proof (cases "chunk_rx s")
  case None
  with assms show ?thesis by (simp add: fetch_samples_def)
next
  case (Some rx)
  have "I (s\<lparr>chunk_rx := Some c, max_chunk_bytes := foldl max (max_chunk_bytes s) ns\<rparr>)" for c ns
    using larger_chunk [OF bookkeeping(3) [OF assms]] foldl_max by fastforce
  then show ?thesis
    using assms unfolding fetch_samples_def Some
    by (auto simp: Let_def split_beta bookkeeping closes intro!: report meter chunks split: option.split)
qed

lemma refill: "I s \<Longrightarrow> I (snd (refill_loop D aligned env reconnect bound fetches s))"
proof (induction D aligned env reconnect bound fetches s rule: refill_loop.induct)
  case (1 D aligned env reconnect bound fetches s)
  obtain r s1 where r: "fetch_samples D aligned (sample_buffer s = []) (env fetches) s = (r, s1)" by fastforce
  with fetch [OF 1(2), of D aligned "sample_buffer s = []" "env fetches"] have s1: "I s1" by simp
  with 1 r show ?case
    by (subst refill_loop.simps) (auto simp: bookkeeping opens closes split: sum.split)
qed

lemma restarting: "I s \<Longrightarrow> I (restart_stream a s)"
  by (simp add: restart_stream_def Let_def bookkeeping opens closes clearing)

lemma requested: "I s \<Longrightarrow> I (snd (take_restart_request s))"
  by (simp add: take_restart_request_def bookkeeping split: option.split)

lemma health: "I s \<Longrightarrow> I (health_probe_answer n blocks s)"
  by (simp add: health_probe_answer_def bookkeeping split: option.split)

text \<open>Everything \<open>work\<close> does before it hands samples over.\<close>

lemma before_emission:
  assumes "I s" "work record_break D aligned env restart reconnect o_len max_items s = (out, again, s')"
  shows "\<exists>t. I t \<and> (out = [] \<and> s' = t \<or> (out, s') = emit record_break o_len t)"
proof -
  let ?s1 = "snd (take_restart_request s)"
  let ?s2 = "if fst (take_restart_request s) then restart_stream restart ?s1 else ?s1"
  have "I ?s2" using requested [OF assms(1)] by (simp add: restarting)
  then have "I (if downstream_capacity ?s2 = 0 \<and> max_items \<noteq> USIZE_MAX
      then ?s2\<lparr>downstream_capacity := max_items\<rparr> else ?s2)" (is "I ?s3")
    by (simp add: downstream)
  define bound where "bound = min (max (refill_capacity ?s3 div 2) o_len) (refill_capacity ?s3)"
  obtain stocked t where t: "refill_loop D aligned env reconnect bound 0 ?s3 = (stocked, t)" by fastforce
  with refill [OF \<open>I ?s3\<close>, of D aligned env reconnect bound 0] have "I t" by simp
  moreover have "work record_break D aligned env restart reconnect o_len max_items s =
      (if \<not> stocked then ([], True, t)
       else (fst (emit record_break o_len t), sample_buffer (snd (emit record_break o_len t)) = [], snd (emit record_break o_len t)))"
    using t unfolding work_def Let_def bound_def by (simp only: split_beta fst_conv snd_conv)
  ultimately show ?thesis
    using assms(2) by (metis prod.inject prod.collapse)
qed

end

locale source_invariant = refill_invariant I
  for I :: "('k, 'h) http_source \<Rightarrow> bool" +
  fixes record_break :: "nat \<Rightarrow> stream_discontinuity \<Rightarrow> 'k \<Rightarrow> 'k"
  assumes emission: "I s \<Longrightarrow> I (snd (emit record_break room s))"
begin

lemma working:
  assumes "I s" "work record_break D aligned env restart reconnect o_len max_items s = (out, again, s')"
  shows "I s'"
  using before_emission [OF assms] emission by (metis snd_conv)

end

section \<open>The sample buffer stays within its capacity\<close>

lemma capacity_mono:
  assumes "settings s = settings t" "max_packet_samples s \<le> max_packet_samples t"
  shows "refill_capacity s \<le> refill_capacity t" "buffer_capacity s \<le> buffer_capacity t"
proof -
  have f: "buffer_size t = buffer_size s" "hs_format t = hs_format s"
    "downstream_capacity t = downstream_capacity s" "max_chunk_bytes t = max_chunk_bytes s"
    using assms(1) by (simp_all add: settings_def)
  show r: "refill_capacity s \<le> refill_capacity t"
    unfolding refill_capacity_def f Let_def
    using sat_mul_mono [OF assms(2) order_refl, of PACKET_CAPACITY_FACTOR] sat_add_mono [OF order_refl assms(2)]
    by (meson max.mono order_refl)
  have "catch_up_headroom s \<le> catch_up_headroom t"
    unfolding catch_up_headroom_def f
    using sat_add_mono [OF order_refl assms(2)] by (auto split: option.split)
  with r show "buffer_capacity s \<le> buffer_capacity t"
    unfolding buffer_capacity_def by (rule sat_add_mono)
qed

definition within_capacity :: "('k, 'h) http_source \<Rightarrow> bool" where
  "within_capacity s = (length (sample_buffer s) \<le> buffer_capacity s)"

lemma enforce_frame [source_frame]:
  "settings (enforce_capacity s) = settings s" "writes (enforce_capacity s) = writes s"
  "max_packet_samples (enforce_capacity s) = max_packet_samples s"
  "length (sample_buffer (enforce_capacity s)) = min (length (sample_buffer s)) (buffer_capacity s)"
  "overflow_samples (enforce_capacity s) =
     (if buffer_capacity s < length (sample_buffer s)
      then sat_add (overflow_samples s) (length (sample_buffer s) - buffer_capacity s) else overflow_samples s)"
  by (simp_all add: enforce_capacity_def Let_def source_frame)

lemma enforce_within: "within_capacity (enforce_capacity s)"
proof -
  let ?cap = "buffer_capacity s"
  have "buffer_capacity (enforce_capacity s) = ?cap"
    using capacity_mono(2) [of "enforce_capacity s" s] capacity_mono(2) [of s "enforce_capacity s"]
    by (simp add: source_frame)
  then show ?thesis by (simp add: within_capacity_def source_frame)
qed

text \<open>Samples in the buffer, samples trimmed away, samples added: none vanishes.\<close>

definition held :: "('k, 'h) http_source \<Rightarrow> nat" where
  "held s = length (sample_buffer s) + overflow_samples s"

lemma queue_packet_frame [source_frame]:
  "settings (queue_packet p s) = settings s" "writes (queue_packet p s) = writes s"
  "max_packet_samples (queue_packet p s) = max (max_packet_samples s) (length (pkt_samples p))"
  by (simp_all add: queue_packet_def source_frame)

lemma queue_packet_held:
  assumes "overflow_samples (queue_packet p s) < USIZE_MAX"
  shows "held (queue_packet p s) = held s + length (pkt_samples p)"
  using assms
  by (auto simp: held_def queue_packet_def sat_add_def source_frame min_def split: if_splits)

section \<open>The invariants\<close>

lemma queue_ok_frame [source_frame]:
  fixes s :: "(recording_sink, 'h) http_source"
  shows
  "recording.queue_ok (s\<lparr>hs_parser := q\<rparr>) = recording.queue_ok s"
  "recording.queue_ok (s\<lparr>shared_stats := st\<rparr>) = recording.queue_ok s"
  "recording.queue_ok (s\<lparr>chunk_rx := c\<rparr>) = recording.queue_ok s"
  "recording.queue_ok (s\<lparr>link_check := l\<rparr>) = recording.queue_ok s"
  "recording.queue_ok (s\<lparr>link_device_rate := r\<rparr>) = recording.queue_ok s"
  "recording.queue_ok (s\<lparr>stream_active := b\<rparr>) = recording.queue_ok s"
  "recording.queue_ok (s\<lparr>max_chunk_bytes := n\<rparr>) = recording.queue_ok s"
  "recording.queue_ok (s\<lparr>max_packet_samples := n\<rparr>) = recording.queue_ok s"
  "recording.queue_ok (s\<lparr>downstream_capacity := n\<rparr>) = recording.queue_ok s"
  "recording.queue_ok (s\<lparr>detector := d\<rparr>) = recording.queue_ok s"
  "recording.queue_ok (s\<lparr>device_writes := w\<rparr>) = recording.queue_ok s"
  "recording.queue_ok (s\<lparr>initial_tune_done := b\<rparr>) = recording.queue_ok s"
  "recording.queue_ok (s\<lparr>input_name := i\<rparr>) = recording.queue_ok s"
  "recording.queue_ok (s\<lparr>overflow_samples := n\<rparr>) = recording.queue_ok s"
  "recording.queue_ok (s\<lparr>next_overflow_report := n\<rparr>) = recording.queue_ok s"
  "recording.queue_ok (s\<lparr>non_iq_packets_skipped := n\<rparr>) = recording.queue_ok s"
  "recording.queue_ok (s\<lparr>packets_lost_to_parse_errors := n\<rparr>) = recording.queue_ok s"
  "recording.queue_ok (s\<lparr>next_parse_loss_report := n\<rparr>) = recording.queue_ok s"
  "recording.queue_ok (s\<lparr>stream_gap_seconds := f\<rparr>) = recording.queue_ok s"
  "recording.queue_ok (s\<lparr>next_gap_report := n\<rparr>) = recording.queue_ok s"
  "recording.queue_ok (s\<lparr>gap_probes := g\<rparr>) = recording.queue_ok s"
  "recording.queue_ok (s\<lparr>current_frequency := f\<rparr>) = recording.queue_ok s"
  "recording.queue_ok (s\<lparr>current_sample_rate := f\<rparr>) = recording.queue_ok s"
  by (simp_all add: recording.queue_ok_def recording.order_ok_def recording.epoch_ok_def recording.reported_def)

lemma start_ok: "recording.queue_ok s \<Longrightarrow> recording.queue_ok (snd (start_stream a s))"
  by (simp add: start_stream_def configure_rtsa_device_def write_connect_run_def apply_initial_tune_def
      log_write_def arm_link_check_def Let_def source_frame split: sum.split link_check.split)

lemma continuity_ok: "recording.queue_ok s \<Longrightarrow> recording.queue_ok (check_continuity p s)"
  unfolding check_continuity_def Let_def spawn_gap_health_probe_def
  by (simp add: source_frame recording.note_break_ok split: prod.split drop_result.split)

lemma metadata_ok: "recording.queue_ok s \<Longrightarrow> recording.queue_ok (track_metadata now p s)"
  by (simp add: track_metadata_def note_device_rate_def Let_def recording.note_geometry_ok source_frame)

lemma queue_packet_ok: "recording.queue_ok s \<Longrightarrow> recording.queue_ok (queue_packet p s)"
  by (simp add: queue_packet_def enforce_capacity_def Let_def source_frame recording.extend_ok recording.trim_ok)

lemma process_item_ok: "recording.queue_ok s \<Longrightarrow> recording.queue_ok (snd (process_item now i s))"
  by (cases i) (simp_all add: note_lost_packet_def note_undecoded_non_iq_packet_def note_non_iq_packet_def
      Let_def source_frame recording.note_break_ok continuity_ok metadata_ok queue_packet_ok)

interpretation ordered: source_invariant "recording.queue_ok :: (recording_sink, 'h) http_source \<Rightarrow> bool" recording_record
  by unfold_locales
    (simp_all add: process_item_ok start_ok source_frame recording.clear_ok recording.emit_ok
      cleanup_stream_def log_write_def Let_def recording.note_break_ok)

lemma emit_frame [source_frame]:
  fixes s :: "('k, 'h) http_source"
  shows
  "settings (snd (emit r n s)) = settings s" "writes (snd (emit r n s)) = writes s"
  "max_packet_samples (snd (emit r n s)) = max_packet_samples s"
  "sample_buffer (snd (emit r n s)) = drop n (sample_buffer s)"
  by (simp_all add: emit_def publish_breaks_def settings_def writes_def Let_def split: option.split prod.split)

lemma open_frame [source_frame]:
  "settings (log_write w s) = settings s" "max_packet_samples (log_write w s) = max_packet_samples s"
  "sample_buffer (log_write w s) = sample_buffer s"
  "settings (s\<lparr>initial_tune_done := b\<rparr>) = settings s"
  "settings (arm_link_check now s) = settings s" "max_packet_samples (arm_link_check now s) = max_packet_samples s"
  "sample_buffer (arm_link_check now s) = sample_buffer s"
  by (simp_all add: settings_def log_write_def arm_link_check_def split: link_check.split)

lemma configure_frame [source_frame]:
  "settings (snd (configure_rtsa_device a s)) = settings s"
  "max_packet_samples (snd (configure_rtsa_device a s)) = max_packet_samples s"
  "sample_buffer (snd (configure_rtsa_device a s)) = sample_buffer s"
  by (simp_all add: configure_rtsa_device_def write_connect_run_def apply_initial_tune_def Let_def split_beta
      source_frame split: sum.split)

lemma start_frame [source_frame]:
  "settings (snd (start_stream a s)) = settings s"
  "max_packet_samples (snd (start_stream a s)) = max_packet_samples s"
  "sample_buffer (snd (start_stream a s)) = sample_buffer s"
  by (simp_all add: start_stream_def Let_def source_frame split: sum.split)

lemma cleanup_frame [source_frame]:
  "settings (cleanup_stream s) = settings s"
  "max_packet_samples (cleanup_stream s) = max_packet_samples s"
  "sample_buffer (cleanup_stream s) = sample_buffer s"
  by (simp_all add: settings_def cleanup_stream_def log_write_def note_break_def Let_def)

lemma within_capacity_mono:
  assumes "within_capacity s" "settings s = settings t" "max_packet_samples s \<le> max_packet_samples t"
    and "length (sample_buffer t) \<le> length (sample_buffer s)"
  shows "within_capacity t"
  using assms capacity_mono(2) [OF assms(2,3)] by (simp add: within_capacity_def)

lemma other_items_within:
  "within_capacity s \<Longrightarrow> within_capacity (note_lost_packet s)"
  "within_capacity s \<Longrightarrow> within_capacity (note_undecoded_non_iq_packet s)"
  "within_capacity s \<Longrightarrow> within_capacity (note_non_iq_packet s)"
  by (erule within_capacity_mono; simp add: note_lost_packet_def note_undecoded_non_iq_packet_def
      note_non_iq_packet_def Let_def settings_def note_break_def)+

lemma process_item_within: "within_capacity s \<Longrightarrow> within_capacity (snd (process_item now i s))"
  by (cases i) (simp_all add: other_items_within queue_packet_def enforce_within)

lemma div_ceil_mono: "a \<le> b \<Longrightarrow> div_ceil a n \<le> div_ceil b n"
  by (simp add: div_ceil_def div_le_mono)

lemma larger_settings:
  "max_chunk_bytes s \<le> n \<Longrightarrow> buffer_capacity s \<le> buffer_capacity (s\<lparr>max_chunk_bytes := n\<rparr>)"
  "downstream_capacity s \<le> n \<Longrightarrow> buffer_capacity s \<le> buffer_capacity (s\<lparr>downstream_capacity := n\<rparr>)"
proof -
  assume le: "max_chunk_bytes s \<le> n"
  have "catch_up_headroom s \<le> catch_up_headroom (s\<lparr>max_chunk_bytes := n\<rparr>)"
    using sat_add_mono [OF div_ceil_mono [OF sat_mul_mono [OF order_refl le]] order_refl] le
    by (auto simp: catch_up_headroom_def split: option.split)
  moreover have "refill_capacity (s\<lparr>max_chunk_bytes := n\<rparr>) = refill_capacity s" by (simp add: refill_capacity_def)
  ultimately show "buffer_capacity s \<le> buffer_capacity (s\<lparr>max_chunk_bytes := n\<rparr>)"
    by (simp add: buffer_capacity_def sat_add_mono)
next
  assume le: "downstream_capacity s \<le> n"
  have "refill_capacity s \<le> refill_capacity (s\<lparr>downstream_capacity := n\<rparr>)"
    using sat_add_mono [OF le order_refl, of "max_packet_samples s"]
    by (simp add: refill_capacity_def Let_def max.coboundedI2)
  moreover have "catch_up_headroom (s\<lparr>downstream_capacity := n\<rparr>) = catch_up_headroom s"
    by (simp add: catch_up_headroom_def cong: option.case_cong)
  ultimately show "buffer_capacity s \<le> buffer_capacity (s\<lparr>downstream_capacity := n\<rparr>)"
    by (simp add: buffer_capacity_def sat_add_mono)
qed

interpretation bounded: source_invariant "within_capacity :: ('k, 'h) http_source \<Rightarrow> bool" record_break
proof
  fix s :: "('k, 'h) http_source" and n
  assume "within_capacity s"
  then show "max_chunk_bytes s \<le> n \<Longrightarrow> within_capacity (s\<lparr>max_chunk_bytes := n\<rparr>)"
    "downstream_capacity s = 0 \<Longrightarrow> within_capacity (s\<lparr>downstream_capacity := n\<rparr>)"
    using larger_settings [of s n] by (auto simp: within_capacity_def)
qed (auto simp: process_item_within source_frame elim!: within_capacity_mono)

text \<open>What a passive source never does, and what any source does once.\<close>

definition hands_off :: "('k, 'h) http_source \<Rightarrow> bool" where
  "hands_off s = (listen_only s \<longrightarrow> device_writes s = [])"

fun is_tune :: "device_write \<Rightarrow> bool" where
  "is_tune (CaptureConfig c d l) = True"
| "is_tune w = False"

definition tuned_once :: "('k, 'h) http_source \<Rightarrow> bool" where
  "tuned_once s =
     (let tunes = filter is_tune (device_writes s)
      in if initial_tune_done s then length tunes \<le> 1 else tunes = [])"

lemma hands_off_frame: "writes s = writes t \<Longrightarrow> hands_off s = hands_off t"
  "writes s = writes t \<Longrightarrow> tuned_once s = tuned_once t"
  by (simp_all add: hands_off_def tuned_once_def writes_def)

lemma process_item_writes: "writes (snd (process_item now i s)) = writes s"
  by (cases i) (simp_all add: source_frame note_lost_packet_def note_undecoded_non_iq_packet_def
      note_non_iq_packet_def Let_def)

text \<open>What opening the stream writes.\<close>

definition tune_writes :: "start_answers \<Rightarrow> ('k, 'h) http_source \<Rightarrow> device_write list" where
  "tune_writes a s =
     (let center = when_positive (configured_center_hz s);
          rate = when_positive (configured_rate_hz s);
          level = reference_level_dbm s
      in CaptureConfig center (map_option decimation_index_for_rate rate) level #
         (if is_ok (capture_config_answer a) \<or> (center = None \<and> rate = None \<and> level = None) then []
          else [CaptureControl center rate (map_option (cast_fl B32) level)]))"

definition opening_writes :: "start_answers \<Rightarrow> ('k, 'h) http_source \<Rightarrow> device_write list" where
  "opening_writes a s =
     (if listen_only s then []
      else (case config_answer a of Inr r \<Rightarrow> [ConnectRun (r + 1)] | _ \<Rightarrow> []) @
           (if initial_tune_done s then [] else tune_writes a s) @ [ControlStreaming True])"

lemma arm_frame [source_frame]: "writes (arm_link_check n s) = writes s"
  by (simp add: arm_link_check_def writes_def split: link_check.split)

lemma connect_run_writes:
  "writes (snd (write_connect_run a s)) =
     (device_writes s @ (case config_answer a of Inr r \<Rightarrow> [ConnectRun (r + 1)] | _ \<Rightarrow> []), listen_only s, initial_tune_done s)"
  "configured_center_hz (snd (write_connect_run a s)) = configured_center_hz s"
  "configured_rate_hz (snd (write_connect_run a s)) = configured_rate_hz s"
  "reference_level_dbm (snd (write_connect_run a s)) = reference_level_dbm s"
  by (simp_all add: write_connect_run_def log_write_def writes_def split: sum.split)

lemma initial_tune_writes:
  "writes (apply_initial_tune a s) = (device_writes s @ tune_writes a s, listen_only s, initial_tune_done s)"
  by (auto simp: apply_initial_tune_def tune_writes_def log_write_def writes_def Let_def split: sum.split)

lemma tune_writes_fields:
  assumes "configured_center_hz s = configured_center_hz t" "configured_rate_hz s = configured_rate_hz t"
    and "reference_level_dbm s = reference_level_dbm t"
  shows "tune_writes a s = tune_writes a t"
  using assms by (simp add: tune_writes_def)

lemma configure_writes:
  "writes (snd (configure_rtsa_device a s)) =
     (device_writes s @ (case config_answer a of Inr r \<Rightarrow> [ConnectRun (r + 1)] | _ \<Rightarrow> []) @
        (if initial_tune_done s then [] else tune_writes a s), listen_only s, True)"
proof -
  let ?s = "snd (write_connect_run a s)"
  have "tune_writes a (?s\<lparr>initial_tune_done := True\<rparr>) = tune_writes a s"
    by (rule tune_writes_fields) (simp_all add: connect_run_writes)
  with connect_run_writes(1) [of a s] show ?thesis
    using initial_tune_writes [of a "?s\<lparr>initial_tune_done := True\<rparr>"]
    by (auto simp: configure_rtsa_device_def writes_def Let_def split_beta)
qed

lemma start_writes:
  "writes (snd (start_stream a s)) = (device_writes s @ opening_writes a s, listen_only s, True)"
proof -
  let ?s = "s\<lparr>input_name := select_input (inputs_answer a) (input_name s)\<rparr>"
  let ?t = "if listen_only ?s then ?s\<lparr>initial_tune_done := True\<rparr>
    else log_write (ControlStreaming True) (snd (configure_rtsa_device a ?s))"
  have "writes ?t = (device_writes s @ opening_writes a s, listen_only s, True)"
  proof (cases "listen_only s")
    case False
    have "tune_writes a ?s = tune_writes a s" by (rule tune_writes_fields) simp_all
    with False configure_writes [of a ?s] show ?thesis
      by (auto simp: writes_def log_write_def opening_writes_def split: sum.split)
  qed (simp add: writes_def opening_writes_def)
  moreover have "writes (snd (start_stream a s)) = writes ?t"
    unfolding start_stream_def Let_def
    by (simp add: source_frame split: sum.split)
  ultimately show ?thesis by simp
qed

lemma cleanup_writes:
  "writes (cleanup_stream s) =
     (device_writes s @ (if stream_active s \<and> \<not> listen_only s then [ControlStreaming False] else []),
      listen_only s, initial_tune_done s)"
  by (simp add: cleanup_stream_def log_write_def writes_def note_break_def Let_def)

lemma tune_writes_once: "length (filter is_tune (tune_writes a s)) = 1"
  by (simp add: tune_writes_def Let_def)

lemma opening_tunes:
  "length (filter is_tune (opening_writes a s)) = of_bool (\<not> listen_only s \<and> \<not> initial_tune_done s)"
  by (auto simp: opening_writes_def tune_writes_once split: sum.split)

lemma bookkeeping_writes:
  "writes (s\<lparr>max_chunk_bytes := n\<rparr>) = writes s" "writes (s\<lparr>downstream_capacity := n\<rparr>) = writes s"
  by (simp_all add: writes_def)

lemma hands_off_writes: "hands_off s \<longleftrightarrow> (fst (snd (writes s)) \<longrightarrow> fst (writes s) = [])"
  by (simp add: hands_off_def writes_def)

lemma tuned_once_writes: "tuned_once s \<longleftrightarrow>
   length (filter is_tune (fst (writes s))) \<le> of_bool (snd (snd (writes s)))"
  by (simp add: tuned_once_def writes_def Let_def)

interpretation hands_off: source_invariant "hands_off :: ('k, 'h) http_source \<Rightarrow> bool" record_break
  by unfold_locales
    (simp_all add: hands_off_writes process_item_writes start_writes cleanup_writes bookkeeping_writes source_frame
      opening_writes_def, simp_all add: writes_def)

interpretation tuned: source_invariant "tuned_once :: ('k, 'h) http_source \<Rightarrow> bool" record_break
  by unfold_locales
    (simp_all add: tuned_once_writes process_item_writes start_writes cleanup_writes bookkeeping_writes source_frame
      opening_tunes, auto simp: writes_def of_bool_def split: if_splits)

text \<open>Only handing samples over counts them and reports to the sink.\<close>

definition seen :: "('k, 'h) http_source \<Rightarrow> nat \<times> 'k option" where
  "seen s = (produced s, sink s)"

lemma seen_queue [simp]:
  fixes s :: "('k, 'h) http_source"
  shows "seen (note_break c s) = seen s" "seen (note_geometry p s) = seen s"
    "seen (trim_buffer n s) = seen s" "seen (clear_buffer s) = seen s" "seen (extend_buffer xs s) = seen s"
  by (simp_all add: seen_def note_break_def note_geometry_def trim_buffer_def note_trim_def
      clear_buffer_def note_buffer_cleared_def extend_buffer_def Let_def split: option.split)

lemma seen_update [simp]:
  "seen (s\<lparr>hs_parser := q\<rparr>) = seen s" "seen (s\<lparr>shared_stats := st\<rparr>) = seen s" "seen (s\<lparr>chunk_rx := c\<rparr>) = seen s"
  "seen (s\<lparr>link_check := l\<rparr>) = seen s" "seen (s\<lparr>link_device_rate := r\<rparr>) = seen s"
  "seen (s\<lparr>stream_active := b\<rparr>) = seen s" "seen (s\<lparr>max_chunk_bytes := n\<rparr>) = seen s"
  "seen (s\<lparr>max_packet_samples := n\<rparr>) = seen s" "seen (s\<lparr>downstream_capacity := n\<rparr>) = seen s"
  "seen (s\<lparr>detector := d\<rparr>) = seen s" "seen (s\<lparr>device_writes := w\<rparr>) = seen s"
  "seen (s\<lparr>initial_tune_done := b\<rparr>) = seen s" "seen (s\<lparr>input_name := i\<rparr>) = seen s"
  "seen (s\<lparr>overflow_samples := n\<rparr>) = seen s" "seen (s\<lparr>next_overflow_report := n\<rparr>) = seen s"
  "seen (s\<lparr>non_iq_packets_skipped := n\<rparr>) = seen s" "seen (s\<lparr>packets_lost_to_parse_errors := n\<rparr>) = seen s"
  "seen (s\<lparr>next_parse_loss_report := n\<rparr>) = seen s" "seen (s\<lparr>stream_gap_seconds := f\<rparr>) = seen s"
  "seen (s\<lparr>next_gap_report := n\<rparr>) = seen s" "seen (s\<lparr>gap_probes := g\<rparr>) = seen s"
  "seen (s\<lparr>current_frequency := f\<rparr>) = seen s" "seen (s\<lparr>current_sample_rate := f\<rparr>) = seen s"
  by (simp_all add: seen_def)

lemma seen_item [simp]:
  fixes s :: "('k, 'h) http_source"
  shows "seen (snd (process_item now i s)) = seen s"
proof -
  have "seen (track_metadata now p t) = seen t" for p and t :: "('k, 'h) http_source"
    by (simp add: track_metadata_def note_device_rate_def Let_def)
  moreover have "seen (queue_packet p t) = seen t" for p and t :: "('k, 'h) http_source"
    by (simp add: queue_packet_def enforce_capacity_def Let_def)
  moreover have "seen (check_continuity p t) = seen t" for p and t :: "('k, 'h) http_source"
    unfolding check_continuity_def Let_def spawn_gap_health_probe_def
    by (simp split: prod.split drop_result.split)
  ultimately show ?thesis
    by (cases i) (simp_all add: note_lost_packet_def note_undecoded_non_iq_packet_def note_non_iq_packet_def Let_def)
qed

lemma seen_opening [simp]:
  fixes s :: "('k, 'h) http_source"
  shows "seen (snd (start_stream a s)) = seen s" "seen (cleanup_stream s) = seen s"
proof -
  have "seen (snd (configure_rtsa_device a t)) = seen t" for t :: "('k, 'h) http_source"
    by (simp add: configure_rtsa_device_def write_connect_run_def apply_initial_tune_def log_write_def Let_def
        split_beta split: sum.split)
  moreover have "seen (arm_link_check now t) = seen t" for now and t :: "('k, 'h) http_source"
    by (simp add: arm_link_check_def split: link_check.split)
  ultimately show "seen (snd (start_stream a s)) = seen s"
    by (simp add: start_stream_def log_write_def Let_def split: sum.split)
  show "seen (cleanup_stream s) = seen s" by (simp add: cleanup_stream_def log_write_def Let_def)
qed

interpretation both: refill_invariant
    "\<lambda>s :: (recording_sink, 'h) http_source. seen s = e \<and> recording.queue_ok s" for e
  by unfold_locales
    (simp_all add: ordered.item ordered.bookkeeping ordered.metering ordered.judging ordered.larger_chunk ordered.downstream ordered.opens
      ordered.closes ordered.clearing)

lemma work_seen:
  fixes s :: "(recording_sink, 'h) http_source"
  assumes "work recording_record D aligned env restart reconnect o_len max_items s = (out, again, s')"
    and "recording.queue_ok s"
  shows "\<exists>new. recording.reported s' = recording.reported s @ new \<and>
      list_all (\<lambda>b. produced s \<le> fst b \<and> fst b < produced s') new" "produced s' = produced s + length out"
proof -
  obtain t where t: "seen t = seen s" "recording.queue_ok t" and
    out: "out = [] \<and> s' = t \<or> (out, s') = emit recording_record o_len t"
    using both.before_emission [of s "seen s", OF _ assms(1)] assms(2) by auto
  have "recording.reported t = recording.reported s" "produced t = produced s"
    using t(1) by (simp_all add: seen_def recording.reported_def)
  moreover have "fst (emit recording_record o_len t) = out" "snd (emit recording_record o_len t) = s'"
    if "out \<noteq> [] \<or> s' \<noteq> t" using out that by (metis fst_conv snd_conv)+
  ultimately show "\<exists>new. recording.reported s' = recording.reported s @ new \<and>
      list_all (\<lambda>b. produced s \<le> fst b \<and> fst b < produced s') new" "produced s' = produced s + length out"
    using recording.emit_reports [OF t(2), of o_len] by (cases "out \<noteq> [] \<or> s' \<noteq> t"; simp)+
qed

end
