(* ===== verification/Source_Run.thy ===== *)
theory Source_Run
  imports Source_Contract
begin

text \<open>
  The block of \<open>src/src/http_source.rs\<close> over its whole life: built, initialised, called any
  number of times, asked to restart, answered by its health probes, dropped. What a consumer, a
  statistics reader and the device may rely on at any point of it.
\<close>

section \<open>The life of a source\<close>

inductive source_run ::
  "deps \<Rightarrow> (nat \<Rightarrow> bool) \<Rightarrow> complex32 list \<Rightarrow> (recording_sink, 'h) http_source \<Rightarrow> bool" for D aligned where
  built: "build_source scheme_of clients_ok runtime_ok b = Ok s \<Longrightarrow>
    sb_break_sink b = Some recording_new \<Longrightarrow> source_run D aligned [] s"
| initialised: "source_run D aligned out s \<Longrightarrow> source_run D aligned out (snd (start_stream a s))"
| worked: "source_run D aligned out s \<Longrightarrow>
    work recording_record D aligned env restart reconnect o_len max_items s = (xs, again, s') \<Longrightarrow>
    source_run D aligned (out @ xs) s'"
| probed: "source_run D aligned out s \<Longrightarrow> source_run D aligned out (health_probe_answer n blocks s)"
| asked: "source_run D aligned out s \<Longrightarrow> shared_stats s = Some stats \<Longrightarrow>
    source_run D aligned out (s\<lparr>shared_stats := Some (stats\<lparr>restart_pending := True\<rparr>)\<rparr>)"
| dropped: "source_run D aligned out s \<Longrightarrow> source_run D aligned out (drop_source s)"

text \<open>An invariant of the operations that a newly built source has holds throughout.\<close>

context source_invariant
begin

lemma dropping: "I s \<Longrightarrow> I (drop_source s)"
  using bookkeeping(5) [OF bookkeeping(3), of s False None] by (simp add: drop_source_def)

end

lemma built_source:
  assumes "build_source scheme_of clients_ok runtime_ok b = Ok s"
  shows "sample_buffer s = []" "sink s = sb_break_sink b" "produced s = 0" "pending_breaks s = []"
    "epoch_center_hz s = None" "epoch_rate_hz s = None" "published_geometry s = None"
    "device_writes s = []" "initial_tune_done s = False"
  using assms by (auto simp: build_source_def with_advanced_options_def bind_result_def split: sum.splits)

lemma run_ordered: "source_run D aligned out s \<Longrightarrow> recording.queue_ok s \<and> produced s = length out"
proof (induction rule: source_run.induct)
  case (built u c t b s)
  then show ?case
    using built_source [OF built(1)]
    unfolding recording.queue_ok_def recording.order_ok_def recording.epoch_ok_def recording.reported_def
    by (simp add: recorded_breaks_def recording_new_def)
next
  case (worked out s env restart reconnect o_len max_items xs again s')
  then show ?case using ordered.working work_seen(2) by fastforce
next
  case (probed out s n blocks)
  then show ?case using both.health [of s "seen s" n blocks] by (simp add: seen_def)
next
  case (dropped out s)
  then show ?case using ordered.dropping [of s] by (simp add: drop_source_def)
qed (auto simp: ordered.opens ordered.bookkeeping seen_opening(1) [unfolded seen_def, simplified])

lemma run_invariant:
  assumes "source_run D aligned out s" and "source_invariant I recording_record"
    and "\<And>scheme_of clients_ok runtime_ok b s.
      build_source scheme_of clients_ok runtime_ok b = Ok s \<Longrightarrow> I s"
  shows "I s"
  using assms(1)
proof (induction rule: source_run.induct)
  case (built u c t b s)
  then show ?case using assms(3) by blast
next
  case (worked out s env restart reconnect o_len max_items xs again s')
  then show ?case using source_invariant.working [OF assms(2)] by blast
next
  case (probed out s n blocks)
  then show ?case using refill_invariant.health source_invariant.axioms(1) [OF assms(2)] by blast
next
  case (dropped out s)
  then show ?case using source_invariant.dropping [OF assms(2)] by blast
next
  case (initialised out s a)
  then show ?case using refill_invariant.opens source_invariant.axioms(1) [OF assms(2)] by blast
next
  case (asked out s stats)
  then show ?case using refill_invariant.bookkeeping(2) source_invariant.axioms(1) [OF assms(2)] by blast
qed

section \<open>Construction and the stream it asks for\<close>


text \<open>
  The source and the endpoints client ask for the same stream URL exactly when the base
  URL does not end in a slash. The client removes it, since a server answers a doubled slash
  with 404; the source keeps it.
\<close>

theorem source_url_keeps_slash:
  fixes b :: "('k, 'h) source_builder"
  shows "case build_source scheme_of clients_ok runtime_ok b :: ('k, 'h) http_source result of
     Inl e \<Rightarrow> True
   | Inr s \<Rightarrow>
       (stream_request_url encode show_f64 s =
        stream_url encode show_f64 (ec_base_url (hs_endpoints s)) (stream_request s)) =
       (\<not> ends_with (sb_base_url b) ''/'')"
proof -
  have "length (trim_end_matches p u) \<le> length u" for p u
    by (induction p u rule: trim_end_matches.induct) (subst trim_end_matches.simps, auto)
  note shorter = this
  have "trim_end_matches ''/'' u = u \<longleftrightarrow> \<not> ends_with u ''/''" for u
  proof (cases "ends_with u ''/''")
    case True
    then have "0 < length u" by (auto simp: ends_with_def)
    moreover have "trim_end_matches ''/'' u = trim_end_matches ''/'' (take (length u - 1) u)"
      using True by (subst trim_end_matches.simps) simp
    moreover have "length (trim_end_matches ''/'' (take (length u - 1) u)) \<le> length u - 1"
      using shorter [of "''/''" "take (length u - 1) u"] by simp
    ultimately have "length (trim_end_matches ''/'' u) < length u"
      using le_less_trans [OF _ diff_less [of 1 "length u"]] by simp
    with True show ?thesis by auto
  qed (subst trim_end_matches.simps, simp)
  moreover have "hs_base_url s = sb_base_url b" "ec_base_url (hs_endpoints s) = trim_end_matches ''/'' (sb_base_url b)"
    if "build_source scheme_of clients_ok runtime_ok b = Ok s" for s :: "('k, 'h) http_source"
    using that by (auto simp: build_source_def with_advanced_options_def bind_result_def endpoints_client_new_def
        split: sum.splits)
  ultimately show ?thesis
    by (simp add: stream_request_url_def stream_url_def eq_commute split: sum.split)
qed

section \<open>What its consumer may rely on\<close>

text \<open>
  C4: The breaks a source reports are an index, through its whole life: in the order of their
  samples, at one index at most one gap and then one geometry, none beyond the samples handed
  over, no gap before the first sample, and only the first geometry an initial one.
\<close>

theorem source_breaks_indexed:
  assumes "source_run D aligned out s"
  shows "sorted_wrt key_less (recorded_breaks (the (sink s))) \<and>
     (0, Gap) \<notin> set (recorded_breaks (the (sink s))) \<and>
     list_all (\<lambda>b. fst b < length out) (recorded_breaks (the (sink s))) \<and>
     announced False (map snd (recorded_breaks (the (sink s))))"
proof -
  have ok: "recording.queue_ok s" "produced s = length out" using run_ordered [OF assms] by auto
  then have "recording.reported s = recorded_breaks (the (sink s))"
    by (intro reported_breaks) (simp add: recording.queue_ok_def)
  with ok show ?thesis
    by (simp add: recording.queue_ok_def recording.order_ok_def recording.epoch_ok_def announced_append)
qed


text \<open>
  C9: The sample buffer never exceeds its capacity, at any point of a source's life and
  whatever sizes the packets, the chunks and the output have.
\<close>

theorem source_buffer_bounded:
  assumes "source_run D aligned out s"
  shows "length (sample_buffer s) \<le> buffer_capacity s"
proof -
  have "within_capacity s"
    by (rule run_invariant [OF assms bounded.source_invariant_axioms]) (simp add: within_capacity_def built_source)
  then show ?thesis by (simp add: within_capacity_def)
qed


section \<open>Every item and every sample is accounted for\<close>

definition iq_samples_of :: "parsed_item list \<Rightarrow> nat" where
  "iq_samples_of items =
     sum_list (map (\<lambda>i. case i of Packet p \<Rightarrow> if payload (metadata p) = Iq then length (pkt_samples p) else 0 | _ \<Rightarrow> 0) items)"

fun is_lost :: "parsed_item \<Rightarrow> bool" where
  "is_lost (Lost e) = True"
| "is_lost i = False"

fun is_other_payload :: "parsed_item \<Rightarrow> bool" where
  "is_other_payload (Packet p) = (payload (metadata p) \<noteq> Iq)"
| "is_other_payload (Skipped t e) = True"
| "is_other_payload (Lost e) = False"

lemma iq_samples_of_simps [simp]:
  "iq_samples_of [] = 0"
  "iq_samples_of (i # is) =
     (case i of Packet p \<Rightarrow> if payload (metadata p) = Iq then length (pkt_samples p) else 0 | _ \<Rightarrow> 0) + iq_samples_of is"
  by (simp_all add: iq_samples_of_def)

definition tallies :: "('k, 'h) http_source \<Rightarrow> nat \<times> nat" where
  "tallies s = (packets_lost_to_parse_errors s, non_iq_packets_skipped s)"

lemma queue_tallies:
  fixes s :: "('k, 'h) http_source"
  shows "tallies (note_break c s) = tallies s" "tallies (note_geometry p s) = tallies s"
    "tallies (trim_buffer n s) = tallies s" "tallies (extend_buffer xs s) = tallies s"
  by (simp_all add: tallies_def note_break_def note_geometry_def trim_buffer_def note_trim_def
      extend_buffer_def Let_def split: option.split)

lemma update_tallies:
  "tallies (s\<lparr>detector := d\<rparr>) = tallies s" "tallies (s\<lparr>stream_gap_seconds := f\<rparr>) = tallies s"
  "tallies (s\<lparr>next_gap_report := n\<rparr>) = tallies s" "tallies (s\<lparr>gap_probes := g\<rparr>) = tallies s"
  "tallies (s\<lparr>current_frequency := f\<rparr>) = tallies s" "tallies (s\<lparr>current_sample_rate := f\<rparr>) = tallies s"
  "tallies (s\<lparr>link_check := l\<rparr>) = tallies s" "tallies (s\<lparr>link_device_rate := r\<rparr>) = tallies s"
  "tallies (s\<lparr>overflow_samples := n\<rparr>) = tallies s" "tallies (s\<lparr>next_overflow_report := n\<rparr>) = tallies s"
  "tallies (s\<lparr>max_packet_samples := n\<rparr>) = tallies s"
  by (simp_all add: tallies_def)

lemma packet_tallies:
  fixes s :: "('k, 'h) http_source"
  shows "tallies (check_continuity p s) = tallies s" "tallies (track_metadata now p s) = tallies s"
    "tallies (queue_packet p s) = tallies s"
proof -
  show "tallies (check_continuity p s) = tallies s"
    unfolding check_continuity_def Let_def spawn_gap_health_probe_def
    by (simp add: queue_tallies update_tallies split: prod.split drop_result.split)
  show "tallies (track_metadata now p s) = tallies s"
    by (simp add: track_metadata_def note_device_rate_def Let_def queue_tallies update_tallies)
  show "tallies (queue_packet p s) = tallies s"
    by (simp add: queue_packet_def enforce_capacity_def Let_def queue_tallies update_tallies)
qed

lemma lost_packet_facts:
  "tallies (note_lost_packet s) = (sat_add (packets_lost_to_parse_errors s) 1, non_iq_packets_skipped s)"
  "held (note_lost_packet s) = held s" "overflow_samples (note_lost_packet s) = overflow_samples s"
  by (simp_all add: note_lost_packet_def Let_def tallies_def held_def note_break_def)

lemma item_overflow: "overflow_samples (snd (process_item now i s)) < USIZE_MAX \<Longrightarrow> overflow_samples s < USIZE_MAX"
  by (cases i) (auto simp: lost_packet_facts note_undecoded_non_iq_packet_def note_non_iq_packet_def
      queue_packet_def source_frame sat_add_def split: if_splits)

lemma before_queueing_held:
  "held (track_metadata now p (check_continuity p s)) = held s"
  by (simp add: held_def source_frame)

lemma item_held:
  assumes "overflow_samples (snd (process_item now i s)) < USIZE_MAX"
  shows "held (snd (process_item now i s)) = held s + fst (process_item now i s)"
proof (cases i)
  case (Packet p)
  with assms show ?thesis
    by (auto simp: queue_packet_held before_queueing_held note_non_iq_packet_def) (simp add: held_def)
qed (simp_all add: lost_packet_facts note_undecoded_non_iq_packet_def held_def [of "_\<lparr>non_iq_packets_skipped := _\<rparr>"]
    held_def [of s, symmetric])

lemma item_tallies:
  assumes "packets_lost_to_parse_errors s \<le> USIZE_MAX" "non_iq_packets_skipped s \<le> USIZE_MAX"
  shows "tallies (snd (process_item now i s)) =
     (sat_add (packets_lost_to_parse_errors s) (of_bool (is_lost i)),
      sat_add (non_iq_packets_skipped s) (of_bool (is_other_payload i)))"
proof (cases i)
  case (Packet p)
  with assms show ?thesis
    by (simp add: packet_tallies note_non_iq_packet_def) (simp add: tallies_def sat_add_def)
next
  case (Lost e)
  with assms show ?thesis by (simp add: lost_packet_facts) (simp add: sat_add_def)
next
  case (Skipped t e)
  with assms show ?thesis by (simp add: note_undecoded_non_iq_packet_def tallies_def sat_add_def)
qed

lemma items_added: "fst (process_items now is s) = iq_samples_of is"
proof (induction "is" arbitrary: s)
  case (Cons i "is")
  then show ?case by (cases i) (simp_all add: split_beta)
qed simp

lemma items_overflow:
  "overflow_samples (snd (process_items now is s)) < USIZE_MAX \<Longrightarrow> overflow_samples s < USIZE_MAX"
  by (induction "is" arbitrary: s) (auto simp: split_beta dest: item_overflow)

lemma items_held:
  "overflow_samples (snd (process_items now is s)) < USIZE_MAX \<Longrightarrow>
   held (snd (process_items now is s)) = held s + fst (process_items now is s)"
proof (induction "is" arbitrary: s)
  case (Cons i "is")
  let ?s = "snd (process_item now i s)"
  have o: "overflow_samples (snd (process_items now is ?s)) < USIZE_MAX"
    using Cons.prems by (simp add: split_beta)
  with Cons.IH [OF o] item_held [OF items_overflow [OF o]] show ?case by (simp add: split_beta)
qed simp

lemma queue_packet_held_le: "held (queue_packet p s) \<le> held s + length (pkt_samples p)"
  by (auto simp: held_def queue_packet_def sat_add_def source_frame min_def split: if_splits)

lemma item_held_le: "held (snd (process_item now i s)) \<le> held s + fst (process_item now i s)"
proof (cases i)
  case (Packet p)
  then show ?thesis
    using queue_packet_held_le [of p "track_metadata now p (check_continuity p s)"]
    by (auto simp: before_queueing_held note_non_iq_packet_def) (simp add: held_def)
qed (simp_all add: lost_packet_facts note_undecoded_non_iq_packet_def held_def [of "_\<lparr>non_iq_packets_skipped := _\<rparr>"]
    held_def [of s, symmetric])

lemma items_held_le: "held (snd (process_items now is s)) \<le> held s + iq_samples_of is"
proof -
  have "held (snd (process_items now is s)) \<le> held s + fst (process_items now is s)"
  proof (induction "is" arbitrary: s)
    case (Cons i "is")
    from Cons [of "snd (process_item now i s)"] item_held_le [of now i s] show ?case
      by (simp add: split_beta)
  qed simp
  then show ?thesis by (simp add: items_added)
qed

text \<open>
  C8: Every item is accounted for. However many items a chunk brings, the samples of its IQ
  packets are in the buffer or in the count of trimmed samples, every lost packet is in the
  count of losses, and every packet of another payload, decoded or not, in the count of skipped
  packets; nothing else moves those counts, which stop at the largest machine word.
\<close>

theorem items_accounted:
  assumes "process_items now items s = (added, s')"
    and "held s + iq_samples_of items < USIZE_MAX"
    and "packets_lost_to_parse_errors s \<le> USIZE_MAX" "non_iq_packets_skipped s \<le> USIZE_MAX"
  shows "added = iq_samples_of items \<and> held s' = held s + added \<and>
     packets_lost_to_parse_errors s' = sat_add (packets_lost_to_parse_errors s) (length (filter is_lost items)) \<and>
     non_iq_packets_skipped s' = sat_add (non_iq_packets_skipped s) (length (filter is_other_payload items))"
proof -
  have "fst (process_items now items s) = iq_samples_of items" by (rule items_added)
  moreover have "tallies (snd (process_items now items s)) =
      (sat_add (packets_lost_to_parse_errors s) (length (filter is_lost items)),
       sat_add (non_iq_packets_skipped s) (length (filter is_other_payload items)))"
    using assms(3,4)
  proof (induction items arbitrary: s)
    case Nil
    then show ?case by (simp add: tallies_def sat_add_def)
  next
    case (Cons i items)
    let ?s = "snd (process_item now i s)"
    have t: "packets_lost_to_parse_errors ?s = sat_add (packets_lost_to_parse_errors s) (of_bool (is_lost i))"
      "non_iq_packets_skipped ?s = sat_add (non_iq_packets_skipped s) (of_bool (is_other_payload i))"
      using item_tallies [OF Cons.prems, of now i] by (simp_all add: tallies_def)
    then have "packets_lost_to_parse_errors ?s \<le> USIZE_MAX" "non_iq_packets_skipped ?s \<le> USIZE_MAX" by simp_all
    from Cons.IH [OF this] t show ?case by (auto simp: split_beta sat_add_def)
  qed
  moreover have "overflow_samples s' < USIZE_MAX"
    using items_held_le [of now items s] assms(1,2) by (simp add: held_def)
  ultimately show ?thesis
    using assms items_held [of now items s] by (simp add: tallies_def)
qed

section \<open>The verdict on the link\<close>

definition linked :: "('k, 'h) http_source \<Rightarrow> link_check \<times> bool" where
  "linked s = (link_check s, link_check_measurable s)"

lemma linked_queue:
  fixes s :: "('k, 'h) http_source"
  shows "linked (note_break c s) = linked s" "linked (note_geometry p s) = linked s"
    "linked (trim_buffer n s) = linked s" "linked (extend_buffer xs s) = linked s" "linked (clear_buffer s) = linked s"
  by (simp_all add: linked_def link_check_measurable_def note_break_def note_geometry_def trim_buffer_def note_trim_def
      extend_buffer_def clear_buffer_def note_buffer_cleared_def Let_def split: option.split)

lemma linked_update:
  "linked (s\<lparr>hs_parser := q\<rparr>) = linked s" "linked (s\<lparr>shared_stats := st\<rparr>) = linked s"
  "linked (s\<lparr>chunk_rx := c\<rparr>) = linked s" "linked (s\<lparr>stream_active := b\<rparr>) = linked s"
  "linked (s\<lparr>max_chunk_bytes := n\<rparr>) = linked s" "linked (s\<lparr>downstream_capacity := n\<rparr>) = linked s"
  "linked (s\<lparr>max_packet_samples := n\<rparr>) = linked s" "linked (s\<lparr>link_device_rate := r\<rparr>) = linked s"
  "linked (s\<lparr>detector := d\<rparr>) = linked s" "linked (s\<lparr>stream_gap_seconds := f\<rparr>) = linked s"
  "linked (s\<lparr>next_gap_report := n\<rparr>) = linked s" "linked (s\<lparr>gap_probes := g\<rparr>) = linked s"
  "linked (s\<lparr>current_frequency := f\<rparr>) = linked s" "linked (s\<lparr>current_sample_rate := f\<rparr>) = linked s"
  "linked (s\<lparr>overflow_samples := n\<rparr>) = linked s" "linked (s\<lparr>next_overflow_report := n\<rparr>) = linked s"
  "linked (s\<lparr>packets_lost_to_parse_errors := n\<rparr>) = linked s" "linked (s\<lparr>next_parse_loss_report := n\<rparr>) = linked s"
  "linked (s\<lparr>non_iq_packets_skipped := n\<rparr>) = linked s" "linked (s\<lparr>input_name := i\<rparr>) = linked s"
  "linked (s\<lparr>initial_tune_done := b\<rparr>) = linked s" "linked (s\<lparr>device_writes := w\<rparr>) = linked s"
  "linked (s\<lparr>link_check := l\<rparr>) = (l, snd (linked s))"
  by (simp_all add: linked_def link_check_measurable_def)

definition judged_if_measurable :: "('k, 'h) http_source \<Rightarrow> bool" where
  "judged_if_measurable s =
     (case linked s of (Measuring m, measurable) \<Rightarrow> measurable | (Done (Some v), measurable) \<Rightarrow> measurable | _ \<Rightarrow> True)"

lemma judged_update:
  "linked s = linked t \<Longrightarrow> judged_if_measurable s = judged_if_measurable t"
  "judged_if_measurable (s\<lparr>link_check := Unmeasured\<rparr>)"
  "judged_if_measurable s \<Longrightarrow> link_check s = Measuring m \<Longrightarrow> judged_if_measurable (s\<lparr>link_check := Measuring m'\<rparr>)"
  "judged_if_measurable s \<Longrightarrow> link_check s = Measuring m \<Longrightarrow> judged_if_measurable (s\<lparr>link_check := Done (Some v)\<rparr>)"
  by (simp_all add: judged_if_measurable_def linked_update) (simp_all add: linked_def)

lemma judged_rate: "judged_if_measurable s \<Longrightarrow> judged_if_measurable (note_device_rate now r s)"
  by (auto simp: note_device_rate_def Let_def judged_if_measurable_def linked_update linked_def armed_at_def
      link_check_measurable_def split: link_check.splits option.splits)

lemma judged_item:
  fixes s :: "('k, 'h) http_source"
  assumes "judged_if_measurable s"
  shows "judged_if_measurable (snd (process_item now i s))"
proof -
  have queue: "linked (queue_packet p t) = linked t" for p and t :: "('k, 'h) http_source"
    by (simp add: queue_packet_def enforce_capacity_def Let_def linked_queue linked_update)
  have continuity: "linked (check_continuity p t) = linked t" for p and t :: "('k, 'h) http_source"
    unfolding check_continuity_def Let_def spawn_gap_health_probe_def
    by (simp add: linked_queue linked_update split: prod.split drop_result.split)
  have others: "linked (note_lost_packet t) = linked t" "linked (note_undecoded_non_iq_packet t) = linked t"
    "linked (note_non_iq_packet t) = linked t" for t :: "('k, 'h) http_source"
    by (simp_all add: note_lost_packet_def note_undecoded_non_iq_packet_def note_non_iq_packet_def Let_def
        linked_queue linked_update)
  have metadata: "judged_if_measurable (track_metadata now p t)" if t: "judged_if_measurable t" for p and t :: "('k, 'h) http_source"
  proof -
    define t1 where "t1 = (if flt zero (cfg_center_frequency_hz (sdr_config p))
      then t\<lparr>current_frequency := cfg_center_frequency_hz (sdr_config p)\<rparr> else t)"
    have "judged_if_measurable t1"
      using t judged_update(1) [of t1 t] by (simp add: t1_def linked_update)
    then have "judged_if_measurable (note_device_rate now (cfg_sample_rate_hz (sdr_config p)) t1)" (is "judged_if_measurable ?t2")
      by (rule judged_rate)
    moreover have "linked (track_metadata now p t) = linked ?t2"
      by (simp add: track_metadata_def t1_def Let_def linked_queue linked_update)
    ultimately show ?thesis using judged_update(1) by blast
  qed
  show ?thesis
    using assms judged_update(1) [OF queue] judged_update(1) [OF continuity] judged_update(1) [OF others(1)]
      judged_update(1) [OF others(2)] judged_update(1) [OF others(3)] metadata
    by (cases i) auto
qed

lemma judged_opening:
  fixes s :: "('k, 'h) http_source"
  assumes "judged_if_measurable s"
  shows "judged_if_measurable (snd (start_stream a s))"
proof -
  have configure: "linked (snd (configure_rtsa_device a t)) = linked t" for t :: "('k, 'h) http_source"
    by (simp add: configure_rtsa_device_def write_connect_run_def apply_initial_tune_def log_write_def Let_def
        linked_update split_beta split: sum.split)
  have arm: "judged_if_measurable (arm_link_check now t)" if "judged_if_measurable t" for now and t :: "('k, 'h) http_source"
    using that by (auto simp: arm_link_check_def judged_if_measurable_def linked_update armed_at_def split: link_check.split)
      (simp_all add: linked_def)
  define t where "t = (if listen_only s then s\<lparr>input_name := select_input (inputs_answer a) (input_name s), initial_tune_done := True\<rparr>
    else log_write (ControlStreaming True) (snd (configure_rtsa_device a (s\<lparr>input_name := select_input (inputs_answer a) (input_name s)\<rparr>))))"
  have t: "judged_if_measurable t"
    using assms judged_update(1) [of t s] by (simp add: t_def configure linked_update log_write_def)
  then have "judged_if_measurable (t\<lparr>chunk_rx := Some \<lparr>queued = [], reader_ended = False\<rparr>\<rparr>)"
    using judged_update(1) [OF linked_update(3)] by blast
  from arm [OF this] have "judged_if_measurable ((arm_link_check (opened_at a)
      (t\<lparr>chunk_rx := Some \<lparr>queued = [], reader_ended = False\<rparr>\<rparr>))\<lparr>stream_active := True\<rparr>)"
    using judged_update(1) [OF linked_update(4)] by blast
  moreover have "snd (start_stream a s) =
      (case stream_answer a of Inl e \<Rightarrow> t
       | Inr u \<Rightarrow> (arm_link_check (opened_at a) (t\<lparr>chunk_rx := Some \<lparr>queued = [], reader_ended = False\<rparr>\<rparr>))\<lparr>stream_active := True\<rparr>)"
    by (simp add: start_stream_def t_def Let_def split: sum.split)
  ultimately show ?thesis using t by (simp split: sum.split)
qed

interpretation judged: source_invariant "judged_if_measurable :: (recording_sink, 'h) http_source \<Rightarrow> bool" recording_record
proof unfold_locales
  fix s :: "(recording_sink, 'h) http_source" and a room
  assume s: "judged_if_measurable s"
  have "linked (cleanup_stream s) = linked s"
    by (simp add: cleanup_stream_def log_write_def Let_def linked_queue linked_update)
  with s judged_update(1) show "judged_if_measurable (cleanup_stream s)" by blast
  have "linked (snd (emit recording_record room s)) = linked s"
    by (simp add: emit_def publish_breaks_def linked_def link_check_measurable_def Let_def split: option.split prod.split)
  with s judged_update(1) show "judged_if_measurable (snd (emit recording_record room s))" by blast
  from s judged_update(1) [OF linked_queue(5)] show "judged_if_measurable (clear_buffer s)" by blast
qed (simp_all add: judged_item judged_opening judged_update(2-4) judged_update(1) [OF linked_update(1)]
    judged_update(1) [OF linked_update(2)] judged_update(1) [OF linked_update(3)] judged_update(1) [OF linked_update(4)]
    judged_update(1) [OF linked_update(5)] judged_update(1) [OF linked_update(6)])

text \<open>
  Only a link that can be judged is: through a source's life a throughput is measured and
  a verdict held only while the format's bytes per sample are fixed and the server was not
  asked to thin the stream out.
\<close>

theorem only_measurable_links_judged:
  assumes "source_run D aligned out s"
  shows "case link_check s of
     Unmeasured \<Rightarrow> True | Measuring m \<Rightarrow> link_check_measurable s | Done verdict \<Rightarrow> verdict = None \<or> link_check_measurable s"
proof -
  have "judged_if_measurable s" if "build_source u c t b = Ok s" for u c t b and s :: "(recording_sink, 'h) http_source"
    using that by (auto simp: build_source_def with_advanced_options_def bind_result_def judged_if_measurable_def
        linked_def split: sum.splits)
  from run_invariant [OF assms judged.source_invariant_axioms this]
  have "judged_if_measurable s" .
  then show ?thesis by (auto simp: judged_if_measurable_def linked_def split: link_check.splits option.splits)
qed

section \<open>The source goes on\<close>

text \<open>
  C22: No wakeup is lost. A call of \<open>work\<close> that does not ask to run again has filled the
  output to the last sample and still holds samples, so the consumer's next read wakes it.
\<close>

theorem no_lost_wakeup:
  assumes "work record_break D aligned env restart reconnect o_len max_items s = (xs, again, s')" "\<not> again"
  shows "length xs = o_len \<and> sample_buffer s' \<noteq> []"
proof -
  obtain t where "(xs, s') = emit record_break o_len t" "again = (sample_buffer s' = [])"
    using assms unfolding work_def Let_def by (auto simp: split_beta split: if_splits) 
  moreover have "fst (emit record_break o_len t) = take o_len (sample_buffer t)" by (simp add: emit_def)
  moreover note emit_frame(4) [of record_break o_len t]
  ultimately have "xs = take o_len (sample_buffer t)" "sample_buffer s' = drop o_len (sample_buffer t)"
    by (metis fst_conv snd_conv)+
  with \<open>again = (sample_buffer s' = [])\<close> assms(2) show ?thesis by simp
qed

definition reception :: "('k, 'h) http_source \<Rightarrow> stream_parser \<times> drop_detector \<times> break list \<times> complex32 list \<times> 'k option" where
  "reception s = (hs_parser s, detector s, pending_breaks s, sample_buffer s, sink s)"

lemma reception_opening:
  fixes s :: "('k, 'h) http_source"
  shows "reception (snd (start_stream a s)) = reception s"
    and "stream_answer a = Ok () \<Longrightarrow> stream_active (snd (start_stream a s))"
    and "stream_answer a = Ok () \<Longrightarrow> chunk_rx (snd (start_stream a s)) = Some \<lparr>queued = [], reader_ended = False\<rparr>"
proof -
  have update: "reception (t\<lparr>input_name := i\<rparr>) = reception t" "reception (t\<lparr>initial_tune_done := b\<rparr>) = reception t"
    "reception (t\<lparr>chunk_rx := c\<rparr>) = reception t" "reception (t\<lparr>stream_active := b\<rparr>) = reception t"
    "reception (log_write w t) = reception t" "reception (arm_link_check now t) = reception t"
    "chunk_rx (arm_link_check now t) = chunk_rx t" for t :: "('k, 'h) http_source" and i b c w now
    by (simp_all add: reception_def log_write_def arm_link_check_def split: link_check.split)
  have "reception (snd (configure_rtsa_device a t)) = reception t" for t :: "('k, 'h) http_source"
    by (simp add: configure_rtsa_device_def write_connect_run_def apply_initial_tune_def update Let_def
        split_beta split: sum.split)
  then show "reception (snd (start_stream a s)) = reception s"
    by (simp add: start_stream_def update Let_def split: sum.split)
  show "stream_answer a = Ok () \<Longrightarrow> stream_active (snd (start_stream a s))"
    "stream_answer a = Ok () \<Longrightarrow> chunk_rx (snd (start_stream a s)) = Some \<lparr>queued = [], reader_ended = False\<rparr>"
    by (simp_all add: start_stream_def update Let_def)
qed

lemma cleanup_reception:
  "buffer (hs_parser (cleanup_stream s)) = []" "skip_bytes (hs_parser (cleanup_stream s)) = 0"
  "last_end_time (detector (cleanup_stream s)) = None" "last_duration (detector (cleanup_stream s)) = None"
  "sink (cleanup_stream s) \<noteq> None \<Longrightarrow>
     (length (sample_buffer (cleanup_stream s)), Gap) \<in> set (pending_breaks (cleanup_stream s))"
  by (auto simp: cleanup_stream_def Let_def parser_reset_def detector_resync_def log_write_def note_break_def last_in_set
      split: if_splits dest: last_in_set)

text \<open>
  C21: A failed stream is renewed within the call that met the failure. When the server answers,
  the source is active again on an empty channel, the parser holds nothing of the old
  connection, the drop detector no reference from it, and the splice is pending as a gap.
\<close>

theorem failed_stream_is_reopened:
  assumes "refill_loop D aligned env reconnect bound fetches s = (False, s')"
    and "stream_answer reconnect = Ok ()"
  shows "stream_active s' \<and> chunk_rx s' = Some \<lparr>queued = [], reader_ended = False\<rparr> \<and>
     buffer (hs_parser s') = [] \<and> skip_bytes (hs_parser s') = 0 \<and>
     last_end_time (detector s') = None \<and> last_duration (detector s') = None \<and>
     (sink s' = None \<or> (length (sample_buffer s'), Gap) \<in> set (pending_breaks s'))"
  using assms
proof (induction D aligned env reconnect bound fetches s rule: refill_loop.induct)
  case (1 D aligned env reconnect bound fetches s)
  let ?go = "length (sample_buffer s) < bound \<and> fetches < MAX_FETCHES_PER_WORK"
  obtain r s1 where f: "fetch_samples D aligned (sample_buffer s = []) (env fetches) s = (r, s1)" by fastforce
  from 1(2) have go: ?go by (subst (asm) refill_loop.simps) (auto split: if_splits)
  show ?case
  proof (cases r)
    case (Inl e)
    let ?c = "cleanup_stream (s1\<lparr>stream_active := False\<rparr>)"
    from 1(2) f go Inl have s': "s' = snd (start_stream reconnect ?c)"
      by (subst (asm) refill_loop.simps) simp
    have "stream_active s'" "chunk_rx s' = Some \<lparr>queued = [], reader_ended = False\<rparr>"
      unfolding s' by (rule reception_opening(2,3) [OF 1(3)])+
    moreover have "reception s' = reception ?c" unfolding s' by (rule reception_opening)
    then have "hs_parser s' = hs_parser ?c" "detector s' = detector ?c" "pending_breaks s' = pending_breaks ?c"
      "sample_buffer s' = sample_buffer ?c" "sink s' = sink ?c" by (simp_all add: reception_def)
    ultimately show ?thesis
      using cleanup_reception [of "s1\<lparr>stream_active := False\<rparr>"] by metis
  next
    case (Inr n)
    with 1(2) f go have "n \<noteq> 0" "refill_loop D aligned env reconnect bound (fetches + 1) s1 = (False, s')"
      by (subst (asm) refill_loop.simps; auto split: if_splits)+
    with 1(1) [OF go f [symmetric] Inr] 1(3) show ?thesis by blast
  qed
qed

section \<open>Concrete sources\<close>

definition example_builder :: "(recording_sink, nat) source_builder" where
  "example_builder = with_stream_breaks recording_new (builder_new ''http://rtsa'')"

definition example_source :: "(recording_sink, nat) http_source" where
  "example_source = projr (build_source (\<lambda>u. Some ''http'') (Ok ()) (Ok ()) example_builder)"

definition example_answers :: start_answers where
  "example_answers = \<lparr>inputs_answer = Ok [''main''], config_answer = Ok 7, connect_run_answer = Ok (),
     capture_config_answer = Ok (), stream_answer = Ok (), opened_at = 0\<rparr>"

definition idle_env :: sweep_env where
  "idle_env = \<lparr>arrived = [], ended = False, waited = WaitTimedOut, sweep_now = 0, sweep_elapsed = zero\<rparr>"

lemmas example_simps = example_builder_def builder_new_def with_stream_breaks_def validate_base_url_def
  validate_rate_reduction_def

lemma example_run:
  "source_run D aligned [] example_source"
  "source_run D aligned [] (snd (start_stream example_answers example_source))"
proof -
  have "build_source (\<lambda>u. Some ''http'') (Ok ()) (Ok ()) example_builder = Ok example_source"
    by (simp add: example_source_def build_source_def with_advanced_options_def example_simps)
  then show r: "source_run D aligned [] example_source"
    by (rule source_run.built) (simp add: example_simps)
  show "source_run D aligned [] (snd (start_stream example_answers example_source))"
    by (rule source_run.initialised [OF r])
qed

lemma idle_fetch:
  assumes "chunk_rx s = Some \<lparr>queued = [], reader_ended = False\<rparr>" "link_check s = Unmeasured"
  shows "fetch_samples D aligned wait idle_env s = (Ok 0, s)"
proof -
  have "try_recv_loop CHUNK_CHANNEL_DEPTH [] False [] = ([], [], False)"
    by (simp add: CHUNK_CHANNEL_DEPTH_def numeral_eq_Suc)
  moreover have "s\<lparr>chunk_rx := Some \<lparr>queued = [], reader_ended = False\<rparr>, max_chunk_bytes := max_chunk_bytes s\<rparr> = s"
    using assms(1) by (cases s) simp
  ultimately show ?thesis
    using assms by (simp add: fetch_samples_def idle_env_def meter_sweep_def report_link_budget_def)
qed

lemma idle_work:
  assumes "chunk_rx s = Some \<lparr>queued = [], reader_ended = False\<rparr>" "link_check s = Unmeasured" "shared_stats s = None"
    and "length (sample_buffer s) < min (max (refill_capacity s div 2) o_len) (refill_capacity s)"
  shows "work record_break D aligned (\<lambda>n. idle_env) restart reconnect o_len USIZE_MAX s =
     (let (out, s') = emit record_break o_len s in (out, sample_buffer s' = [], s'))"
proof -
  have "refill_loop D aligned (\<lambda>n. idle_env) reconnect b 0 s = (True, s)" for b
    by (subst refill_loop.simps) (simp add: idle_fetch assms)
  with assms(3) show ?thesis
    by (simp add: work_def take_restart_request_def)
qed

definition stocked_source :: "(recording_sink, nat) http_source" where
  "stocked_source = example_source\<lparr>sample_buffer := [(zero, zero), (zero, zero)],
     chunk_rx := Some \<lparr>queued = [], reader_ended = False\<rparr>\<rparr>"

theorem source_breaks_indexed_witness:
  "sorted_wrt key_less (recorded_breaks (the (sink (snd (start_stream example_answers example_source)))))"
  using source_breaks_indexed [OF example_run(2) [of example_deps "\<lambda>n. True"]] by blast

theorem source_buffer_bounded_witness:
  "length (sample_buffer (snd (start_stream example_answers example_source)))
     \<le> buffer_capacity (snd (start_stream example_answers example_source))"
  by (rule source_buffer_bounded [OF example_run(2) [of example_deps "\<lambda>n. True"]])


theorem only_measurable_links_judged_witness:
  "case link_check (snd (start_stream example_answers example_source)) of
     Unmeasured \<Rightarrow> True | Measuring m \<Rightarrow> link_check_measurable (snd (start_stream example_answers example_source))
   | Done verdict \<Rightarrow> verdict = None \<or> link_check_measurable (snd (start_stream example_answers example_source))"
  by (rule only_measurable_links_judged [OF example_run(2) [of example_deps "\<lambda>n. True"]])


theorem no_lost_wakeup_witness:
  "\<exists>xs s'. work recording_record example_deps (\<lambda>n. True) (\<lambda>n. idle_env) example_answers example_answers 1 USIZE_MAX
       stocked_source = (xs, False, s') \<and> length xs = 1 \<and> sample_buffer s' \<noteq> []"
proof -
  have f: "chunk_rx stocked_source = Some \<lparr>queued = [], reader_ended = False\<rparr>" "link_check stocked_source = Unmeasured"
    "shared_stats stocked_source = None" "sample_buffer stocked_source = [(zero, zero), (zero, zero)]"
    by (simp_all add: stocked_source_def example_source_def build_source_def with_advanced_options_def
        example_simps)
  have "length (sample_buffer stocked_source) < min (max (refill_capacity stocked_source div 2) 1) (refill_capacity stocked_source)"
    by (simp add: stocked_source_def example_source_def build_source_def with_advanced_options_def example_simps refill_capacity_def sat_add_def sat_mul_def USIZE_MAX_def)
  note w = idle_work [OF f(1-3) this]
  obtain xs s' where r: "work recording_record example_deps (\<lambda>n. True) (\<lambda>n. idle_env) example_answers example_answers 1 USIZE_MAX
       stocked_source = (xs, False, s')"
    using w [of recording_record example_deps "\<lambda>n. True" example_answers example_answers]
      emit_frame(4) [of recording_record 1 stocked_source] f(4) by (auto simp: split_beta)
  from no_lost_wakeup [OF r] r show ?thesis by blast
qed

theorem failed_stream_is_reopened_witness:
  "\<exists>s'. refill_loop example_deps (\<lambda>n. True) (\<lambda>n. idle_env) example_answers 1 0 example_source = (False, s') \<and>
     stream_active s' \<and> chunk_rx s' = Some \<lparr>queued = [], reader_ended = False\<rparr>"
proof -
  have "chunk_rx example_source = None" "sample_buffer example_source = []"
    by (simp_all add: example_source_def build_source_def with_advanced_options_def example_simps)
  then have "fst (refill_loop example_deps (\<lambda>n. True) (\<lambda>n. idle_env) example_answers 1 0 example_source) = False"
    by (subst refill_loop.simps) (simp add: fetch_samples_def MAX_FETCHES_PER_WORK_def)
  then obtain s' where r: "refill_loop example_deps (\<lambda>n. True) (\<lambda>n. idle_env) example_answers 1 0 example_source = (False, s')"
    by (metis prod.collapse)
  have "stream_answer example_answers = Ok ()" by (simp add: example_answers_def)
  from failed_stream_is_reopened [OF r this] r show ?thesis by blast
qed

definition example_items :: "parsed_item list" where
  "example_items =
     [Lost (Protocol ''''), Packet (stream_packet_new example_metadata [(zero, zero), (zero, zero)]),
      Skipped Spectra (Protocol ''''), Packet (stream_packet_new (example_metadata\<lparr>payload := Spectra\<rparr>) [(zero, zero)])]"

theorem items_accounted_witness:
  "fst (process_items 0 example_items example_source) = 2 \<and>
   packets_lost_to_parse_errors (snd (process_items 0 example_items example_source)) = 1 \<and>
   non_iq_packets_skipped (snd (process_items 0 example_items example_source)) = 2"
proof -
  have s: "sample_buffer example_source = []" "overflow_samples example_source = 0"
    "packets_lost_to_parse_errors example_source = 0" "non_iq_packets_skipped example_source = 0"
    by (simp_all add: example_source_def build_source_def with_advanced_options_def example_simps)
  have i: "iq_samples_of example_items = 2" "length (filter is_lost example_items) = 1"
    "length (filter is_other_payload example_items) = 2"
    by (simp_all add: example_items_def stream_packet_new_def example_metadata_def)
  show ?thesis
    using items_accounted [OF prod.collapse [symmetric], of example_source example_items 0] s i
    by (simp add: held_def sat_add_def USIZE_MAX_def)
qed

end
