(* ===== verification/Chunk_Reader.thy ===== *)
theory Chunk_Reader
  imports Float_Bits
begin

text \<open>
  What \<open>src/src/file_source.rs\<close> reads a file through: a \<open>BufReader\<close> over an open
  file, used with \<open>read_exact\<close>, \<open>read\<close>, \<open>seek\<close> and the little-endian
  readers of the \<open>byteorder\<close> crate. The file is a list of bytes that does not change
  while it is open, and the reader is a position in it: an operation takes the file and the
  position and gives an error, or a value and the position after it. A read can fail only at
  the end of the file, a seek only on a target no file offset can hold.
\<close>

type_synonym 'a rd = "bytes \<Rightarrow> nat \<Rightarrow> ('a \<times> nat) result"

named_theorems rd_run \<open>readers on bytes that are known\<close>

section \<open>Operations\<close>

definition rd_ret :: "'a \<Rightarrow> 'a rd" where "rd_ret a f p = Ok (a, p)"

definition rd_fail :: "error \<Rightarrow> 'a rd" where "rd_fail e f p = Err e"

definition rd_bind :: "'a rd \<Rightarrow> ('a \<Rightarrow> 'b rd) \<Rightarrow> 'b rd" where
  "rd_bind m k f p = (case m f p of Inl e \<Rightarrow> Inl e | Inr (a, q) \<Rightarrow> k a f q)"

text \<open>\<open>read_exact\<close> on a buffer of \<open>n\<close> bytes.\<close>

definition rd_exact :: "nat \<Rightarrow> bytes rd" where
  "rd_exact n f p =
     (if n = 0 \<or> p + n \<le> length f then Ok (take n (drop p f), p + n)
      else Err (Io ''failed to fill whole buffer''))"

text \<open>\<open>read\<close> on a buffer of \<open>n\<close> bytes: what is left of the file, at most \<open>n\<close>.\<close>

definition rd_some :: "nat \<Rightarrow> bytes rd" where
  "rd_some n f p = (let bs = take n (drop p f) in Ok (bs, p + length bs))"

definition I64_MAX :: nat where "I64_MAX = 2 ^ 63 - 1"

definition rd_seek :: "nat \<Rightarrow> unit rd" where
  "rd_seek q f p = (if q \<le> I64_MAX then Ok ((), q) else Err (Io ''Invalid argument''))"

definition rd_skip :: "nat \<Rightarrow> unit rd" where
  "rd_skip n f p = rd_seek (p + n) f p"

definition rd_uint :: "nat \<Rightarrow> nat rd" where
  "rd_uint k = rd_bind (rd_exact k) (\<lambda>bs. rd_ret (le_nat bs))"

definition rd_sint :: "nat \<Rightarrow> int rd" where
  "rd_sint k = rd_bind (rd_uint k) (\<lambda>n. rd_ret (twos (8 * k) n))"

abbreviation rd_u8 :: "nat rd" where "rd_u8 \<equiv> rd_uint 1"
abbreviation rd_u16 :: "nat rd" where "rd_u16 \<equiv> rd_uint 2"
abbreviation rd_u32 :: "nat rd" where "rd_u32 \<equiv> rd_uint 4"
abbreviation rd_u64 :: "nat rd" where "rd_u64 \<equiv> rd_uint 8"
abbreviation rd_i8 :: "int rd" where "rd_i8 \<equiv> rd_sint 1"
abbreviation rd_i64 :: "int rd" where "rd_i64 \<equiv> rd_sint 8"

definition rd_f32 :: "f32 rd" where
  "rd_f32 = rd_bind rd_u32 (\<lambda>n. rd_ret (from_bits B32 n))"

definition rd_f64 :: "f64 rd" where
  "rd_f64 = rd_bind rd_u64 (\<lambda>n. rd_ret (from_bits B64 n))"

text \<open>An array read slot by slot.\<close>

primrec rd_array :: "nat \<Rightarrow> 'a rd \<Rightarrow> 'a list rd" where
  "rd_array 0 m = rd_ret []"
| "rd_array (Suc n) m = rd_bind m (\<lambda>x. rd_bind (rd_array n m) (\<lambda>xs. rd_ret (x # xs)))"

section \<open>Laws\<close>

lemma rd_bind_cong [fundef_cong]:
  assumes "m f p = m' f' p'" and "\<And>a q. m' f' p' = Inr (a, q) \<Longrightarrow> k a f q = k' a f' q"
  shows "rd_bind m k f p = rd_bind m' k' f' p'"
  using assms by (auto simp: rd_bind_def split: sum.splits)

lemma rd_ret_run [simp, rd_run]: "rd_ret a f p = Ok (a, p)"
  by (simp add: rd_ret_def)

lemma rd_fail_run [simp, rd_run]: "rd_fail e f p = Err e"
  by (simp add: rd_fail_def)

lemma rd_bind_Ok:
  "rd_bind m k f p = Ok r \<longleftrightarrow> (\<exists>a q. m f p = Ok (a, q) \<and> k a f q = Ok r)"
  by (auto simp: rd_bind_def split: sum.splits)

lemma rd_bind_run: "m f p = Ok (a, q) \<Longrightarrow> rd_bind m k f p = k a f q"
  by (simp add: rd_bind_def)

lemma rd_bind_err: "m f p = Err e \<Longrightarrow> rd_bind m k f p = Err e"
  by (simp add: rd_bind_def)

lemma rd_exact_Ok:
  "rd_exact n f p = Ok (bs, q) \<longleftrightarrow>
     (n = 0 \<or> p + n \<le> length f) \<and> bs = take n (drop p f) \<and> q = p + n"
  by (auto simp: rd_exact_def)

lemma rd_uint_Ok:
  "0 < k \<Longrightarrow> rd_uint k f p = Ok (n, q) \<longleftrightarrow>
     p + k \<le> length f \<and> n = le_nat (take k (drop p f)) \<and> q = p + k"
  by (auto simp: rd_uint_def rd_bind_Ok rd_exact_Ok)

lemma rd_sint_Ok:
  "0 < k \<Longrightarrow> rd_sint k f p = Ok (i, q) \<longleftrightarrow>
     p + k \<le> length f \<and> i = twos (8 * k) (le_nat (take k (drop p f))) \<and> q = p + k"
  by (auto simp: rd_sint_def rd_bind_Ok rd_uint_Ok)

lemma rd_float_Ok:
  "rd_f32 f p = Ok (x, q) \<longleftrightarrow>
     p + 4 \<le> length f \<and> x = from_bits B32 (le_nat (take 4 (drop p f))) \<and> q = p + 4"
  "rd_f64 f p = Ok (x, q) \<longleftrightarrow>
     p + 8 \<le> length f \<and> x = from_bits B64 (le_nat (take 8 (drop p f))) \<and> q = p + 8"
  by (auto simp: rd_f32_def rd_f64_def rd_bind_Ok rd_uint_Ok)

lemma rd_skip_Ok: "rd_skip n f p = Ok (u, q) \<longleftrightarrow> q = p + n \<and> p + n \<le> I64_MAX"
  by (auto simp: rd_skip_def rd_seek_def)

lemmas rd_Ok = rd_bind_Ok rd_exact_Ok rd_uint_Ok rd_sint_Ok rd_float_Ok rd_skip_Ok

section \<open>Readers move forward\<close>

text \<open>\<open>advances n m\<close>: a successful \<open>m\<close> leaves the reader at least \<open>n\<close> bytes further.\<close>

definition advances :: "nat \<Rightarrow> 'a rd \<Rightarrow> bool" where
  "advances n m \<longleftrightarrow> (\<forall>f p a q. m f p = Ok (a, q) \<longrightarrow> p + n \<le> q)"

lemma advancesD: "advances n m \<Longrightarrow> m f p = Ok (a, q) \<Longrightarrow> p + n \<le> q"
  by (simp add: advances_def)

lemma advances_mono: "advances n m \<Longrightarrow> k \<le> n \<Longrightarrow> advances k m"
  by (fastforce simp: advances_def)

lemma advances_bind:
  assumes "advances n m" and "\<And>a. advances k (g a)"
  shows "advances (n + k) (rd_bind m g)"
  unfolding advances_def rd_bind_Ok
proof (intro allI impI, elim exE conjE)
  fix f p a q b r
  assume "m f p = Ok (b, r)" and "g b f r = Ok (a, q)"
  with advancesD [OF assms(1)] advancesD [OF assms(2)]
  have "p + n \<le> r" and "r + k \<le> q" by blast+
  then show "p + (n + k) \<le> q" by simp
qed

lemma advances_basic [simp]:
  "advances 0 (rd_ret a)" "advances 0 (rd_fail e)" "advances n (rd_exact n)" "advances n (rd_skip n)"
  "0 < k \<Longrightarrow> advances k (rd_uint k)" "0 < k \<Longrightarrow> advances k (rd_sint k)"
  "advances 4 rd_f32" "advances 8 rd_f64"
  by (auto simp: advances_def rd_Ok)

section \<open>Bytes at a position\<close>

text \<open>\<open>lies f p xs\<close>: the file has exactly the bytes \<open>xs\<close> from \<open>p\<close> on.\<close>

definition lies :: "bytes \<Rightarrow> nat \<Rightarrow> bytes \<Rightarrow> bool" where
  "lies f p xs \<longleftrightarrow> p + length xs \<le> length f \<and> take (length xs) (drop p f) = xs"

lemma lies_append [simp]:
  "lies f p (xs @ ys) \<longleftrightarrow> lies f p xs \<and> lies f (p + length xs) ys"
proof -
  have "take (length xs + length ys) (drop p f)
      = take (length xs) (drop p f) @ take (length ys) (drop (p + length xs) f)"
    by (simp add: take_add add.commute)
  then show ?thesis by (auto simp: lies_def)
qed

lemma lies_inner: "lies (xs @ ys @ zs) (length xs) ys"
  by (simp add: lies_def)

lemma lies_here: "lies (xs @ ys) 0 xs"
  by (simp add: lies_def)

lemma rd_exact_lies [rd_run]: "lies f p xs \<Longrightarrow> length xs = n \<Longrightarrow> rd_exact n f p = Ok (xs, p + n)"
  by (auto simp: rd_exact_def lies_def)

lemma rd_uint_lies [rd_run]: "lies f p (le_bytes k n) \<Longrightarrow> n < 256 ^ k \<Longrightarrow> rd_uint k f p = Ok (n, p + k)"
  by (simp add: rd_uint_def rd_bind_def rd_exact_lies le_nat_le_bytes)

lemma untwos_bound: "0 < w \<Longrightarrow> untwos w i < 2 ^ w"
proof -
  have "i mod 2 ^ w < 2 ^ w" by simp
  then show ?thesis by (simp add: untwos_def nat_less_iff)
qed

lemma rd_sint_lies [rd_run]:
  assumes "lies f p (le_bytes k (untwos (8 * k) i))" and "- (2 ^ (8 * k - 1)) \<le> i"
    and "i < 2 ^ (8 * k - 1)" and "0 < k"
  shows "rd_sint k f p = Ok (i, p + k)"
proof -
  have "untwos (8 * k) i < 2 ^ (8 * k)" using assms(4) by (intro untwos_bound) simp
  also have "\<dots> = 256 ^ k" by (simp add: power_mult)
  finally have "rd_uint k f p = Ok (untwos (8 * k) i, p + k)"
    using assms(1) by (intro rd_uint_lies)
  then show ?thesis
    using assms by (simp add: rd_sint_def rd_bind_def twos_untwos)
qed

definition enc_f32 :: "f32 \<Rightarrow> bytes" where "enc_f32 x = le_bytes 4 (to_bits B32 x)"

definition enc_f64 :: "f64 \<Rightarrow> bytes" where "enc_f64 x = le_bytes 8 (to_bits B64 x)"

definition enc_i64 :: "int \<Rightarrow> bytes" where "enc_i64 i = le_bytes 8 (untwos 64 i)"

lemma length_enc [simp]: "length (enc_f32 x) = 4" "length (enc_f64 x) = 8" "length (enc_i64 i) = 8"
  by (simp_all add: enc_f32_def enc_f64_def enc_i64_def)

lemma rd_f32_lies [rd_run]: "lies f p (enc_f32 x) \<Longrightarrow> wf B32 x \<Longrightarrow> rd_f32 f p = Ok (x, p + 4)"
  using from_to_bits [of B32 x]
  by (simp add: rd_f32_def rd_bind_def rd_uint_lies enc_f32_def)

lemma rd_f64_lies [rd_run]: "lies f p (enc_f64 x) \<Longrightarrow> wf B64 x \<Longrightarrow> rd_f64 f p = Ok (x, p + 8)"
  using from_to_bits [of B64 x]
  by (simp add: rd_f64_def rd_bind_def rd_uint_lies enc_f64_def)

definition i64 :: "int \<Rightarrow> bool" where "i64 i \<longleftrightarrow> - (2 ^ 63) \<le> i \<and> i < 2 ^ 63"

lemma rd_i64_lies [rd_run]: "lies f p (enc_i64 i) \<Longrightarrow> i64 i \<Longrightarrow> rd_i64 f p = Ok (i, p + 8)"
  by (rule rd_sint_lies) (simp_all add: enc_i64_def i64_def)

lemma rd_skip_run [rd_run]: "p + n \<le> I64_MAX \<Longrightarrow> rd_skip n f p = Ok ((), p + n)"
  by (simp add: rd_skip_def rd_seek_def)

lemma rd_array_lies:
  assumes "\<And>x p. x \<in> set xs \<Longrightarrow> lies f p (e x) \<Longrightarrow> m f p = Ok (x, p + k)"
    and "\<And>x. x \<in> set xs \<Longrightarrow> length (e x) = k"
    and "lies f p (concat (map e xs))"
  shows "rd_array (length xs) m f p = Ok (xs, p + length xs * k)"
  using assms
proof (induction xs arbitrary: p)
  case Nil
  then show ?case by simp
next
  case (Cons x xs)
  have x: "lies f p (e x)" "length (e x) = k" and xs: "lies f (p + k) (concat (map e xs))"
    using Cons.prems by auto
  have "rd_array (length xs) m f (p + k) = Ok (xs, (p + k) + length xs * k)"
    using Cons.prems xs by (intro Cons.IH) auto
  with Cons.prems(1) [of x p] x show ?case by (simp add: rd_bind_def)
qed

lemma rd_array_i64 [rd_run]:
  "lies f p (concat (map enc_i64 xs)) \<Longrightarrow> length xs = n \<Longrightarrow> list_all i64 xs \<Longrightarrow>
   rd_array n rd_i64 f p = Ok (xs, p + n * 8)"
  by (auto intro!: rd_array_lies [of _ _ enc_i64] simp: rd_i64_lies list_all_iff)

lemma rd_array_f64 [rd_run]:
  "lies f p (concat (map enc_f64 xs)) \<Longrightarrow> length xs = n \<Longrightarrow> list_all (wf B64) xs \<Longrightarrow>
   rd_array n rd_f64 f p = Ok (xs, p + n * 8)"
  by (auto intro!: rd_array_lies [of _ _ enc_f64] simp: rd_f64_lies list_all_iff)

lemma rd_array_f32 [rd_run]:
  "lies f p (concat (map enc_f32 xs)) \<Longrightarrow> length xs = n \<Longrightarrow> list_all (wf B32) xs \<Longrightarrow>
   rd_array n rd_f32 f p = Ok (xs, p + n * 4)"
  by (auto intro!: rd_array_lies [of _ _ enc_f32] simp: rd_f32_lies list_all_iff)

lemma rd_array_u64 [rd_run]:
  "lies f p (concat (map (le_bytes 8) xs)) \<Longrightarrow> length xs = n \<Longrightarrow> list_all (\<lambda>x. x < 2 ^ 64) xs \<Longrightarrow>
   rd_array n rd_u64 f p = Ok (xs, p + n * 8)"
  by (auto intro!: rd_array_lies [of _ _ "le_bytes 8"] rd_uint_lies simp: list_all_iff)

lemma length_concat_map:
  "(\<And>x. length (e x) = k) \<Longrightarrow> length (concat (map e xs)) = length xs * k"
  by (induction xs) auto

end
