(* ===== verification/Chunk_Format.thy ===== *)
theory Chunk_Format
  imports Chunk_Reader
begin

text \<open>
  The chunks of an RTSA capture file (\<open>src/src/file_source.rs\<close>): the flag sets and
  enumerations of the format, the header every chunk opens with, one record per chunk and the
  routine that reads its fields. A reader starts behind the 16 bytes of the header, whose size
  field it is given. For each chunk the layout is written out as an encoder, and reading undoes
  it for every declared size.
\<close>

unbundle bit_operations_syntax

section \<open>Flags\<close>

text \<open>A flag set is a \<open>u32\<close>; \<open>from_bits_truncate\<close> drops the bits no flag names.\<close>

definition all_flags :: "nat list \<Rightarrow> nat" where
  "all_flags fs = foldr (OR) fs 0"

definition from_bits_truncate :: "nat list \<Rightarrow> nat \<Rightarrow> nat" where
  "from_bits_truncate fs bits = bits AND all_flags fs"

definition dsp_packet_flags :: "nat list" where
  "dsp_packet_flags =
     [0x00000001, 0x00000002, 0x00000004, 0x00000008, 0x00000010, 0x00000020, 0x00000040,
      0x00000080, 0x00000100, 0x00000200, 0x00000400, 0x00000800, 0x00001000, 0x00002000,
      0x00004000, 0x00008000, 0x00010000, 0x00020000, 0x00100000, 0x01000000, 0x02000000,
      0x04000000, 0x08000000, 0x10000000, 0x20000000, 0x40000000, 0x80000000]"

definition dsscf_flags :: "nat list" where "dsscf_flags = [1, 2]"

definition dspaf_flags :: "nat list" where "dspaf_flags = [1, 2, 4, 8]"

definition meta_type_flags :: "nat list" where "meta_type_flags = [1, 2, 4, 8, 16, 32]"

lemma all_flags_values [simp]:
  "all_flags dsp_packet_flags = 0xFF13FFFF" "all_flags dsscf_flags = 3"
  "all_flags dspaf_flags = 15" "all_flags meta_type_flags = 63"
  by (simp_all add: all_flags_def dsp_packet_flags_def dsscf_flags_def dspaf_flags_def
        meta_type_flags_def)

section \<open>Enumerations\<close>

datatype sample_type = DsStU8 | DsStU16 | DsStS16 | DsStU32 | DsStS32 | DsStF32
  | DsStU8N | DsStU16N | DsStS16N | DsStU32N | DsStS32N | DsStF32N | DsStUnknown

definition sample_types :: "sample_type list" where
  "sample_types = [DsStU8, DsStU16, DsStS16, DsStU32, DsStS32, DsStF32,
     DsStU8N, DsStU16N, DsStS16N, DsStU32N, DsStS32N, DsStF32N]"

definition sample_type_try_from :: "nat \<Rightarrow> sample_type" where
  "sample_type_try_from v = (if v < 12 then sample_types ! v else DsStUnknown)"

datatype sample_unit = DssuGeneric | DssuDbm | DssuPercentage | DssuDbmHz | DssuDbmM2 | DssuIndex
  | DssuPhase | DssuSigned1 | DssuUnsigned1 | DssuTime | DssuDateTime | DssuHz | DssuHzLog
  | DssuWatt | DssuSector | DssuSymbol | DssuDb | DssuNumeric | DssuHzLogCenter | DssuVolt
  | DssuLogPercentage | DssuUnknown

definition sample_units :: "sample_unit list" where
  "sample_units = [DssuGeneric, DssuDbm, DssuPercentage, DssuDbmHz, DssuDbmM2, DssuIndex,
     DssuPhase, DssuSigned1, DssuUnsigned1, DssuTime, DssuDateTime, DssuHz, DssuHzLog,
     DssuWatt, DssuSector, DssuSymbol, DssuDb, DssuNumeric, DssuHzLogCenter, DssuVolt,
     DssuLogPercentage]"

definition sample_unit_try_from :: "nat \<Rightarrow> sample_unit" where
  "sample_unit_try_from v = (if v < 21 then sample_units ! v else DssuUnknown)"

datatype payload_kind = DsptGeneric | DsptAudio | DsptIq | DsptSpectra | DsptDetection
  | DsptHistogram | DsptEnergy | DsptVector3 | DsptStructured | DsptIqSlice | DsptImage
  | DsptUnknown

definition payload_kinds :: "payload_kind list" where
  "payload_kinds = [DsptGeneric, DsptAudio, DsptIq, DsptSpectra, DsptDetection,
     DsptHistogram, DsptEnergy, DsptVector3, DsptStructured, DsptIqSlice, DsptImage]"

definition payload_kind_try_from :: "nat \<Rightarrow> payload_kind" where
  "payload_kind_try_from v = (if v < 11 then payload_kinds ! v else DsptUnknown)"

section \<open>The chunk header\<close>

record rtsa_chunk_header =
  hdr_id :: bytes
  hdr_size :: nat
  hdr_flags :: nat
  hdr_version :: nat
  hdr_header_size :: nat

text \<open>A byte string literal.\<close>

definition tag :: "string \<Rightarrow> bytes" where "tag s = map of_char s"

definition MAX_RTSA_CHUNK_SIZE :: nat where "MAX_RTSA_CHUNK_SIZE = 1000000000"

definition header_read_from :: "rtsa_chunk_header rd" where
  "header_read_from =
     rd_bind (rd_exact 4) (\<lambda>i.
     rd_bind rd_u32 (\<lambda>sz.
     if MAX_RTSA_CHUNK_SIZE < sz then rd_fail (FileFormat 0 ''RTSA chunk '')
     else
       rd_bind rd_u32 (\<lambda>flags.
       rd_bind rd_u16 (\<lambda>version.
       rd_bind rd_u16 (\<lambda>header_size.
       rd_ret \<lparr>hdr_id = i, hdr_size = sz, hdr_flags = flags, hdr_version = version,
               hdr_header_size = header_size\<rparr>)))))"

text \<open>The header a chunk's reader puts in its record.\<close>

definition made_header :: "string \<Rightarrow> nat \<Rightarrow> nat \<Rightarrow> nat \<Rightarrow> rtsa_chunk_header" where
  "made_header s sz flags header_size =
     \<lparr>hdr_id = tag s, hdr_size = sz, hdr_flags = flags, hdr_version = 1,
      hdr_header_size = header_size\<rparr>"

text \<open>
  What is left of a chunk after its fixed fields is skipped; the difference is computed in
  \<open>i64\<close>, so a size below the fixed fields skips nothing.
\<close>

definition rd_skip_rest :: "nat \<Rightarrow> nat \<Rightarrow> unit rd" where
  "rd_skip_rest sz fixed = (if fixed < sz then rd_skip (sz - fixed) else rd_ret ())"

definition enc_header :: "rtsa_chunk_header \<Rightarrow> bytes" where
  "enc_header h = hdr_id h @ le_bytes 4 (hdr_size h) @ le_bytes 4 (hdr_flags h)
     @ le_bytes 2 (hdr_version h) @ le_bytes 2 (hdr_header_size h)"

definition header_ok :: "rtsa_chunk_header \<Rightarrow> bool" where
  "header_ok h \<longleftrightarrow> length (hdr_id h) = 4 \<and> hdr_size h \<le> MAX_RTSA_CHUNK_SIZE
     \<and> hdr_flags h < 2 ^ 32 \<and> hdr_version h < 2 ^ 16 \<and> hdr_header_size h < 2 ^ 16"

lemma length_enc_header [simp]: "header_ok h \<Longrightarrow> length (enc_header h) = 16"
  by (simp add: enc_header_def header_ok_def)

lemma header_roundtrip [rd_run]:
  assumes "lies f p (enc_header h)" and "header_ok h"
  shows "header_read_from f p = Ok (h, p + 16)"
  using assms
  by (cases h) (auto simp: header_read_from_def enc_header_def header_ok_def MAX_RTSA_CHUNK_SIZE_def
      rd_run rd_bind_def)

lemma header_read_Ok:
  assumes "header_read_from f p = Ok (h, q)"
  shows "q = p + 16" and "p + 16 \<le> length f" and "hdr_id h = take 4 (drop p f)"
    and "hdr_size h = le_nat (take 4 (drop (p + 4) f))" and "hdr_size h \<le> MAX_RTSA_CHUNK_SIZE"
    and "hdr_header_size h = le_nat (take 2 (drop (14 + p) f))"
  using assms by (auto simp: header_read_from_def rd_Ok split: if_splits)

lemma rd_skip_rest_run [rd_run]:
  "p + (sz - fixed) \<le> I64_MAX \<Longrightarrow> rd_skip_rest sz fixed f p = Ok ((), p + (sz - fixed))"
  by (simp add: rd_skip_rest_def rd_run)

lemma rd_skip_rest_none [rd_run]: "sz \<le> fixed \<Longrightarrow> rd_skip_rest sz fixed f p = Ok ((), p)"
  by (simp add: rd_skip_rest_def)

lemma rd_skip_rest_Ok:
  "rd_skip_rest sz fixed f p = Ok (u, q) \<Longrightarrow> q = p + (sz - fixed)"
  by (auto simp: rd_skip_rest_def rd_Ok split: if_splits)

section \<open>File header and file tail\<close>

record dsfh_chunk =
  dsfh_header :: rtsa_chunk_header
  creation_time :: f64

definition dsfh_read_from :: "nat \<Rightarrow> dsfh_chunk rd" where
  "dsfh_read_from sz =
     rd_bind rd_f64 (\<lambda>t.
     rd_ret \<lparr>dsfh_header = made_header ''DSFH'' sz 0 8, creation_time = t\<rparr>)"

record dsft_chunk =
  dsft_header :: rtsa_chunk_header
  completion_time :: f64
  dsft_stream_offset :: nat
  num_streams :: nat

definition dsft_read_from :: "nat \<Rightarrow> dsft_chunk rd" where
  "dsft_read_from sz =
     rd_bind rd_f64 (\<lambda>t.
     rd_bind rd_i64 (\<lambda>off.
     rd_bind rd_u32 (\<lambda>n.
     rd_ret \<lparr>dsft_header = made_header ''DSFT'' sz 0 20, completion_time = t,
             dsft_stream_offset = (if off < 0 then 0 else nat off), num_streams = n\<rparr>)))"

section \<open>Stream head\<close>

record strm_chunk =
  strm_header :: rtsa_chunk_header
  strm_stream_id :: nat
  strm_start_time :: f64
  strm_stream_offset :: int
  capture_start_offset :: "f64 option"

definition MAX_PLAUSIBLE_CAPTURE_OFFSET_S :: f64 where
  "MAX_PLAUSIBLE_CAPTURE_OFFSET_S = lit B64 320000000"

definition strm_read_from :: "nat \<Rightarrow> strm_chunk rd" where
  "strm_read_from sz =
     rd_bind rd_u64 (\<lambda>sid.
     rd_bind rd_f64 (\<lambda>t.
     rd_bind rd_i64 (\<lambda>off.
     rd_bind
       (if sz = 48
        then rd_bind rd_f64 (\<lambda>v.
          rd_ret (if fle zero v \<and> flt v MAX_PLAUSIBLE_CAPTURE_OFFSET_S then Some v else None))
        else rd_bind (rd_skip_rest sz 40) (\<lambda>_. rd_ret None)) (\<lambda>cap.
     rd_ret \<lparr>strm_header = made_header ''STRM'' sz 0 24, strm_stream_id = sid,
             strm_start_time = t, strm_stream_offset = off, capture_start_offset = cap\<rparr>))))"

section \<open>Samples\<close>

record samp_chunk =
  samp_header :: rtsa_chunk_header
  samp_stream_id :: nat
  samp_sub_stream_id :: nat
  samp_type :: sample_type
  samp_unit :: sample_unit
  samp_payload :: payload_kind
  samp_compression :: int
  packet_start_time :: f64
  packet_end_time :: f64
  packet_flags :: nat
  samp_size :: nat
  samp_depth :: nat
  num_samples :: nat

definition value_bytes :: "samp_chunk \<Rightarrow> nat" where
  "value_bytes c =
     (case samp_type c of
        DsStU8 \<Rightarrow> 1 | DsStU8N \<Rightarrow> 1
      | DsStU16 \<Rightarrow> 2 | DsStS16 \<Rightarrow> 2 | DsStU16N \<Rightarrow> 2 | DsStS16N \<Rightarrow> 2
      | DsStUnknown \<Rightarrow> 0
      | _ \<Rightarrow> 4)"

definition sample_stride_bytes :: "samp_chunk \<Rightarrow> nat" where
  "sample_stride_bytes c = samp_size c * value_bytes c"

definition samp_read_from :: "nat \<Rightarrow> nat \<Rightarrow> samp_chunk rd" where
  "samp_read_from sz header_size =
     rd_bind rd_u64 (\<lambda>sid.
     rd_bind rd_u32 (\<lambda>sub.
     rd_bind rd_u8 (\<lambda>ty.
     rd_bind rd_u8 (\<lambda>un.
     rd_bind rd_u8 (\<lambda>pl.
     rd_bind rd_i8 (\<lambda>comp.
     rd_bind rd_f64 (\<lambda>t0.
     rd_bind rd_f64 (\<lambda>t1.
     rd_bind rd_u32 (\<lambda>flags.
     rd_bind rd_u32 (\<lambda>ssize.
     rd_bind rd_u32 (\<lambda>depth.
     rd_bind rd_u32 (\<lambda>num.
     rd_bind (rd_skip_rest sz 64) (\<lambda>_.
     let pf = from_bits_truncate dsp_packet_flags flags in
     rd_ret \<lparr>samp_header = made_header ''SAMP'' sz pf header_size, samp_stream_id = sid,
             samp_sub_stream_id = sub, samp_type = sample_type_try_from ty,
             samp_unit = sample_unit_try_from un, samp_payload = payload_kind_try_from pl,
             samp_compression = comp, packet_start_time = t0, packet_end_time = t1,
             packet_flags = pf, samp_size = ssize, samp_depth = depth,
             num_samples = num\<rparr>)))))))))))))"

section \<open>Sub-streams\<close>

record sstr_chunk =
  sstr_header :: rtsa_chunk_header
  sstr_stream_id :: nat
  sstr_sub_stream_id :: nat
  sstr_sub_stream_offset :: int
  sstr_frequency_start :: f64
  sstr_frequency_step :: f64
  sstr_frequency_span :: f64
  sstr_value_minimum :: f64
  sstr_value_maximum :: f64
  sstr_direction :: f64
  sstr_antenna_index :: nat
  sstr_num_categories :: nat
  sstr_name :: bytes
  sstr_antenna_id :: nat
  sstr_metadata_id :: nat

definition sstr_read_from :: "nat \<Rightarrow> sstr_chunk rd" where
  "sstr_read_from sz =
     rd_bind rd_u64 (\<lambda>sid.
     rd_bind rd_u32 (\<lambda>sub.
     rd_bind (rd_skip 4) (\<lambda>_.
     rd_bind rd_i64 (\<lambda>off.
     rd_bind rd_f64 (\<lambda>fstart.
     rd_bind rd_f64 (\<lambda>fstep.
     rd_bind rd_f64 (\<lambda>fspan.
     rd_bind rd_f64 (\<lambda>vmin.
     rd_bind rd_f64 (\<lambda>vmax.
     rd_bind rd_f64 (\<lambda>dir.
     rd_bind rd_u32 (\<lambda>ant.
     rd_bind rd_u32 (\<lambda>cats.
     rd_bind (rd_exact 128) (\<lambda>nm.
     rd_bind rd_u64 (\<lambda>aid.
     rd_bind rd_u64 (\<lambda>mid.
     rd_bind (rd_skip_rest sz 240) (\<lambda>_.
     rd_ret \<lparr>sstr_header = made_header ''SSTR'' sz 0 224, sstr_stream_id = sid,
             sstr_sub_stream_id = sub, sstr_sub_stream_offset = off,
             sstr_frequency_start = fstart, sstr_frequency_step = fstep,
             sstr_frequency_span = fspan, sstr_value_minimum = vmin,
             sstr_value_maximum = vmax, sstr_direction = dir, sstr_antenna_index = ant,
             sstr_num_categories = cats, sstr_name = nm, sstr_antenna_id = aid,
             sstr_metadata_id = mid\<rparr>))))))))))))))))"

record ssca_chunk =
  ssca_header :: rtsa_chunk_header
  ssca_name :: bytes
  ssca_flags :: nat
  ssca_red :: nat
  ssca_green :: nat
  ssca_blue :: nat
  ssca_alpha :: nat
  ssca_start_frequency :: f64
  ssca_end_frequency :: f64

definition ssca_read_from :: "nat \<Rightarrow> ssca_chunk rd" where
  "ssca_read_from sz =
     rd_bind (rd_exact 128) (\<lambda>nm.
     rd_bind rd_u32 (\<lambda>flags.
     rd_bind rd_u8 (\<lambda>r.
     rd_bind rd_u8 (\<lambda>g.
     rd_bind rd_u8 (\<lambda>b.
     rd_bind rd_u8 (\<lambda>a.
     rd_bind rd_f64 (\<lambda>f0.
     rd_bind rd_f64 (\<lambda>f1.
     rd_ret \<lparr>ssca_header = made_header ''SSCA'' sz 0 152, ssca_name = nm,
             ssca_flags = from_bits_truncate dsscf_flags flags, ssca_red = r, ssca_green = g,
             ssca_blue = b, ssca_alpha = a, ssca_start_frequency = f0,
             ssca_end_frequency = f1\<rparr>))))))))"

section \<open>Antennas\<close>

record anta_chunk =
  anta_header :: rtsa_chunk_header
  anta_antenna_id :: nat
  anta_antenna_offset :: int
  anta_name :: bytes
  anta_latitude :: f64
  anta_longitude :: f64
  anta_flags :: nat
  anta_num_segments :: nat
  anta_transform :: "f32 list list"
  anta_uuid :: bytes

definition anta_read_from :: "nat \<Rightarrow> anta_chunk rd" where
  "anta_read_from sz =
     rd_bind rd_u64 (\<lambda>aid.
     rd_bind rd_i64 (\<lambda>off.
     rd_bind (rd_exact 128) (\<lambda>nm.
     rd_bind rd_f64 (\<lambda>lat.
     rd_bind rd_f64 (\<lambda>lon.
     rd_bind rd_u32 (\<lambda>flags.
     rd_bind rd_u32 (\<lambda>segs.
     rd_bind (rd_array 4 (rd_array 4 rd_f32)) (\<lambda>tr.
     rd_bind (rd_exact 16) (\<lambda>uuid.
     rd_bind (rd_skip_rest sz 264) (\<lambda>_.
     rd_ret \<lparr>anta_header = made_header ''ANTA'' sz 0 248, anta_antenna_id = aid,
             anta_antenna_offset = off, anta_name = nm, anta_latitude = lat,
             anta_longitude = lon, anta_flags = from_bits_truncate dspaf_flags flags,
             anta_num_segments = segs, anta_transform = tr, anta_uuid = uuid\<rparr>))))))))))"

record ants_chunk =
  ants_header :: rtsa_chunk_header
  ants_name :: bytes
  ants_orientation :: "f32 list"
  ants_id :: nat

definition ants_read_from :: "nat \<Rightarrow> ants_chunk rd" where
  "ants_read_from sz =
     rd_bind (rd_exact 128) (\<lambda>nm.
     rd_bind (rd_array 4 rd_f32) (\<lambda>quat.
     rd_bind rd_u32 (\<lambda>i.
     rd_ret \<lparr>ants_header = made_header ''ANTS'' sz 0 148, ants_name = nm,
             ants_orientation = quat, ants_id = i\<rparr>)))"

section \<open>Previews\<close>

record sprv_chunk =
  sprv_header :: rtsa_chunk_header
  sprv_level :: nat
  sprv_count :: nat
  sprv_offsets :: "int list"
  sprv_times :: "f64 list"
  sprv_samples :: "nat list"

definition sprv_read_from :: "nat \<Rightarrow> sprv_chunk rd" where
  "sprv_read_from sz =
     rd_bind rd_u8 (\<lambda>lvl.
     rd_bind rd_u8 (\<lambda>cnt.
     rd_bind (rd_skip 6) (\<lambda>_.
     rd_bind (rd_array 16 rd_i64) (\<lambda>offs.
     rd_bind (rd_array 16 rd_f64) (\<lambda>times.
     rd_bind (rd_array 16 rd_u64) (\<lambda>samps.
     rd_bind (rd_skip_rest sz 408) (\<lambda>_.
     rd_ret \<lparr>sprv_header = made_header ''SPRV'' sz 0 392, sprv_level = lvl, sprv_count = cnt,
             sprv_offsets = offs, sprv_times = times, sprv_samples = samps\<rparr>)))))))"

section \<open>Stream tail\<close>

record strt_chunk =
  strt_header :: rtsa_chunk_header
  strt_stream_offset :: int
  strt_sub_stream_offset :: int
  strt_preview_offset :: int
  strt_num_samples :: nat
  strt_payload_size :: nat
  strt_preview_levels :: nat
  strt_num_previews :: nat
  strt_num_preview_segments :: nat
  strt_end_time :: f64
  strt_antenna_offset :: int
  strt_metadata_offset :: int

text \<open>
  The payload is \<open>sz - 16\<close> bytes; 64 of them are fixed and the two tail offsets are read
  only when the payload holds them. The source counts in \<open>i64\<close>.
\<close>

definition strt_read_from :: "nat \<Rightarrow> strt_chunk rd" where
  "strt_read_from sz =
     rd_bind rd_i64 (\<lambda>off.
     rd_bind rd_i64 (\<lambda>sub.
     rd_bind rd_i64 (\<lambda>prev.
     rd_bind rd_u64 (\<lambda>num.
     rd_bind rd_u64 (\<lambda>pay.
     rd_bind rd_u32 (\<lambda>lvls.
     rd_bind rd_u32 (\<lambda>nprev.
     rd_bind rd_u32 (\<lambda>nseg.
     rd_bind (rd_skip 4) (\<lambda>_.
     rd_bind rd_f64 (\<lambda>t1.
     let payload = int sz - 16; consumed = 64 in
     rd_bind (if payload \<ge> consumed + 8 then rd_i64 else rd_ret 0) (\<lambda>ant.
     let consumed = (if payload \<ge> consumed + 8 then consumed + 8 else consumed) in
     rd_bind (if payload \<ge> consumed + 8 then rd_i64 else rd_ret 0) (\<lambda>meta.
     let consumed = (if payload \<ge> consumed + 8 then consumed + 8 else consumed);
         remaining = payload - consumed in
     rd_bind (if remaining > 0 then rd_skip (nat remaining) else rd_ret ()) (\<lambda>_.
     rd_ret \<lparr>strt_header = made_header ''STRT'' sz 0 80, strt_stream_offset = off,
             strt_sub_stream_offset = sub, strt_preview_offset = prev, strt_num_samples = num,
             strt_payload_size = pay, strt_preview_levels = lvls, strt_num_previews = nprev,
             strt_num_preview_segments = nseg, strt_end_time = t1, strt_antenna_offset = ant,
             strt_metadata_offset = meta\<rparr>)))))))))))))"

end
