(* ===== verification/Chunk_Layout.thy ===== *)
theory Chunk_Layout
  imports Chunk_Format
begin

text \<open>
  The byte layouts of the chunks, written as encoders over the records of \<open>Chunk_Format\<close>,
  and the round trips: a chunk laid out at a position is what its reader returns there, with
  the reader left at the end of the declared chunk. Padding bytes and the bytes behind the
  fixed fields may hold anything.
\<close>

section \<open>Discriminants\<close>

fun sample_type_code :: "sample_type \<Rightarrow> nat" where
  "sample_type_code DsStU8 = 0" | "sample_type_code DsStU16 = 1"
| "sample_type_code DsStS16 = 2" | "sample_type_code DsStU32 = 3"
| "sample_type_code DsStS32 = 4" | "sample_type_code DsStF32 = 5"
| "sample_type_code DsStU8N = 6" | "sample_type_code DsStU16N = 7"
| "sample_type_code DsStS16N = 8" | "sample_type_code DsStU32N = 9"
| "sample_type_code DsStS32N = 10" | "sample_type_code DsStF32N = 11"
| "sample_type_code DsStUnknown = 255"

fun sample_unit_code :: "sample_unit \<Rightarrow> nat" where
  "sample_unit_code DssuGeneric = 0" | "sample_unit_code DssuDbm = 1"
| "sample_unit_code DssuPercentage = 2" | "sample_unit_code DssuDbmHz = 3"
| "sample_unit_code DssuDbmM2 = 4" | "sample_unit_code DssuIndex = 5"
| "sample_unit_code DssuPhase = 6" | "sample_unit_code DssuSigned1 = 7"
| "sample_unit_code DssuUnsigned1 = 8" | "sample_unit_code DssuTime = 9"
| "sample_unit_code DssuDateTime = 10" | "sample_unit_code DssuHz = 11"
| "sample_unit_code DssuHzLog = 12" | "sample_unit_code DssuWatt = 13"
| "sample_unit_code DssuSector = 14" | "sample_unit_code DssuSymbol = 15"
| "sample_unit_code DssuDb = 16" | "sample_unit_code DssuNumeric = 17"
| "sample_unit_code DssuHzLogCenter = 18" | "sample_unit_code DssuVolt = 19"
| "sample_unit_code DssuLogPercentage = 20" | "sample_unit_code DssuUnknown = 255"

fun payload_kind_code :: "payload_kind \<Rightarrow> nat" where
  "payload_kind_code DsptGeneric = 0" | "payload_kind_code DsptAudio = 1"
| "payload_kind_code DsptIq = 2" | "payload_kind_code DsptSpectra = 3"
| "payload_kind_code DsptDetection = 4" | "payload_kind_code DsptHistogram = 5"
| "payload_kind_code DsptEnergy = 6" | "payload_kind_code DsptVector3 = 7"
| "payload_kind_code DsptStructured = 8" | "payload_kind_code DsptIqSlice = 9"
| "payload_kind_code DsptImage = 10" | "payload_kind_code DsptUnknown = 255"

lemma try_from_code [simp]:
  "sample_type_try_from (sample_type_code t) = t"
  "sample_unit_try_from (sample_unit_code u) = u"
  "payload_kind_try_from (payload_kind_code k) = k"
  subgoal by (cases t) (simp_all add: sample_type_try_from_def sample_types_def)
  subgoal by (cases u) (simp_all add: sample_unit_try_from_def sample_units_def)
  subgoal by (cases k) (simp_all add: payload_kind_try_from_def payload_kinds_def)
  done

lemma code_bound [simp]:
  "sample_type_code t < 256" "sample_unit_code u < 256" "payload_kind_code k < 256"
  subgoal by (cases t) simp_all
  subgoal by (cases u) simp_all
  subgoal by (cases k) simp_all
  done

lemmas width_defs = i64_def I64_MAX_def

section \<open>Samples\<close>

definition samp_bytes :: "samp_chunk \<Rightarrow> bytes" where
  "samp_bytes c =
     le_bytes 8 (samp_stream_id c) @ le_bytes 4 (samp_sub_stream_id c)
     @ le_bytes 1 (sample_type_code (samp_type c)) @ le_bytes 1 (sample_unit_code (samp_unit c))
     @ le_bytes 1 (payload_kind_code (samp_payload c)) @ le_bytes 1 (untwos 8 (samp_compression c))
     @ enc_f64 (packet_start_time c) @ enc_f64 (packet_end_time c)
     @ le_bytes 4 (packet_flags c) @ le_bytes 4 (samp_size c) @ le_bytes 4 (samp_depth c)
     @ le_bytes 4 (num_samples c)"

definition samp_ok :: "nat \<Rightarrow> nat \<Rightarrow> samp_chunk \<Rightarrow> bool" where
  "samp_ok sz hs c \<longleftrightarrow>
     samp_header c = made_header ''SAMP'' sz (packet_flags c) hs
     \<and> samp_stream_id c < 2 ^ 64 \<and> samp_sub_stream_id c < 2 ^ 32
     \<and> - 128 \<le> samp_compression c \<and> samp_compression c < 128
     \<and> wf B64 (packet_start_time c) \<and> wf B64 (packet_end_time c)
     \<and> packet_flags c < 2 ^ 32 \<and> from_bits_truncate dsp_packet_flags (packet_flags c) = packet_flags c
     \<and> samp_size c < 2 ^ 32 \<and> samp_depth c < 2 ^ 32 \<and> num_samples c < 2 ^ 32"

lemma length_samp_bytes [simp]: "length (samp_bytes c) = 48"
  by (simp add: samp_bytes_def)

lemma rd_i8_lies: "lies f p (le_bytes 1 (untwos 8 i)) \<Longrightarrow> - 128 \<le> i \<Longrightarrow> i < 128 \<Longrightarrow>
    rd_i8 f p = Ok (i, p + 1)"
  using rd_sint_lies [of f p 1 i] by simp

lemma samp_roundtrip:
  assumes "lies f p (samp_bytes c)" and "samp_ok sz hs c" and "p + (sz - 16) \<le> I64_MAX"
  shows "samp_read_from sz hs f p = Ok (c, p + max 48 (sz - 16))"
  using assms
  by (cases c) (auto simp: samp_read_from_def samp_bytes_def samp_ok_def Let_def max_def
      rd_run rd_i8_lies rd_bind_def simp del: le_bytes.simps)

section \<open>The stream tail\<close>

definition strt_bytes :: "nat \<Rightarrow> bytes \<Rightarrow> strt_chunk \<Rightarrow> bytes" where
  "strt_bytes sz pad c =
     enc_i64 (strt_stream_offset c) @ enc_i64 (strt_sub_stream_offset c)
     @ enc_i64 (strt_preview_offset c) @ le_bytes 8 (strt_num_samples c)
     @ le_bytes 8 (strt_payload_size c) @ le_bytes 4 (strt_preview_levels c)
     @ le_bytes 4 (strt_num_previews c) @ le_bytes 4 (strt_num_preview_segments c)
     @ pad @ enc_f64 (strt_end_time c)
     @ (if 88 \<le> sz then enc_i64 (strt_antenna_offset c) else [])
     @ (if 96 \<le> sz then enc_i64 (strt_metadata_offset c) else [])"

definition strt_ok :: "nat \<Rightarrow> strt_chunk \<Rightarrow> bool" where
  "strt_ok sz c \<longleftrightarrow>
     strt_header c = made_header ''STRT'' sz 0 80
     \<and> i64 (strt_stream_offset c) \<and> i64 (strt_sub_stream_offset c) \<and> i64 (strt_preview_offset c)
     \<and> strt_num_samples c < 2 ^ 64 \<and> strt_payload_size c < 2 ^ 64
     \<and> strt_preview_levels c < 2 ^ 32 \<and> strt_num_previews c < 2 ^ 32
     \<and> strt_num_preview_segments c < 2 ^ 32 \<and> wf B64 (strt_end_time c)
     \<and> (if 88 \<le> sz then i64 (strt_antenna_offset c) else strt_antenna_offset c = 0)
     \<and> (if 96 \<le> sz then i64 (strt_metadata_offset c) else strt_metadata_offset c = 0)"

lemma strt_roundtrip:
  assumes "lies f p (strt_bytes sz pad c)" and "length pad = 4" and "strt_ok sz c"
    and "p + max 64 (sz - 16) \<le> I64_MAX"
  shows "strt_read_from sz f p = Ok (c, p + max 64 (sz - 16))"
proof -
  consider "sz < 88" | "88 \<le> sz" "sz < 96" | "96 \<le> sz" by linarith
  then show ?thesis
    using assms
    by cases (cases c; auto simp: strt_read_from_def strt_bytes_def strt_ok_def Let_def max_def
      rd_run rd_bind_def nat_diff_distrib' simp del: le_bytes.simps split: if_splits)+
qed

section \<open>Sub-streams\<close>

definition sstr_bytes :: "bytes \<Rightarrow> sstr_chunk \<Rightarrow> bytes" where
  "sstr_bytes pad c =
     le_bytes 8 (sstr_stream_id c) @ le_bytes 4 (sstr_sub_stream_id c) @ pad
     @ enc_i64 (sstr_sub_stream_offset c) @ enc_f64 (sstr_frequency_start c)
     @ enc_f64 (sstr_frequency_step c) @ enc_f64 (sstr_frequency_span c)
     @ enc_f64 (sstr_value_minimum c) @ enc_f64 (sstr_value_maximum c)
     @ enc_f64 (sstr_direction c) @ le_bytes 4 (sstr_antenna_index c)
     @ le_bytes 4 (sstr_num_categories c) @ sstr_name c @ le_bytes 8 (sstr_antenna_id c)
     @ le_bytes 8 (sstr_metadata_id c)"

definition sstr_ok :: "nat \<Rightarrow> sstr_chunk \<Rightarrow> bool" where
  "sstr_ok sz c \<longleftrightarrow>
     sstr_header c = made_header ''SSTR'' sz 0 224
     \<and> sstr_stream_id c < 2 ^ 64 \<and> sstr_sub_stream_id c < 2 ^ 32
     \<and> i64 (sstr_sub_stream_offset c) \<and> wf B64 (sstr_frequency_start c)
     \<and> wf B64 (sstr_frequency_step c) \<and> wf B64 (sstr_frequency_span c)
     \<and> wf B64 (sstr_value_minimum c) \<and> wf B64 (sstr_value_maximum c)
     \<and> wf B64 (sstr_direction c) \<and> sstr_antenna_index c < 2 ^ 32
     \<and> sstr_num_categories c < 2 ^ 32 \<and> length (sstr_name c) = 128
     \<and> sstr_antenna_id c < 2 ^ 64 \<and> sstr_metadata_id c < 2 ^ 64"

lemma sstr_roundtrip:
  assumes "lies f p (sstr_bytes pad c)" and "length pad = 4" and "sstr_ok sz c"
    and "p + max 224 (sz - 16) \<le> I64_MAX"
  shows "sstr_read_from sz f p = Ok (c, p + max 224 (sz - 16))"
  using assms
  by (cases c) (auto simp: sstr_read_from_def sstr_bytes_def sstr_ok_def Let_def max_def
      rd_run rd_bind_def simp del: le_bytes.simps)

section \<open>The stream head\<close>

definition plausible_offset :: "f64 \<Rightarrow> bool" where
  "plausible_offset v \<longleftrightarrow> fle zero v \<and> flt v MAX_PLAUSIBLE_CAPTURE_OFFSET_S"

definition strm_bytes :: "nat \<Rightarrow> f64 \<Rightarrow> strm_chunk \<Rightarrow> bytes" where
  "strm_bytes sz v c =
     le_bytes 8 (strm_stream_id c) @ enc_f64 (strm_start_time c) @ enc_i64 (strm_stream_offset c)
     @ (if sz = 48 then enc_f64 v else [])"

definition strm_ok :: "nat \<Rightarrow> f64 \<Rightarrow> strm_chunk \<Rightarrow> bool" where
  "strm_ok sz v c \<longleftrightarrow>
     strm_header c = made_header ''STRM'' sz 0 24
     \<and> strm_stream_id c < 2 ^ 64 \<and> wf B64 (strm_start_time c) \<and> i64 (strm_stream_offset c)
     \<and> wf B64 v
     \<and> capture_start_offset c = (if sz = 48 \<and> plausible_offset v then Some v else None)"

text \<open>
  A capture start is reported exactly when the chunk is 48 bytes long and the extra double is
  in the plausible range; no other chunk shifts the timestamps.
\<close>

lemma strm_roundtrip:
  assumes "lies f p (strm_bytes sz v c)" and "strm_ok sz v c"
    and "p + max 24 (sz - 16) \<le> I64_MAX"
  shows "strm_read_from sz f p = Ok (c, p + max 24 (sz - 16))"
  using assms
  by (cases c; cases "sz = 48") (auto simp: strm_read_from_def strm_bytes_def strm_ok_def
      plausible_offset_def Let_def max_def rd_run rd_bind_def simp del: le_bytes.simps)

section \<open>Previews\<close>

definition sprv_bytes :: "bytes \<Rightarrow> sprv_chunk \<Rightarrow> bytes" where
  "sprv_bytes pad c =
     le_bytes 1 (sprv_level c) @ le_bytes 1 (sprv_count c) @ pad
     @ concat (map enc_i64 (sprv_offsets c)) @ concat (map enc_f64 (sprv_times c))
     @ concat (map (le_bytes 8) (sprv_samples c))"

definition sprv_ok :: "nat \<Rightarrow> sprv_chunk \<Rightarrow> bool" where
  "sprv_ok sz c \<longleftrightarrow>
     sprv_header c = made_header ''SPRV'' sz 0 392
     \<and> sprv_level c < 256 \<and> sprv_count c < 256
     \<and> length (sprv_offsets c) = 16 \<and> length (sprv_times c) = 16 \<and> length (sprv_samples c) = 16
     \<and> list_all i64 (sprv_offsets c) \<and> list_all (wf B64) (sprv_times c)
     \<and> list_all (\<lambda>n. n < 2 ^ 64) (sprv_samples c)"

lemma sprv_roundtrip:
  assumes "lies f p (sprv_bytes pad c)" and "length pad = 6" and "sprv_ok sz c"
    and "p + max 392 (sz - 16) \<le> I64_MAX"
  shows "sprv_read_from sz f p = Ok (c, p + max 392 (sz - 16))"
  using assms
  by (cases c) (auto simp: sprv_read_from_def sprv_bytes_def sprv_ok_def Let_def max_def
      length_concat_map [where k = 8] rd_run rd_bind_def
      simp del: le_bytes.simps rd_array.simps length_concat)

section \<open>Antennas\<close>

definition anta_bytes :: "anta_chunk \<Rightarrow> bytes" where
  "anta_bytes c =
     le_bytes 8 (anta_antenna_id c) @ enc_i64 (anta_antenna_offset c) @ anta_name c
     @ enc_f64 (anta_latitude c) @ enc_f64 (anta_longitude c) @ le_bytes 4 (anta_flags c)
     @ le_bytes 4 (anta_num_segments c)
     @ concat (map (\<lambda>row. concat (map enc_f32 row)) (anta_transform c)) @ anta_uuid c"

definition anta_ok :: "nat \<Rightarrow> anta_chunk \<Rightarrow> bool" where
  "anta_ok sz c \<longleftrightarrow>
     anta_header c = made_header ''ANTA'' sz 0 248
     \<and> anta_antenna_id c < 2 ^ 64 \<and> i64 (anta_antenna_offset c) \<and> length (anta_name c) = 128
     \<and> wf B64 (anta_latitude c) \<and> wf B64 (anta_longitude c) \<and> anta_flags c < 2 ^ 32
     \<and> from_bits_truncate dspaf_flags (anta_flags c) = anta_flags c \<and> anta_num_segments c < 2 ^ 32
     \<and> length (anta_transform c) = 4
     \<and> list_all (\<lambda>row. length row = 4 \<and> list_all (wf B32) row) (anta_transform c)
     \<and> length (anta_uuid c) = 16"

lemma rd_transform_lies:
  assumes "lies f p (concat (map (\<lambda>row. concat (map enc_f32 row)) rows))"
    and "length rows = n" and "list_all (\<lambda>row. length row = 4 \<and> list_all (wf B32) row) rows"
  shows "rd_array n (rd_array 4 rd_f32) f p = Ok (rows, p + n * 16)"
proof -
  have "rd_array (length rows) (rd_array 4 rd_f32) f p = Ok (rows, p + length rows * 16)"
  proof (rule rd_array_lies [where e = "\<lambda>row. concat (map enc_f32 row)"])
    fix x p
    assume "x \<in> set rows" and "lies f p (concat (map enc_f32 x))"
    with assms(3) show "rd_array 4 rd_f32 f p = Ok (x, p + 16)"
      using rd_array_f32 [of f p x 4] by (simp add: list_all_iff del: rd_array.simps)
  next
    fix x
    assume "x \<in> set rows"
    with assms(3) show "length (concat (map enc_f32 x)) = 16"
      by (simp add: length_concat_map [where k = 4] list_all_iff del: length_concat)
  qed (rule assms(1))
  with assms(2) show ?thesis by simp
qed

lemma length_transform:
  assumes "length rows = 4" and "list_all (\<lambda>row. length row = 4 \<and> list_all (wf B32) row) rows"
  shows "length (concat (map (\<lambda>row. concat (map enc_f32 row)) rows)) = 64"
proof -
  have "map (\<lambda>row. length (concat (map enc_f32 row))) rows = map (\<lambda>_. 16) rows"
    using assms(2)
    by (simp add: length_concat_map [where k = 4] list_all_iff del: length_concat)
  then show ?thesis using assms(1)
    by (simp only: length_concat map_map comp_def) (simp add: sum_list_replicate map_replicate_const)
qed

lemma anta_roundtrip:
  assumes "lies f p (anta_bytes c)" and "anta_ok sz c" and "p + max 248 (sz - 16) \<le> I64_MAX"
  shows "anta_read_from sz f p = Ok (c, p + max 248 (sz - 16))"
  using assms
  by (cases c) (auto simp: anta_read_from_def anta_bytes_def anta_ok_def Let_def max_def
      length_transform rd_transform_lies rd_run rd_bind_def
      simp del: le_bytes.simps rd_array.simps length_concat)

end
