(* ===== verification/Meta_Type.thy ===== *)
theory Meta_Type
  imports Chunk_Format
begin

text \<open>
  The structured type definitions of an MDTT chunk (\<open>src/src/file_source.rs\<close>): a tree
  read by recursion from an untrusted payload, with a cap on its depth and on the number of
  fields of an object. The readers are total because of the depth cap; what they accept is
  well formed and no larger than the bytes it was read from.
\<close>

section \<open>Names\<close>

text \<open>
  \<open>String::from_utf8_lossy\<close> on the bytes of a name, the string as its UTF-8 bytes: a
  well-formed sequence is kept, the longest prefix of an ill-formed one becomes the
  replacement character.
\<close>

definition is_cont :: "byte \<Rightarrow> bool" where "is_cont b \<longleftrightarrow> 0x80 \<le> b \<and> b \<le> 0xBF"

definition second_ok :: "byte \<Rightarrow> byte \<Rightarrow> bool" where
  "second_ok a b =
     (if a = 0xE0 then 0xA0 \<le> b \<and> b \<le> 0xBF
      else if a = 0xED then 0x80 \<le> b \<and> b \<le> 0x9F
      else if a = 0xF0 then 0x90 \<le> b \<and> b \<le> 0xBF
      else if a = 0xF4 then 0x80 \<le> b \<and> b \<le> 0x8F
      else is_cont b)"

definition utf8_width :: "byte \<Rightarrow> nat" where
  "utf8_width a = (if a < 0x80 then 1 else if 0xC2 \<le> a \<and> a \<le> 0xDF then 2
     else if 0xE0 \<le> a \<and> a \<le> 0xEF then 3 else if 0xF0 \<le> a \<and> a \<le> 0xF4 then 4 else 0)"

text \<open>The length of the sequence that starts the list, and whether it is well formed.\<close>

definition utf8_step :: "bytes \<Rightarrow> nat \<times> bool" where
  "utf8_step bs =
     (let a = bs ! 0; w = utf8_width a; has = (\<lambda>i p. i < length bs \<and> p (bs ! i))
      in if w = 1 then (1, True)
         else if w = 0 \<or> \<not> has 1 (second_ok a) then (1, False)
         else if w = 2 then (2, True)
         else if \<not> has 2 is_cont then (2, False)
         else if w = 3 then (3, True)
         else if \<not> has 3 is_cont then (3, False)
         else (4, True))"

lemma utf8_step_pos: "0 < fst (utf8_step bs)"
  by (simp add: utf8_step_def Let_def)

lemma utf8_step_dest: "(k, ok) = utf8_step bs \<Longrightarrow> 0 < k"
  using utf8_step_pos [of bs] by (metis fst_conv)

function utf8_lossy :: "bytes \<Rightarrow> bytes" where
  "utf8_lossy [] = []"
| "utf8_lossy (b # bs) =
     (case utf8_step (b # bs) of (k, ok) \<Rightarrow>
        (if ok then take k (b # bs) else [0xEF, 0xBF, 0xBD]) @ utf8_lossy (drop k (b # bs)))"
  by pat_completeness auto
termination
  by (relation "measure length") (auto dest: utf8_step_dest)

declare utf8_lossy.simps(2) [simp del]

lemma utf8_lossy_ascii:
  "list_all (\<lambda>b. b < 0x80) bs \<Longrightarrow> utf8_lossy bs = bs"
proof (induction bs)
  case Nil
  then show ?case by simp
next
  case (Cons b bs)
  then have "utf8_step (b # bs) = (1, True)"
    by (simp add: utf8_step_def utf8_width_def Let_def)
  with Cons show ?case by (simp add: utf8_lossy.simps(2))
qed

text \<open>\<open>trim_end_matches('\0')\<close> behind it.\<close>

definition name_text :: "bytes \<Rightarrow> bytes" where
  "name_text bs = rev (dropWhile (\<lambda>b. b = 0) (rev (utf8_lossy bs)))"

lemma name_text_padded:
  assumes "list_all (\<lambda>b. 0 < b \<and> b < 0x80) nm"
  shows "name_text (nm @ replicate k 0) = nm"
proof -
  have "list_all (\<lambda>b. b < 0x80) (nm @ replicate k 0)"
    using assms by (auto simp: list_all_iff)
  then have "utf8_lossy (nm @ replicate k 0) = nm @ replicate k 0" by (rule utf8_lossy_ascii)
  moreover have "dropWhile (\<lambda>b. b = 0) (rev nm) = rev nm"
    using assms by (cases "rev nm") (auto simp: list_all_iff dest!: arg_cong [of "rev nm" _ set])
  moreover have "dropWhile (\<lambda>b. b = 0) (replicate k (0 :: byte) @ ys) = dropWhile (\<lambda>b. b = 0) ys" for ys
    by (induction k) simp_all
  ultimately show ?thesis by (simp add: name_text_def)
qed

section \<open>Definitions and their readers\<close>

datatype meta_type = MtNone | MtBool | MtInteger | MtFloat | MtString | MtVector | MtArray | MtObject

definition meta_types :: "meta_type list" where
  "meta_types = [MtNone, MtBool, MtInteger, MtFloat, MtString, MtVector, MtArray, MtObject]"

definition meta_type_try_from :: "nat \<Rightarrow> meta_type result" where
  "meta_type_try_from v =
     (if v < 8 then Ok (meta_types ! v) else Err (FileFormat 0 ''Invalid MetaType value: ''))"

datatype meta_definition =
    MetaDef (md_id: nat) (md_type: meta_type) (md_flags: nat) (md_count: nat)
      (md_elements: "meta_element list")
and meta_element =
    MetaElement (me_name: bytes) (me_flags: nat) (me_definition: meta_definition)

definition MAX_MDTT_PAYLOAD :: nat where "MAX_MDTT_PAYLOAD = 16777216"
definition MAX_META_TYPE_DEPTH :: nat where "MAX_META_TYPE_DEPTH = 32"
definition MAX_META_TYPE_ELEMENTS :: nat where "MAX_META_TYPE_ELEMENTS = 4096"

definition rd_lift :: "'a result \<Rightarrow> 'a rd" where
  "rd_lift r f p = (case r of Inl e \<Rightarrow> Inl e | Inr a \<Rightarrow> Ok (a, p))"

function read_meta_type_definition_at_depth :: "nat \<Rightarrow> meta_definition rd"
  and read_elements :: "nat \<Rightarrow> nat \<Rightarrow> meta_element list rd" where
  "read_meta_type_definition_at_depth depth f p =
     (if MAX_META_TYPE_DEPTH < depth
      then Err (FileFormat 0 ''MDTT type definition exceeds maximum nesting depth '')
      else
        rd_bind rd_u64 (\<lambda>i.
        rd_bind rd_u8 (\<lambda>b.
        rd_bind (rd_lift (meta_type_try_from b)) (\<lambda>ty.
        rd_bind rd_u32 (\<lambda>fl.
        rd_bind rd_u32 (\<lambda>cnt.
        if ty = MtObject \<or> ty = MtArray \<or> ty = MtVector
        then if ty = MtObject \<and> MAX_META_TYPE_ELEMENTS < cnt
             then rd_fail (FileFormat 0 ''MDTT object declares '')
             else rd_bind (\<lambda>f p. read_elements depth (if ty = MtObject then cnt else 1) f p)
                    (\<lambda>es. rd_ret (MetaDef i ty (from_bits_truncate meta_type_flags fl) cnt es))
        else rd_ret (MetaDef i ty (from_bits_truncate meta_type_flags fl) cnt [])))))) f p)"
| "read_elements depth n f p =
     (if n = 0 then Ok ([], p)
      else
        rd_bind (rd_exact 128) (\<lambda>nm.
        rd_bind rd_u32 (\<lambda>fl.
        rd_bind (\<lambda>f p. read_meta_type_definition_at_depth (depth + 1) f p) (\<lambda>d.
        rd_bind (\<lambda>f p. read_elements depth (n - 1) f p) (\<lambda>es.
        rd_ret (MetaElement (name_text nm) fl d # es))))) f p)"
  by pat_completeness auto
termination
  by (relation "measures
        [case_sum (\<lambda>(d, f, p). 2 * (33 - d)) (\<lambda>(d, n, f, p). max 1 (2 * (33 - d) - 1)),
         case_sum (\<lambda>_. 0) (\<lambda>(d, n, f, p). n)]")
     (auto simp: MAX_META_TYPE_DEPTH_def)

declare read_meta_type_definition_at_depth.simps [simp del] read_elements.simps [simp del]

definition read_meta_type_definition :: "meta_definition rd" where
  "read_meta_type_definition = read_meta_type_definition_at_depth 0"

record mdtt_chunk =
  mdtt_header :: rtsa_chunk_header
  mdtt_metadata_id :: nat
  mdtt_metadata_offset :: int
  mdtt_definition :: "meta_definition option"

text \<open>The definition is read from a cursor over its own buffer.\<close>

definition mdtt_read_from :: "nat \<Rightarrow> mdtt_chunk rd" where
  "mdtt_read_from sz =
     rd_bind rd_u64 (\<lambda>i.
     rd_bind rd_i64 (\<lambda>off.
     let payload_size = sz - 32 in
     if MAX_MDTT_PAYLOAD < payload_size then rd_fail (FileFormat 0 ''MDTT chunk declares a '')
     else
       rd_bind
         (if 0 < payload_size
          then rd_bind (rd_exact payload_size) (\<lambda>buf.
            rd_bind (rd_lift (read_meta_type_definition buf 0)) (\<lambda>(d, q). rd_ret (Some d)))
          else rd_ret None) (\<lambda>def.
       rd_ret \<lparr>mdtt_header = made_header ''MDTT'' sz 0 16, mdtt_metadata_id = i,
               mdtt_metadata_offset = off, mdtt_definition = def\<rparr>)))"

section \<open>What the readers accept\<close>

primrec md_height :: "meta_definition \<Rightarrow> nat" and me_height :: "meta_element \<Rightarrow> nat" where
  "md_height (MetaDef i ty fl cnt es) = Suc (foldr max (map me_height es) 0)"
| "me_height (MetaElement nm fl d) = md_height d"

text \<open>The bytes a definition takes in the payload.\<close>

primrec md_bytes :: "meta_definition \<Rightarrow> nat" and me_bytes :: "meta_element \<Rightarrow> nat" where
  "md_bytes (MetaDef i ty fl cnt es) = 17 + sum_list (map me_bytes es)"
| "me_bytes (MetaElement nm fl d) = 132 + md_bytes d"

definition elements_of :: "meta_type \<Rightarrow> nat \<Rightarrow> nat" where
  "elements_of ty cnt = (if ty = MtObject then cnt else if ty = MtArray \<or> ty = MtVector then 1 else 0)"

primrec md_wf :: "meta_definition \<Rightarrow> bool" and me_wf :: "meta_element \<Rightarrow> bool" where
  "md_wf (MetaDef i ty fl cnt es) \<longleftrightarrow>
     i < 2 ^ 64 \<and> from_bits_truncate meta_type_flags fl = fl \<and> cnt < 2 ^ 32
     \<and> (ty = MtObject \<longrightarrow> cnt \<le> MAX_META_TYPE_ELEMENTS)
     \<and> length es = elements_of ty cnt \<and> list_all me_wf es"
| "me_wf (MetaElement nm fl d) \<longleftrightarrow> (nm = [] \<or> last nm \<noteq> 0) \<and> fl < 2 ^ 32 \<and> md_wf d"

lemma from_bits_truncate_idem [simp]:
  "from_bits_truncate fs (from_bits_truncate fs n) = from_bits_truncate fs n"
  by (simp add: from_bits_truncate_def and.assoc)

lemma name_text_end: "name_text bs = [] \<or> last (name_text bs) \<noteq> 0"
proof (cases "dropWhile (\<lambda>b. b = 0) (rev (utf8_lossy bs))")
  case Nil
  then show ?thesis by (simp add: name_text_def)
next
  case (Cons b xs)
  then have "b \<noteq> 0" using hd_dropWhile [of "\<lambda>b. b = 0" "rev (utf8_lossy bs)"] by auto
  with Cons show ?thesis by (simp add: name_text_def)
qed

lemma le_nat_take: "le_nat (take k bs) < 256 ^ k"
proof -
  have "(256 :: nat) ^ length (take k bs) \<le> 256 ^ k" by (rule power_increasing) simp_all
  with le_nat_bound [of "take k bs"] show ?thesis by (rule less_le_trans)
qed

lemma rd_lift_Ok: "rd_lift r f p = Ok (a, q) \<longleftrightarrow> r = Ok a \<and> q = p"
  by (auto simp: rd_lift_def split: sum.splits)

lemma read_elements_0 [simp]: "read_elements depth 0 f p = Ok ([], p)"
  by (simp add: read_elements.simps)

lemma read_elements_Suc:
  "read_elements depth (Suc n) f p = Ok (r, q) \<longleftrightarrow>
     p + 132 \<le> length f \<and>
     (\<exists>d q' es. read_meta_type_definition_at_depth (depth + 1) f (p + 132) = Ok (d, q')
        \<and> read_elements depth n f q' = Ok (es, q)
        \<and> r = MetaElement (name_text (take 128 (drop p f))) (le_nat (take 4 (drop (p + 128) f))) d # es)"
  by (subst read_elements.simps) (auto simp: rd_Ok add.commute)

lemma composite_Ok:
  "(if ty = MtObject \<or> ty = MtArray \<or> ty = MtVector
    then if ty = MtObject \<and> MAX_META_TYPE_ELEMENTS < cnt then rd_fail e
         else rd_bind (\<lambda>f p. read_elements depth (if ty = MtObject then cnt else 1) f p)
                (\<lambda>es. rd_ret (MetaDef i ty g cnt es))
    else rd_ret (MetaDef i ty g cnt [])) f p = Ok (d, q) \<longleftrightarrow>
   (ty = MtObject \<longrightarrow> cnt \<le> MAX_META_TYPE_ELEMENTS)
   \<and> (\<exists>es. read_elements depth (elements_of ty cnt) f p = Ok (es, q) \<and> d = MetaDef i ty g cnt es)"
  by (cases ty) (auto simp: elements_of_def rd_bind_Ok not_less)

text \<open>Every definition reads its elements the same way, the scalar ones none.\<close>

lemma read_definition_Ok:
  "read_meta_type_definition_at_depth depth f p = Ok (d, q) \<longleftrightarrow>
     depth \<le> 32 \<and> p + 17 \<le> length f \<and>
     (\<exists>ty. meta_type_try_from (le_nat (take 1 (drop (p + 8) f))) = Ok ty \<and>
        (let cnt = le_nat (take 4 (drop (p + 13) f)) in
        (ty = MtObject \<longrightarrow> cnt \<le> MAX_META_TYPE_ELEMENTS)
        \<and> (\<exists>es. read_elements depth (elements_of ty cnt) f (p + 17) = Ok (es, q)
        \<and> d = MetaDef (le_nat (take 8 (drop p f))) ty
              (from_bits_truncate meta_type_flags (le_nat (take 4 (drop (p + 9) f)))) cnt es)))"
  (is "?l \<longleftrightarrow> ?r")
proof (cases "depth \<le> 32")
  case False
  then show ?thesis by (simp add: read_meta_type_definition_at_depth.simps MAX_META_TYPE_DEPTH_def)
next
  case True
  then have nd: "\<not> MAX_META_TYPE_DEPTH < depth" by (simp add: MAX_META_TYPE_DEPTH_def)
  have "?l \<longleftrightarrow> p + 8 \<le> length f \<and> p + 8 + 1 \<le> length f \<and> p + 8 + 1 + 4 \<le> length f
     \<and> p + 8 + 1 + 4 + 4 \<le> length f \<and>
     (\<exists>ty. meta_type_try_from (le_nat (take 1 (drop (p + 8) f))) = Ok ty \<and>
        (let cnt = le_nat (take 4 (drop (p + 8 + 1 + 4) f)) in
        (ty = MtObject \<longrightarrow> cnt \<le> MAX_META_TYPE_ELEMENTS)
        \<and> (\<exists>es. read_elements depth (elements_of ty cnt) f (p + 8 + 1 + 4 + 4) = Ok (es, q)
        \<and> d = MetaDef (le_nat (take 8 (drop p f))) ty
              (from_bits_truncate meta_type_flags (le_nat (take 4 (drop (p + 8 + 1) f)))) cnt es)))"
    unfolding read_meta_type_definition_at_depth.simps [of depth f p] if_not_P [OF nd]
    by (simp only: rd_bind_Ok rd_uint_Ok rd_lift_Ok composite_Ok Let_def zero_less_numeral
          zero_less_one conj_assoc ex_simps simp_thms)
       (intro iffI; elim exE conjE; intro exI conjI; assumption)
  then show ?thesis using True by (cases "p + 17 \<le> length f") (simp_all add: add.commute)
qed

definition accepts :: "nat \<Rightarrow> bytes \<Rightarrow> bool" where
  "accepts depth f \<longleftrightarrow> (\<forall>p d q. read_meta_type_definition_at_depth depth f p = Ok (d, q) \<longrightarrow>
     md_wf d \<and> md_height d + depth \<le> 33 \<and> q = p + md_bytes d \<and> q \<le> length f)"

lemma elements_accepted:
  assumes "accepts (depth + 1) f"
  shows "read_elements depth n f p = Ok (es, q) \<Longrightarrow> p \<le> length f \<Longrightarrow>
     list_all me_wf es \<and> length es = n \<and> list_all (\<lambda>e. me_height e + depth \<le> 32) es
     \<and> q = p + sum_list (map me_bytes es) \<and> q \<le> length f"
proof (induction n arbitrary: p es)
  case 0
  then show ?case by simp
next
  case (Suc n)
  from Suc.prems(1) obtain d q' es' where
    d: "read_meta_type_definition_at_depth (depth + 1) f (p + 132) = Ok (d, q')"
    and es': "read_elements depth n f q' = Ok (es', q)"
    and es: "es = MetaElement (name_text (take 128 (drop p f))) (le_nat (take 4 (drop (p + 128) f))) d # es'"
    unfolding read_elements_Suc by auto
  from d assms have g: "md_wf d" "md_height d + (depth + 1) \<le> 33" "q' = p + 132 + md_bytes d" "q' \<le> length f"
    unfolding accepts_def by blast+
  from Suc.IH [OF es' g(4)] g name_text_end le_nat_take [of 4] show ?case
    by (simp add: es)
qed

lemma definition_accepted: "accepts depth f"
proof (induction "33 - depth" arbitrary: depth)
  case 0
  then show ?case by (auto simp: accepts_def read_definition_Ok)
next
  case (Suc k)
  have sub: "accepts (depth + 1) f" using Suc.hyps by (intro Suc.hyps(1)) simp
  show ?case
    unfolding accepts_def
  proof (intro allI impI)
    fix p d q
    assume "read_meta_type_definition_at_depth depth f p = Ok (d, q)"
    then obtain ty es cnt where d: "depth \<le> 32" "p + 17 \<le> length f"
      and cnt: "cnt < 2 ^ 32" "ty = MtObject \<Longrightarrow> cnt \<le> MAX_META_TYPE_ELEMENTS"
      and es: "read_elements depth (elements_of ty cnt) f (p + 17) = Ok (es, q)"
      and de: "d = MetaDef (le_nat (take 8 (drop p f))) ty
              (from_bits_truncate meta_type_flags (le_nat (take 4 (drop (p + 9) f)))) cnt es"
      unfolding read_definition_Ok Let_def using le_nat_take [of 4] by fastforce
    have es': "list_all me_wf es" "length es = elements_of ty cnt"
      "list_all (\<lambda>e. me_height e + depth \<le> 32) es"
      "q = p + 17 + sum_list (map me_bytes es)" "q \<le> length f"
      using elements_accepted [OF sub es d(2)] by simp_all
    have "foldr max (map me_height es) 0 + depth \<le> 32"
      using es'(3) d(1) by (induction es) auto
    with de cnt es' le_nat_take [of 8]
    show "md_wf d \<and> md_height d + depth \<le> 33 \<and> q = p + md_bytes d \<and> q \<le> length f"
      by simp
  qed
qed

section \<open>Reading back a definition\<close>

fun meta_type_code :: "meta_type \<Rightarrow> nat" where
  "meta_type_code MtNone = 0" | "meta_type_code MtBool = 1" | "meta_type_code MtInteger = 2"
| "meta_type_code MtFloat = 3" | "meta_type_code MtString = 4" | "meta_type_code MtVector = 5"
| "meta_type_code MtArray = 6" | "meta_type_code MtObject = 7"

lemma meta_type_code_bound [simp]: "meta_type_code ty < 256"
  by (cases ty) simp_all

lemma meta_type_try_from_code [simp]: "meta_type_try_from (meta_type_code ty) = Ok ty"
  by (cases ty) (simp_all add: meta_type_try_from_def meta_types_def)

primrec md_enc :: "meta_definition \<Rightarrow> bytes" and me_enc :: "meta_element \<Rightarrow> bytes" where
  "md_enc (MetaDef i ty fl cnt es) =
     le_bytes 8 i @ le_bytes 1 (meta_type_code ty) @ le_bytes 4 fl @ le_bytes 4 cnt
     @ concat (map me_enc es)"
| "me_enc (MetaElement nm fl d) = (nm @ replicate (128 - length nm) 0) @ le_bytes 4 fl @ md_enc d"

text \<open>Names that fill their field with ASCII and zeros behind.\<close>

primrec md_named :: "meta_definition \<Rightarrow> bool" and me_named :: "meta_element \<Rightarrow> bool" where
  "md_named (MetaDef i ty fl cnt es) \<longleftrightarrow> list_all me_named es"
| "me_named (MetaElement nm fl d) \<longleftrightarrow>
     length nm \<le> 128 \<and> list_all (\<lambda>b. 0 < b \<and> b < 0x80) nm \<and> md_named d"

text \<open>What reading an element back means.\<close>

fun reads_back :: "nat \<Rightarrow> bytes \<Rightarrow> meta_element \<Rightarrow> bool" where
  "reads_back depth f (MetaElement nm fl d) \<longleftrightarrow>
     (\<forall>p. lies f p (md_enc d) \<longrightarrow>
        read_meta_type_definition_at_depth (depth + 1) f p = Ok (d, p + length (md_enc d)))"

lemma lies_take: "lies f p xs \<Longrightarrow> k = length xs \<Longrightarrow> take k (drop p f) = xs"
  by (simp add: lies_def)

lemma lies_length: "lies f p xs \<Longrightarrow> p + length xs \<le> length f"
  by (simp add: lies_def)

lemma elements_read_back:
  assumes "list_all (reads_back depth f) es" and "list_all me_wf es" and "list_all me_named es"
    and "lies f p (concat (map me_enc es))"
  shows "read_elements depth (length es) f p = Ok (es, p + length (concat (map me_enc es)))"
  using assms
proof (induction es arbitrary: p)
  case Nil
  then show ?case by simp
next
  case (Cons e es)
  obtain nm fl d where e: "e = MetaElement nm fl d" by (cases e)
  let ?nm = "nm @ replicate (128 - length nm) 0"
  have nm: "length ?nm = 128" "name_text ?nm = nm" and fl: "fl < 2 ^ 32"
    using Cons.prems by (simp_all add: e name_text_padded)
  have l: "lies f p ?nm" "lies f (p + 128) (le_bytes 4 fl)" "lies f (p + 132) (md_enc d)"
    "lies f (p + 132 + length (md_enc d)) (concat (map me_enc es))"
    using Cons.prems(4) nm(1) by (simp_all add: e add_ac)
  have "take 128 (drop p f) = ?nm" "take 4 (drop (p + 128) f) = le_bytes 4 fl"
    using l(1,2) nm(1) by (simp_all only: lies_take length_le_bytes)
  then have "name_text (take 128 (drop p f)) = nm" "le_nat (take 4 (drop (p + 128) f)) = fl"
    using nm(2) fl by (simp_all add: le_nat_le_bytes)
  moreover have "read_meta_type_definition_at_depth (depth + 1) f (p + 132)
      = Ok (d, p + 132 + length (md_enc d))"
    using Cons.prems(1) l(3) by (simp add: e)
  moreover have "read_elements depth (length es) f (p + 132 + length (md_enc d))
      = Ok (es, p + 132 + length (md_enc d) + length (concat (map me_enc es)))"
    using Cons.prems l(4) by (intro Cons.IH) simp_all
  moreover have "p + 132 \<le> length f" using lies_length [OF l(3)] by simp
  moreover have "length (concat (map me_enc (e # es)))
      = 132 + length (md_enc d) + length (concat (map me_enc es))"
    using nm(1) by (simp add: e)
  ultimately show ?case
    unfolding list.size(4) add_Suc_right add_0_right read_elements_Suc by (simp add: e add_ac)
qed

lemma definition_read_back:
  "md_wf d \<Longrightarrow> md_named d \<Longrightarrow> md_height d + depth \<le> 33 \<Longrightarrow> lies f p (md_enc d) \<Longrightarrow>
     read_meta_type_definition_at_depth depth f p = Ok (d, p + length (md_enc d))"
  "me_wf e \<Longrightarrow> me_named e \<Longrightarrow> me_height e + depth \<le> 32 \<Longrightarrow> reads_back depth f e"
proof (induction d and e arbitrary: depth p and depth)
  case (MetaDef i ty fl cnt es)
  have i: "i < 2 ^ 64" and cnt: "cnt < 2 ^ 32" "ty = MtObject \<longrightarrow> cnt \<le> MAX_META_TYPE_ELEMENTS"
    and fl: "from_bits_truncate meta_type_flags fl = fl" and es: "length es = elements_of ty cnt"
    using MetaDef.prems by simp_all
  have flb: "fl < 2 ^ 32"
  proof -
    have "fl = fl AND 63" using fl by (simp add: from_bits_truncate_def)
    then have "fl \<le> 63" by (metis and_nat_def nat_int of_nat_numeral AND_upper2 nat_mono zero_le_numeral of_nat_0_le_iff nat_numeral)
    then show ?thesis by simp
  qed
  have l: "lies f p (le_bytes 8 i)" "lies f (p + 8) (le_bytes 1 (meta_type_code ty))"
    "lies f (p + 9) (le_bytes 4 fl)" "lies f (p + 13) (le_bytes 4 cnt)"
    "lies f (p + 17) (concat (map me_enc es))"
    using MetaDef.prems(4) by (simp_all add: add_ac del: le_bytes.simps)
  have "list_all (reads_back depth f) es"
    unfolding list_all_iff
  proof
    fix e
    assume e: "e \<in> set es"
    have "me_height e \<le> foldr max (map me_height es) 0" using e by (induction es) auto
    with MetaDef e show "reads_back depth f e" by (intro MetaDef.IH) (auto simp: list_all_iff)
  qed
  then have "read_elements depth (length es) f (p + 17)
      = Ok (es, p + 17 + length (concat (map me_enc es)))"
    using MetaDef.prems l(5) by (intro elements_read_back) simp_all
  moreover have "le_nat (take 8 (drop p f)) = i" "le_nat (take 1 (drop (p + 8) f)) = meta_type_code ty"
    "le_nat (take 4 (drop (p + 9) f)) = fl" "le_nat (take 4 (drop (p + 13) f)) = cnt"
    using l i cnt flb by (simp_all add: lies_take le_nat_le_bytes del: le_bytes.simps One_nat_def)
  moreover have "p + 17 \<le> length f" using lies_length [OF l(5)] by simp
  ultimately show ?case
    using MetaDef.prems(3) cnt es fl unfolding read_definition_Ok Let_def by simp
next
  case (MetaElement nm fl d)
  then show ?case by simp
qed

section \<open>The chunk\<close>

lemma read_definition_accepted:
  "read_meta_type_definition f p = Ok (d, q) \<Longrightarrow>
     md_wf d \<and> md_height d \<le> 33 \<and> q = p + md_bytes d \<and> q \<le> length f"
  using definition_accepted [of 0 f] by (auto simp: read_meta_type_definition_def accepts_def)

lemma mdtt_read_Ok:
  assumes "mdtt_read_from sz f p = Ok (c, q)"
  shows "sz - 32 \<le> MAX_MDTT_PAYLOAD"
    and "case mdtt_definition c of None \<Rightarrow> True
         | Some d \<Rightarrow> \<exists>r. read_meta_type_definition (take (sz - 32) (drop (16 + p) f)) 0 = Ok (d, r)"
  using assms
  by (auto simp: mdtt_read_from_def rd_Ok rd_lift_Ok Let_def split: if_splits)

text \<open>
  C13: Whatever an untrusted MDTT chunk holds, a definition the reader returns is well typed: its
  flags are known flags, each object has as many elements as it declares and at most 4096,
  arrays and vectors have one, the other types none, names carry no trailing zeros, it nests at
  most 33 levels and takes no more bytes than the payload, which is below the 16 MiB cap.
\<close>

theorem mdtt_definition_well_typed:
  assumes "mdtt_read_from sz f p = Ok (c, q)" and "mdtt_definition c = Some d"
  shows "md_wf d \<and> md_height d \<le> 33 \<and> md_bytes d \<le> sz - 32 \<and> sz - 32 \<le> 16777216"
  using mdtt_read_Ok [OF assms(1)] assms(2)
  by (auto dest!: read_definition_accepted simp: MAX_MDTT_PAYLOAD_def)

definition mdtt_bytes :: "nat \<Rightarrow> int \<Rightarrow> bytes \<Rightarrow> bytes" where
  "mdtt_bytes i off payload = le_bytes 8 i @ enc_i64 off @ payload"

lemma mdtt_roundtrip:
  assumes "lies f p (mdtt_bytes i off (md_enc d @ rest))" and "i < 2 ^ 64" and "i64 off"
    and "md_wf d" and "md_named d" and "md_height d \<le> 33"
    and "sz - 32 = length (md_enc d @ rest)" and "length (md_enc d @ rest) \<le> MAX_MDTT_PAYLOAD"
  shows "mdtt_read_from sz f p = Ok
     (\<lparr>mdtt_header = made_header ''MDTT'' sz 0 16, mdtt_metadata_id = i,
       mdtt_metadata_offset = off, mdtt_definition = Some d\<rparr>, p + (sz - 16))"
proof -
  have d: "read_meta_type_definition_at_depth 0 (md_enc d @ rest) 0 = Ok (d, length (md_enc d))"
    using definition_read_back(1) [of d 0 "md_enc d @ rest" 0] assms lies_here by simp
  have l: "lies f p (le_bytes 8 i)" "lies f (p + 8) (enc_i64 off)" "lies f (p + 16) (md_enc d @ rest)"
    using assms(1) unfolding mdtt_bytes_def by (simp_all add: add_ac)
  have len: "0 < length (md_enc d @ rest)" by (cases d) simp
  with assms(7) have sz: "sz = 32 + length (md_enc d @ rest)" by linarith
  have r1: "rd_u64 f p = Ok (i, p + 8)" using l(1) assms(2) by (intro rd_uint_lies) simp_all
  have r2: "rd_i64 f (p + 8) = Ok (off, p + 16)" using rd_i64_lies [OF l(2) assms(3)] by simp
  have r3: "rd_exact (length (md_enc d @ rest)) f (p + 16)
      = Ok (md_enc d @ rest, p + 16 + length (md_enc d @ rest))"
    using rd_exact_lies [OF l(3)] by simp
  show ?thesis
    using r1 r2 r3 d len assms(8) unfolding sz mdtt_read_from_def Let_def rd_bind_def rd_lift_def
      read_meta_type_definition_def
    by (simp add: not_less add_ac)
qed

definition sample_definition :: meta_definition where
  "sample_definition = MetaDef 1 MtVector 1 3 [MetaElement [0x78] 0 (MetaDef 2 MtBool 0 0 [])]"

lemma sample_definition_ok:
  "md_wf sample_definition" "md_named sample_definition" "md_height sample_definition \<le> 33"
  "length (md_enc sample_definition) = 166"
  by (simp_all add: sample_definition_def elements_of_def from_bits_truncate_def)

theorem mdtt_definition_well_typed_witness:
  "md_wf sample_definition \<and> md_height sample_definition \<le> 33"
proof -
  have "\<exists>c q. mdtt_read_from 198 (mdtt_bytes 7 0 (md_enc sample_definition)) 0 = Ok (c, q)
      \<and> mdtt_definition c = Some sample_definition"
    using mdtt_roundtrip [of "mdtt_bytes 7 0 (md_enc sample_definition)" 0 7 0 sample_definition "[]" 198]
    by (simp add: lies_def i64_def sample_definition_ok MAX_MDTT_PAYLOAD_def)
  with mdtt_definition_well_typed show ?thesis by blast
qed

text \<open>C23: Every definition within the caps is read back, at whatever depth it starts.\<close>

theorem definition_roundtrip:
  assumes "md_wf d" and "md_named d" and "md_height d \<le> 33" and "lies f p (md_enc d)"
  shows "read_meta_type_definition f p = Ok (d, p + length (md_enc d))"
  using definition_read_back(1) [of d 0 f p] assms by (simp add: read_meta_type_definition_def)

theorem definition_roundtrip_witness:
  "read_meta_type_definition (md_enc sample_definition) 0 = Ok (sample_definition, 166)"
  using definition_roundtrip [of sample_definition "md_enc sample_definition" 0]
  by (simp add: sample_definition_ok lies_def)

end
