(* ===== verification/File_Scan.thy ===== *)
theory File_Scan
  imports Chunk_Layout Meta_Type
begin

text \<open>
  Finding chunks in a capture (\<open>src/src/file_source.rs\<close>): the searches for a chunk
  identifier, the resynchronisation behind damaged bytes, the walk that indexes the SAMP
  chunks of a region. The loops read in blocks that overlap by three bytes; each is shown to
  find what a search of the whole region finds. Every loop is a total function: its
  termination proof is the argument that it moves forward.
\<close>

section \<open>Windows\<close>

text \<open>\<open>slice::windows(k)\<close>.\<close>

definition windows :: "nat \<Rightarrow> 'a list \<Rightarrow> 'a list list" where
  "windows k xs = map (\<lambda>i. take k (drop i xs)) [0..<Suc (length xs) - k]"

definition rposition :: "('a \<Rightarrow> bool) \<Rightarrow> 'a list \<Rightarrow> nat option" where
  "rposition p xs = map_option (\<lambda>i. length xs - 1 - i) (position p (rev xs))"

lemma length_windows [simp]: "length (windows k xs) = Suc (length xs) - k"
  by (simp add: windows_def)

lemma windows_nth: "i < Suc (length xs) - k \<Longrightarrow> windows k xs ! i = take k (drop i xs)"
  by (simp add: windows_def)

lemma windows_take:
  assumes "0 < k" and "m \<le> length xs"
  shows "windows k (take m xs) = take (Suc m - k) (windows k xs)"
proof (rule nth_equalityI)
  show "length (windows k (take m xs)) = length (take (Suc m - k) (windows k xs))"
    using assms by simp
next
  fix i
  assume "i < length (windows k (take m xs))"
  with assms have i: "i < Suc m - k" by simp
  then have "take k (drop i (take m xs)) = take k (drop i xs)"
    by (simp add: drop_take min_def)
  with i assms show "windows k (take m xs) ! i = take (Suc m - k) (windows k xs) ! i"
    by (simp add: windows_nth)
qed

lemma windows_drop: "j \<le> length xs \<Longrightarrow> windows k (drop j xs) = drop j (windows k xs)"
  by (rule nth_equalityI) (simp_all add: windows_nth add.commute)

lemma position_take_drop:
  "position p xs = (case position p (take n xs) of Some i \<Rightarrow> Some i
     | None \<Rightarrow> map_option (\<lambda>i. min n (length xs) + i) (position p (drop n xs)))"
proof -
  have "length (take n xs) = min n (length xs)" by (simp add: min.commute)
  with position_append [of p "take n xs" "drop n xs"] show ?thesis by (simp only: append_take_drop_id)
qed

text \<open>
  One step of a blocked search: the first \<open>m\<close> bytes hold \<open>m - 3\<close> four-byte windows, and
  the search goes on three bytes before their end.
\<close>

lemma position_block:
  assumes "4 \<le> m" and "m \<le> length xs"
  shows "position p (windows 4 xs) =
    (case position p (windows 4 (take m xs)) of Some i \<Rightarrow> Some i
     | None \<Rightarrow> map_option (\<lambda>i. (m - 3) + i) (position p (windows 4 (drop (m - 3) xs))))"
proof -
  have "Suc m - 4 = m - 3" using assms by simp
  then have t: "windows 4 (take m xs) = take (m - 3) (windows 4 xs)"
    using windows_take [of 4 m xs] assms by simp
  have d: "windows 4 (drop (m - 3) xs) = drop (m - 3) (windows 4 xs)"
    using assms by (intro windows_drop) simp
  have "min (m - 3) (length (windows 4 xs)) = m - 3" using assms by simp
  then show ?thesis unfolding t d using position_take_drop [of p "windows 4 xs" "m - 3"]
    by (simp only:)
qed

lemma take_own_length: "b = take n xs \<Longrightarrow> take (length b) xs = b"
  by (cases "n \<le> length xs") (simp_all add: min_def)

lemma windows_short: "length xs < k \<Longrightarrow> windows k xs = []"
  by (simp add: windows_def)

section \<open>Resynchronisation\<close>

definition is_valid_rtsa_chunk_id :: "bytes \<Rightarrow> bool" where
  "is_valid_rtsa_chunk_id i =
     List.member (map tag [''DSFH'', ''STRM'', ''SAMP'', ''SSTR'', ''SSCA'', ''ANTA'', ''MDTT'',
       ''SPRV'', ''STRT'', ''DSFT'', ''ANTS'']) i"

text \<open>
  \<open>read_up_to\<close> repeats \<open>read\<close> until the buffer is full or the file ends, so it returns
  what one read of everything left would.
\<close>

definition read_up_to :: "nat \<Rightarrow> bytes rd" where "read_up_to n = rd_some n"

definition RESYNC_BLOCK :: nat where "RESYNC_BLOCK = 65536"

definition resync_block :: "nat \<Rightarrow> bytes \<Rightarrow> nat \<Rightarrow> bytes" where
  "resync_block end_pos f pos = take (min RESYNC_BLOCK (end_pos - pos)) (drop pos f)"

lemma forward_lt: "pos < e \<Longrightarrow> \<not> g < 4 \<Longrightarrow> e - (pos + (g - 3)) < e - (pos :: nat)"
  by linarith

function resync_loop :: "nat \<Rightarrow> unit rd" where
  "resync_loop end_pos f pos =
     (if pos < end_pos
      then case position is_valid_rtsa_chunk_id (windows 4 (resync_block end_pos f pos)) of
          Some i \<Rightarrow> rd_seek (pos + i) f pos
        | None \<Rightarrow>
            let got = length (resync_block end_pos f pos) in
            if got < 4 then rd_seek end_pos f pos
            else if pos + (got - 3) \<le> I64_MAX then resync_loop end_pos f (pos + (got - 3))
            else Err (Io ''Invalid argument'')
      else rd_seek end_pos f pos)"
  by pat_completeness auto
termination
  by (relation "measure (\<lambda>(e, f, pos). e - pos)")
     (simp_all only: wf_measure in_measure split_conv forward_lt not_False_eq_True)

declare resync_loop.simps [simp del]

definition resync_to_chunk_id :: "nat \<Rightarrow> nat \<Rightarrow> unit rd" where
  "resync_to_chunk_id start end_pos = rd_bind (rd_seek start) (\<lambda>_. resync_loop end_pos)"

lemma length_resync_block:
  "length (resync_block e f pos) = min (length f - pos) (min RESYNC_BLOCK (e - pos))"
  by (simp add: resync_block_def)

text \<open>The blocks find the identifier a search of the whole range finds.\<close>

lemma resync_loop_spec:
  assumes "pos \<le> end_pos" and "end_pos \<le> I64_MAX"
  shows "resync_loop end_pos f pos =
    Ok ((), case position is_valid_rtsa_chunk_id (windows 4 (slice pos end_pos f)) of
              Some i \<Rightarrow> pos + i | None \<Rightarrow> end_pos)"
  using assms
proof (induction end_pos f pos rule: resync_loop.induct)
  case (1 e f pos)
  let ?P = "position is_valid_rtsa_chunk_id"
  let ?xs = "slice pos e f" and ?b = "resync_block e f pos"
  have b: "?b = take (length ?b) ?xs"
    by (rule take_own_length [symmetric]) (simp add: resync_block_def slice_def)
  show ?case
  proof (cases "pos < e")
    case False
    then have "?xs = []" using "1.prems" by (simp add: slice_def)
    with False "1.prems" show ?thesis
      by (subst resync_loop.simps) (simp add: rd_seek_def windows_short)
  next
    case True
    show ?thesis
    proof (cases "length ?b < 4")
      case True
      have "length ?xs < 4"
        using True by (auto simp: length_resync_block RESYNC_BLOCK_def min_def split: if_splits)
      then have "?P (windows 4 ?xs) = None" by (simp add: windows_short)
      moreover have "?P (windows 4 ?b) = None" using True by (simp add: windows_short)
      ultimately show ?thesis
        using True \<open>pos < e\<close> "1.prems"
        by (subst resync_loop.simps) (simp add: rd_seek_def Let_def del: position_None)
    next
      case False
      have le: "length ?b \<le> length ?xs" using b by (metis length_take min.cobounded1)
      have blk: "?P (windows 4 ?xs) = (case ?P (windows 4 ?b) of Some i \<Rightarrow> Some i
          | None \<Rightarrow> map_option (\<lambda>i. length ?b - 3 + i) (?P (windows 4 (drop (length ?b - 3) ?xs))))"
        using position_block [of "length ?b" ?xs is_valid_rtsa_chunk_id] False le b by simp
      show ?thesis
      proof (cases "?P (windows 4 ?b)")
        case (Some i)
        then have "i < length ?b" using position_bound [OF Some] False by simp
        then have "pos + i \<le> e" by (auto simp: length_resync_block)
        with Some blk \<open>pos < e\<close> "1.prems" show ?thesis
          by (subst resync_loop.simps) (simp add: rd_seek_def Let_def del: position_None)
      next
        case None
        let ?n = "pos + (length ?b - 3)"
        have n: "?n \<le> e" using \<open>pos < e\<close> by (simp add: length_resync_block)
        have sl: "drop (length ?b - 3) ?xs = slice ?n e f"
          by (simp add: slice_def drop_take add.commute)
        have "resync_loop e f ?n = Ok ((), case ?P (windows 4 (slice ?n e f)) of
            Some i \<Rightarrow> ?n + i | None \<Rightarrow> e)"
          using n "1.prems" None False \<open>pos < e\<close> by (intro "1.IH") simp_all
        moreover have "resync_loop e f pos = resync_loop e f ?n"
          using None False \<open>pos < e\<close> n "1.prems"
          by (subst resync_loop.simps) (simp add: Let_def del: position_None)
        ultimately show ?thesis using blk None unfolding sl
          by (cases "?P (windows 4 (slice ?n e f))") (simp_all add: add.assoc del: position_None)
      qed
    qed
  qed
qed

lemma resync_spec:
  assumes "start \<le> end_pos" and "end_pos \<le> I64_MAX"
  shows "resync_to_chunk_id start end_pos f p =
    Ok ((), case position is_valid_rtsa_chunk_id (windows 4 (slice start end_pos f)) of
              Some i \<Rightarrow> start + i | None \<Rightarrow> end_pos)"
  using assms
  by (simp add: resync_to_chunk_id_def rd_bind_def rd_seek_def resync_loop_spec del: position_None)

lemma resync_forward:
  assumes "resync_to_chunk_id start end_pos f p = Ok (u, q)" and "start \<le> end_pos"
  shows "start \<le> q"
proof -
  have "resync_loop e g pos = Ok (u, q) \<Longrightarrow> pos \<le> e \<Longrightarrow> pos \<le> q" for e g pos
  proof (induction e g pos rule: resync_loop.induct)
    case (1 e g pos)
    note eq = resync_loop.simps [of e g pos]
    consider "\<not> pos < e" | i where "pos < e" "position is_valid_rtsa_chunk_id (windows 4 (resync_block e g pos)) = Some i"
      | "pos < e" "position is_valid_rtsa_chunk_id (windows 4 (resync_block e g pos)) = None"
      by (cases "position is_valid_rtsa_chunk_id (windows 4 (resync_block e g pos))") auto
    then show ?case
    proof cases
      case 3
      let ?n = "pos + (length (resync_block e g pos) - 3)"
      have n: "?n \<le> e" using 3(1) by (simp add: length_resync_block)
      show ?thesis
      proof (cases "\<not> length (resync_block e g pos) < 4 \<and> ?n \<le> I64_MAX")
        case True
        then have "resync_loop e g pos = resync_loop e g ?n"
          unfolding eq 3(2) Let_def option.case if_P [OF 3(1)] by (simp only: if_False if_True simp_thms)
        then have "resync_loop e g ?n = Ok (u, q)" using "1.prems"(1) by simp
        then have "?n \<le> q" using "1.IH" [OF 3 refl] True n by blast
        then show ?thesis by simp
      next
        case False
        with 3 "1.prems" show ?thesis
          by (auto simp: eq Let_def rd_seek_def simp del: position_None split: if_splits)
      qed
    qed (use "1.prems" eq in \<open>auto simp: rd_seek_def simp del: position_None split: if_splits\<close>)
  qed
  with assms show ?thesis by (auto simp: resync_to_chunk_id_def rd_Ok rd_seek_def split: if_splits)
qed

section \<open>The index of the SAMP chunks\<close>

text \<open>
  The loop of \<open>scan_for_samp_chunks\<close>: the position is the reader's, the second argument the
  index so far. A header that cannot be read, or is not a chunk's, starts a resynchronisation one
  byte on; a chunk is stepped over by its size.
\<close>

function scan_loop :: "nat \<Rightarrow> (nat \<times> samp_chunk) list \<Rightarrow> (nat \<times> samp_chunk) list rd" where
  "scan_loop end_pos acc f pos =
     (if pos < end_pos
      then case header_read_from f pos of
          Inl e \<Rightarrow> (case resync_to_chunk_id (pos + 1) end_pos f pos of
                    Inl e \<Rightarrow> Err e
                  | Inr (u, q) \<Rightarrow> scan_loop end_pos acc f q)
        | Inr (h, p) \<Rightarrow>
            if hdr_size h < 16 \<or> \<not> is_valid_rtsa_chunk_id (hdr_id h)
            then (case resync_to_chunk_id (pos + 1) end_pos f p of
                    Inl e \<Rightarrow> Err e
                  | Inr (u, q) \<Rightarrow> scan_loop end_pos acc f q)
            else if hdr_id h = tag ''SAMP''
            then (case samp_read_from (hdr_size h) (hdr_header_size h) f p of
                    Inl e \<Rightarrow> Err e
                  | Inr (c, p') \<Rightarrow>
                      if pos + hdr_size h \<le> I64_MAX
                      then scan_loop end_pos (acc @ [(pos, c)]) f (pos + hdr_size h)
                      else Err (Io ''Invalid argument''))
            else if pos + hdr_size h \<le> I64_MAX then scan_loop end_pos acc f (pos + hdr_size h)
            else Err (Io ''Invalid argument'')
      else Ok (acc, pos))"
  by pat_completeness auto
termination
  by (relation "measure (\<lambda>(e, acc, f, pos). e - pos)")
     (simp_all, (fastforce dest!: resync_forward)+)

declare scan_loop.simps [simp del]

definition scan_for_samp_chunks ::
  "nat \<Rightarrow> nat \<Rightarrow> (nat \<times> samp_chunk) list \<Rightarrow> (nat \<times> samp_chunk) list rd" where
  "scan_for_samp_chunks start_pos end_pos acc f p =
     rd_bind (rd_seek start_pos) (\<lambda>_. scan_loop (min end_pos (length f)) acc) f p"

subsection \<open>What is indexed is there\<close>

text \<open>\<open>samp_at f off c\<close>: a SAMP chunk that reads as \<open>c\<close> starts at \<open>off\<close>.\<close>

definition samp_at :: "bytes \<Rightarrow> nat \<Rightarrow> samp_chunk \<Rightarrow> bool" where
  "samp_at f off c \<longleftrightarrow>
     (case header_read_from f off of
        Inl e \<Rightarrow> False
      | Inr (h, p) \<Rightarrow> hdr_id h = tag ''SAMP'' \<and> 16 \<le> hdr_size h
          \<and> map_sum id fst (samp_read_from (hdr_size h) (hdr_header_size h) f p) = Ok c)"

lemma samp_read_header:
  "samp_read_from sz hs f p = Ok (c, q) \<Longrightarrow> hdr_size (samp_header c) = sz \<and> hdr_header_size (samp_header c) = hs"
  by (auto simp: samp_read_from_def rd_bind_Ok Let_def made_header_def)

text \<open>Indexed chunks follow one another without overlap, each inside the scanned range.\<close>

definition index_ok :: "bytes \<Rightarrow> nat \<Rightarrow> nat \<Rightarrow> (nat \<times> samp_chunk) list \<Rightarrow> bool" where
  "index_ok f lo hi ix \<longleftrightarrow>
     list_all (\<lambda>(off, c). lo \<le> off \<and> off < hi \<and> samp_at f off c) ix
     \<and> sorted_wrt (\<lambda>(off, c) (off', c'). off + hdr_size (samp_header c) \<le> off') ix"

lemma index_ok_mono: "index_ok f lo hi ix \<Longrightarrow> lo' \<le> lo \<Longrightarrow> index_ok f lo' hi ix"
  by (fastforce simp: index_ok_def list_all_iff)

lemma index_ok_Cons:
  "index_ok f lo hi ((off, c) # ix) \<longleftrightarrow>
     lo \<le> off \<and> off < hi \<and> samp_at f off c
     \<and> list_all (\<lambda>(off', c'). off + hdr_size (samp_header c) \<le> off') ix \<and> index_ok f lo hi ix"
  by (auto simp: index_ok_def list_all_iff)

lemma scan_loop_sound:
  "scan_loop end_pos acc f pos = Ok (ix, q) \<Longrightarrow>
     \<exists>new. ix = acc @ new \<and> index_ok f pos end_pos new"
proof (induction end_pos acc f pos arbitrary: ix q rule: scan_loop.induct)
  case (1 e acc f pos)
  note eq = scan_loop.simps [of e acc f pos]
  show ?case
  proof (cases "pos < e")
    case False
    with "1.prems" show ?thesis by (simp add: eq index_ok_def)
  next
    case pos: True
    have resync: "\<exists>new. ix = acc @ new \<and> index_ok f pos e new"
      if "resync_to_chunk_id (pos + 1) e f p = Inr (u, q')"
        and "\<exists>new. ix = acc @ new \<and> index_ok f q' e new" for p u q'
    proof -
      have "pos \<le> q'" using resync_forward [OF that(1)] pos by simp
      with that(2) index_ok_mono show ?thesis by blast
    qed
    show ?thesis
    proof (cases "header_read_from f pos")
      case (Inl er)
      with "1.prems" pos obtain u q' where
        r: "resync_to_chunk_id (pos + 1) e f pos = Inr (u, q')" "scan_loop e acc f q' = Ok (ix, q)"
        by (auto simp: eq split: sum.splits)
      with "1.IH"(1) [OF pos Inl r(1) refl r(2)] resync show ?thesis by blast
    next
      case (Inr hp)
      obtain h p where hp: "hp = (h, p)" by (cases hp)
      note H = Inr [unfolded hp]
      consider (bad) "hdr_size h < 16 \<or> \<not> is_valid_rtsa_chunk_id (hdr_id h)"
        | (samp) "\<not> (hdr_size h < 16 \<or> \<not> is_valid_rtsa_chunk_id (hdr_id h))" "hdr_id h = tag ''SAMP''"
        | (other) "\<not> (hdr_size h < 16 \<or> \<not> is_valid_rtsa_chunk_id (hdr_id h))" "hdr_id h \<noteq> tag ''SAMP''"
        by blast
      then show ?thesis
      proof cases
        case bad
        with "1.prems" pos H obtain u q' where
          r: "resync_to_chunk_id (pos + 1) e f p = Inr (u, q')" "scan_loop e acc f q' = Ok (ix, q)"
          by (auto simp: eq split: sum.splits)
        with "1.IH"(2) [OF pos H refl bad r(1) refl r(2)] resync show ?thesis by blast
      next
        case samp
        with "1.prems" pos H obtain c p' where
          c: "samp_read_from (hdr_size h) (hdr_header_size h) f p = Inr (c, p')"
          and le: "pos + hdr_size h \<le> I64_MAX"
          and r: "scan_loop e (acc @ [(pos, c)]) f (pos + hdr_size h) = Ok (ix, q)"
          by (auto simp: eq split: sum.splits if_splits)
        from "1.IH"(3) [OF pos H refl samp c refl le r]
        obtain new where new: "ix = (acc @ [(pos, c)]) @ new" "index_ok f (pos + hdr_size h) e new" by blast
        have sz: "hdr_size (samp_header c) = hdr_size h" using samp_read_header [OF c] by simp
        have "samp_at f pos c" using H c samp by (simp add: samp_at_def)
        moreover have "list_all (\<lambda>(off', c'). pos + hdr_size (samp_header c) \<le> off') new"
          using new(2) by (auto simp: index_ok_def list_all_iff sz)
        ultimately have "index_ok f pos e ((pos, c) # new)"
          using pos index_ok_mono [OF new(2), of pos] by (simp add: index_ok_Cons)
        with new(1) show ?thesis by simp
      next
        case other
        with "1.prems" pos H have le: "pos + hdr_size h \<le> I64_MAX"
          and r: "scan_loop e acc f (pos + hdr_size h) = Ok (ix, q)"
          by (auto simp: eq split: if_splits)
        from "1.IH"(4) [OF pos H refl other le r] index_ok_mono [of f "pos + hdr_size h" e _ pos]
        show ?thesis by auto
      qed
    qed
  qed
qed

subsection \<open>What is there is indexed\<close>

text \<open>
  A region as a capture lays it out: SAMP chunks, other chunks, and stretches of damage that
  hold no chunk identifier, not even one that straddles into the chunk behind them.
\<close>

datatype region_item =
    Samples rtsa_chunk_header samp_chunk bytes
  | OtherChunk rtsa_chunk_header bytes
  | Damage bytes

primrec item_bytes :: "region_item \<Rightarrow> bytes" where
  "item_bytes (Samples h c rest) = enc_header h @ samp_bytes c @ rest"
| "item_bytes (OtherChunk h b) = enc_header h @ b"
| "item_bytes (Damage b) = b"

definition region_bytes :: "region_item list \<Rightarrow> bytes" where
  "region_bytes its = concat (map item_bytes its)"

primrec chunk_ok :: "region_item \<Rightarrow> bool" where
  "chunk_ok (Samples h c rest) \<longleftrightarrow> header_ok h \<and> hdr_id h = tag ''SAMP''
     \<and> hdr_size h = length (item_bytes (Samples h c rest)) \<and> samp_ok (hdr_size h) (hdr_header_size h) c"
| "chunk_ok (OtherChunk h b) \<longleftrightarrow> header_ok h \<and> is_valid_rtsa_chunk_id (hdr_id h)
     \<and> hdr_id h \<noteq> tag ''SAMP'' \<and> hdr_size h = length (item_bytes (OtherChunk h b))"
| "chunk_ok (Damage b) \<longleftrightarrow> False"

fun region_ok :: "region_item list \<Rightarrow> bool" where
  "region_ok [] \<longleftrightarrow> True"
| "region_ok (Damage b # its) \<longleftrightarrow>
     b \<noteq> [] \<and> (case its of [] \<Rightarrow> False | it # _ \<Rightarrow> chunk_ok it)
     \<and> list_all (\<lambda>w. \<not> is_valid_rtsa_chunk_id w) (windows 4 (b @ take 3 (region_bytes its)))
     \<and> region_ok its"
| "region_ok (it # its) \<longleftrightarrow> chunk_ok it \<and> region_ok its"

text \<open>The index a reader of such a region expects.\<close>

fun expected_index :: "nat \<Rightarrow> region_item list \<Rightarrow> (nat \<times> samp_chunk) list" where
  "expected_index p [] = []"
| "expected_index p (Samples h c rest # its) =
     (p, c) # expected_index (p + length (item_bytes (Samples h c rest))) its"
| "expected_index p (it # its) = expected_index (p + length (item_bytes it)) its"

lemma tag_simps [simp]: "is_valid_rtsa_chunk_id (tag ''SAMP'')" "length (tag ''SAMP'') = 4"
  by (simp_all add: is_valid_rtsa_chunk_id_def tag_def)

lemma scan_steps_over_samples:
  assumes ok: "chunk_ok (Samples h c rest)" and at: "lies f p (item_bytes (Samples h c rest))"
    and e: "p + hdr_size h \<le> e" "e \<le> I64_MAX"
  shows "scan_loop e acc f p = scan_loop e (acc @ [(p, c)]) f (p + hdr_size h)"
proof -
  have h: "header_ok h" "hdr_id h = tag ''SAMP''" "hdr_size h = 64 + length rest"
    "samp_ok (hdr_size h) (hdr_header_size h) c" using ok by auto
  have l: "lies f p (enc_header h)" "lies f (p + 16) (samp_bytes c)"
    using at h(1) by simp_all
  have H: "header_read_from f p = Ok (h, p + 16)" by (rule header_roundtrip) (fact l(1) h(1))+
  have S: "samp_read_from (hdr_size h) (hdr_header_size h) f (p + 16)
      = Ok (c, p + 16 + max 48 (hdr_size h - 16))"
    using l(2) h(3,4) e by (intro samp_roundtrip) simp_all
  show ?thesis
    using H S h(2,3) e by (subst scan_loop.simps) simp
qed

lemma scan_steps_over_other:
  assumes ok: "chunk_ok (OtherChunk h b)" and at: "lies f p (item_bytes (OtherChunk h b))"
    and e: "p + hdr_size h \<le> e" "e \<le> I64_MAX"
  shows "scan_loop e acc f p = scan_loop e acc f (p + hdr_size h)"
proof -
  have h: "header_ok h" "hdr_id h \<noteq> tag ''SAMP''" "is_valid_rtsa_chunk_id (hdr_id h)"
    "hdr_size h = 16 + length b" using ok by simp_all
  have H: "header_read_from f p = Ok (h, p + 16)"
    using at h(1) by (intro header_roundtrip) simp_all
  show ?thesis using H h(2,3,4) e by (subst scan_loop.simps) simp
qed

text \<open>Behind a position with no identifier the scan goes on at the next one there is.\<close>

lemma scan_resumes:
  assumes bad: "\<not> is_valid_rtsa_chunk_id (take 4 (drop p f))" and n: "p < n" "n + 4 \<le> e"
    and e: "e \<le> length f" "e \<le> I64_MAX"
    and valid: "is_valid_rtsa_chunk_id (take 4 (drop n f))"
    and none: "\<And>i. p \<le> i \<Longrightarrow> i < n \<Longrightarrow> \<not> is_valid_rtsa_chunk_id (take 4 (drop i f))"
  shows "scan_loop e acc f p = scan_loop e acc f n"
proof -
  let ?ws = "windows 4 (slice (p + 1) e f)"
  have win: "?ws ! i = take 4 (drop (p + 1 + i) f)" and len: "i < length ?ws" if "p + 1 + i + 4 \<le> e" for i
  proof -
    show i: "i < length ?ws" using that e by simp
    then have "?ws ! i = take 4 (drop i (slice (p + 1) e f))"
      unfolding length_windows by (rule windows_nth)
    also have "\<dots> = take 4 (drop (p + 1 + i) f)"
      using that by (simp add: slice_def drop_take min_def add.commute)
    finally show "?ws ! i = take 4 (drop (p + 1 + i) f)" .
  qed
  have idx: "p + 1 + (n - (p + 1)) = n" using n by simp
  have "position is_valid_rtsa_chunk_id ?ws = Some (n - (p + 1))"
    unfolding position_Some
  proof (intro conjI allI impI)
    show "n - (p + 1) < length ?ws" using n idx by (intro len) simp
    show "is_valid_rtsa_chunk_id (?ws ! (n - (p + 1)))"
      using n valid idx by (subst win) simp_all
  next
    fix j
    assume j: "j < n - (p + 1)"
    then have "?ws ! j = take 4 (drop (p + 1 + j) f)" using n by (intro win) simp
    then show "\<not> is_valid_rtsa_chunk_id (?ws ! j)" using none [of "p + 1 + j"] j by simp
  qed
  then have R: "resync_to_chunk_id (p + 1) e f p' = Ok ((), n)" for p'
    using n e by (simp add: resync_spec)
  have "is_valid_rtsa_chunk_id (hdr_id h) = False" if "header_read_from f p = Ok (h, q)" for h q
    using header_read_Ok(3) [OF that] bad by simp
  then show ?thesis
    using n R by (subst scan_loop.simps) (auto split: sum.splits)
qed

lemma region_bytes_simps [simp]:
  "region_bytes [] = []" "region_bytes (it # its) = item_bytes it @ region_bytes its"
  by (simp_all add: region_bytes_def)

lemma chunk_starts:
  assumes "chunk_ok it"
  shows "16 \<le> length (item_bytes it)" and "is_valid_rtsa_chunk_id (take 4 (item_bytes it))"
  using assms by (cases it; simp add: enc_header_def header_ok_def)+

lemma lies_take_prefix: "lies f p xs \<Longrightarrow> i + k \<le> length xs \<Longrightarrow> take k (drop (p + i) f) = take k (drop i xs)"
proof -
  assume l: "lies f p xs" and i: "i + k \<le> length xs"
  have "drop i (take (length xs) (drop p f)) = drop i xs" using l by (simp add: lies_def)
  then have "take (length xs - i) (drop (p + i) f) = drop i xs" by (simp add: drop_take add.commute)
  then have "take k (take (length xs - i) (drop (p + i) f)) = take k (drop i xs)" by simp
  moreover have "min k (length xs - i) = k" using i by linarith
  ultimately show ?thesis by simp
qed

lemma lies_prefix: "lies f p xs \<Longrightarrow> lies f p (take k xs)"
  using lies_append [of f p "take k xs" "drop k xs"] by simp

lemma region_scanned:
  assumes "region_ok its" and "lies f p (region_bytes its)"
    and "e = p + length (region_bytes its)" and "e \<le> I64_MAX"
  shows "scan_loop e acc f p = Ok (acc @ expected_index p its, e)"
  using assms
proof (induction its arbitrary: p acc rule: region_ok.induct [case_names none damaged samples other])
  case none
  then show ?case by (subst scan_loop.simps) simp
next
  case (damaged b its)
  let ?n = "p + length b" and ?r = "region_bytes its"
  obtain it rest where its: "its = it # rest" and it: "chunk_ok it"
    using damaged.prems(1) by (cases its) auto
  note cs = chunk_starts [OF it]
  have lb: "lies f p (b @ ?r)" and b: "b \<noteq> []" using damaged.prems by simp_all
  have l3: "3 \<le> length ?r" using cs(1) by (simp add: its)
  have none: "\<not> is_valid_rtsa_chunk_id (take 4 (drop i f))" if i: "p \<le> i" "i < ?n" for i
  proof -
    let ?t = "b @ take 3 ?r"
    have lt: "lies f p ?t" using lb lies_prefix [of f "p + length b" ?r 3] by simp
    have len: "i - p < length (windows 4 ?t)" using i l3 by simp
    then have "windows 4 ?t ! (i - p) = take 4 (drop (i - p) ?t)"
      unfolding length_windows by (rule windows_nth)
    also have "\<dots> = take 4 (drop (p + (i - p)) f)"
      using lies_take_prefix [OF lt, of "i - p" 4] i l3 by simp
    finally have "windows 4 ?t ! (i - p) = take 4 (drop i f)" using i by simp
    moreover have "\<not> is_valid_rtsa_chunk_id (windows 4 ?t ! (i - p))"
      using damaged.prems(1) nth_mem [OF len] by (simp add: list_all_iff)
    ultimately show ?thesis by simp
  qed
  have lr: "lies f ?n ?r" using lb by simp
  have "take 4 (drop (?n + 0) f) = take 4 (drop 0 ?r)"
    using lr l3 cs(1) by (intro lies_take_prefix) (simp_all add: its)
  then have valid: "is_valid_rtsa_chunk_id (take 4 (drop ?n f))" using cs by (simp add: its)
  have e: "?n + 16 \<le> e" "e \<le> length f"
    using damaged.prems(3) cs(1) lies_length [OF lb] by (simp_all add: its)
  have "scan_loop e acc f p = scan_loop e acc f ?n"
    using b e damaged.prems(4) valid none by (intro scan_resumes) simp_all
  also have "\<dots> = Ok (acc @ expected_index ?n its, e)"
    using damaged.prems lr by (intro damaged.IH) (simp_all add: add.assoc)
  finally show ?case by simp
next
  case (samples h c rest its)
  have ok: "chunk_ok (Samples h c rest)" using samples.prems(1) unfolding region_ok.simps by (rule conjunct1)
  have sz: "hdr_size h = length (item_bytes (Samples h c rest))" using ok by simp
  have l: "lies f p (item_bytes (Samples h c rest))" "lies f (p + hdr_size h) (region_bytes its)"
    using samples.prems(2) unfolding sz by (simp_all add: add.assoc)
  have e: "e = p + hdr_size h + length (region_bytes its)"
    using samples.prems(3) sz by simp
  have "scan_loop e acc f p = scan_loop e (acc @ [(p, c)]) f (p + hdr_size h)"
    using e samples.prems(4) by (intro scan_steps_over_samples [OF ok l(1)]) simp_all
  also have "\<dots> = Ok ((acc @ [(p, c)]) @ expected_index (p + hdr_size h) its, e)"
    using samples.prems l(2) e by (intro samples.IH) simp_all
  finally show ?case unfolding sz by simp
next
  case (other h b its)
  have ok: "chunk_ok (OtherChunk h b)" using other.prems(1) by simp
  have sz: "hdr_size h = length (item_bytes (OtherChunk h b))" using ok by simp
  have l: "lies f p (item_bytes (OtherChunk h b))" "lies f (p + hdr_size h) (region_bytes its)"
    using other.prems(2) unfolding sz by (simp_all add: add.assoc)
  have e: "e = p + hdr_size h + length (region_bytes its)"
    using other.prems(3) sz by simp
  have "scan_loop e acc f p = scan_loop e acc f (p + hdr_size h)"
    using e other.prems(4) by (intro scan_steps_over_other [OF ok l(1)]) simp_all
  also have "\<dots> = Ok (acc @ expected_index (p + hdr_size h) its, e)"
    using other.prems l(2) e by (intro other.IH) simp_all
  finally show ?case unfolding sz by simp
qed

text \<open>
  C11: The index of a region is complete and exact: every SAMP chunk at its offset, nothing else,
  whatever other chunks and whatever damage lie between them.
\<close>

theorem capture_region_indexed:
  assumes "region_ok its" and "length (pre @ region_bytes its @ post) \<le> I64_MAX"
  shows "scan_for_samp_chunks (length pre) (length pre + length (region_bytes its)) []
           (pre @ region_bytes its @ post) p
       = Ok (expected_index (length pre) its, length pre + length (region_bytes its))"
  using assms region_scanned [OF assms(1) lies_inner refl]
  by (simp add: scan_for_samp_chunks_def rd_bind_def rd_seek_def)

definition sample_samp :: samp_chunk where
  "sample_samp = \<lparr>samp_header = made_header ''SAMP'' 72 1 64, samp_stream_id = 5,
     samp_sub_stream_id = 1, samp_type = DsStF32, samp_unit = DssuGeneric, samp_payload = DsptIq,
     samp_compression = 0, packet_start_time = zero, packet_end_time = zero, packet_flags = 1,
     samp_size = 2, samp_depth = 1, num_samples = 1\<rparr>"

definition sample_region :: "region_item list" where
  "sample_region =
     [Samples \<lparr>hdr_id = tag ''SAMP'', hdr_size = 72, hdr_flags = 0, hdr_version = 1,
               hdr_header_size = 64\<rparr> sample_samp (replicate 8 0),
      Damage [0xFF, 0x53],
      Samples \<lparr>hdr_id = tag ''SAMP'', hdr_size = 72, hdr_flags = 0, hdr_version = 1,
               hdr_header_size = 64\<rparr> sample_samp (replicate 8 1)]"

lemma sample_samp_ok: "samp_ok 72 64 sample_samp"
  by (simp add: samp_ok_def sample_samp_def from_bits_truncate_def)

lemma sample_region_ok: "region_ok sample_region"
  by (simp add: sample_region_def header_ok_def tag_def MAX_RTSA_CHUNK_SIZE_def sample_samp_ok
      enc_header_def windows_def upt_rec is_valid_rtsa_chunk_id_def)

theorem capture_region_indexed_witness:
  "scan_for_samp_chunks 2 148 [] ([1, 2] @ region_bytes sample_region @ [7]) 0
     = Ok ([(2, sample_samp), (76, sample_samp)], 148)"
proof -
  have "length (region_bytes sample_region) = 146"
    by (simp add: sample_region_def enc_header_def tag_def)
  moreover have "expected_index 2 sample_region = [(2, sample_samp), (76, sample_samp)]"
    by (simp add: sample_region_def enc_header_def tag_def)
  moreover have "149 \<le> I64_MAX" by (simp add: I64_MAX_def)
  ultimately show ?thesis
    using capture_region_indexed [OF sample_region_ok, of "[1, 2]" "[7]" 0] by (simp add: numeral_2_eq_2)
qed

section \<open>Searches\<close>

definition SEARCH_CHUNK_SIZE :: nat where "SEARCH_CHUNK_SIZE = 10000000"

text \<open>
  The file size given is a bound on the search: it may exceed the file.
\<close>

function broad_search_for_chunk :: "nat \<Rightarrow> bytes \<Rightarrow> bytes \<Rightarrow> nat \<Rightarrow> nat result" where
  "broad_search_for_chunk file_size signature f pos =
     (if pos < file_size
      then let buffer = take SEARCH_CHUNK_SIZE (drop pos f); bytes_read = length buffer in
        if bytes_read = 0 then Err (FileFormat 0 ''Could not find '')
        else case position (\<lambda>w. w = signature) (windows 4 buffer) of
            Some i \<Rightarrow> Ok (pos + i)
          | None \<Rightarrow>
              if bytes_read < 4 then Err (FileFormat 0 ''Could not find '')
              else broad_search_for_chunk file_size signature f (pos + (bytes_read - 3))
      else Err (FileFormat 0 ''Could not find ''))"
  by pat_completeness auto
termination
  by (relation "measure (\<lambda>(fs, sg, f, pos). fs - pos)")
     (simp_all only: wf_measure in_measure split_conv forward_lt not_False_eq_True)

declare broad_search_for_chunk.simps [simp del]

lemma broad_search_from:
  assumes "length f \<le> file_size" and "pos \<le> length f"
  shows "broad_search_for_chunk file_size sig f pos =
    (case position (\<lambda>w. w = sig) (windows 4 (drop pos f)) of
       Some i \<Rightarrow> Ok (pos + i) | None \<Rightarrow> Err (FileFormat 0 ''Could not find ''))"
  using assms
proof (induction file_size sig f pos rule: broad_search_for_chunk.induct)
  case (1 fs sig f pos)
  let ?P = "position (\<lambda>w. w = sig)"
  let ?xs = "drop pos f"
  define b where "b = take SEARCH_CHUNK_SIZE ?xs"
  have own: "take (length b) ?xs = b" unfolding b_def by (rule take_own_length [OF refl])
  have lb: "length b \<le> length ?xs" by (simp add: b_def)
  show ?case
  proof (cases "pos < fs \<and> b \<noteq> []")
    case False
    then have "?xs = []" using "1.prems" by (auto simp: b_def SEARCH_CHUNK_SIZE_def)
    then show ?thesis
      using False by (subst broad_search_for_chunk.simps)
        (simp add: windows_short b_def Let_def del: position_None)
  next
    case True
    show ?thesis
    proof (cases "length b < 4")
      case True
      then have "length ?xs < 4"
        by (auto simp: b_def SEARCH_CHUNK_SIZE_def min_def split: if_splits)
      then have "?P (windows 4 ?xs) = None" "?P (windows 4 b) = None"
        using True by (simp_all add: windows_short)
      then show ?thesis
        using True \<open>pos < fs \<and> b \<noteq> []\<close>
        by (subst broad_search_for_chunk.simps) (simp add: Let_def del: position_None flip: b_def)
    next
      case False
      have blk: "?P (windows 4 ?xs) = (case ?P (windows 4 b) of Some i \<Rightarrow> Some i
          | None \<Rightarrow> map_option (\<lambda>i. length b - 3 + i) (?P (windows 4 (drop (length b - 3) ?xs))))"
        using position_block [of "length b" ?xs] False lb own by simp
      show ?thesis
      proof (cases "?P (windows 4 b)")
        case (Some i)
        with blk True show ?thesis
          by (subst broad_search_for_chunk.simps) (simp add: Let_def del: position_None flip: b_def)
      next
        case None
        let ?n = "pos + (length b - 3)"
        have dr: "drop (length b - 3) ?xs = drop ?n f" by (simp add: add.commute)
        have "broad_search_for_chunk fs sig f ?n =
           (case ?P (windows 4 (drop ?n f)) of Some i \<Rightarrow> Ok (?n + i) | None \<Rightarrow> Err (FileFormat 0 ''Could not find ''))"
          using True None False lb "1.prems"
          by (intro "1.IH" [OF _ b_def refl]) (simp_all del: position_None)
        moreover have "broad_search_for_chunk fs sig f pos = broad_search_for_chunk fs sig f ?n"
          using True None False
          by (subst broad_search_for_chunk.simps) (simp add: Let_def del: position_None flip: b_def)
        ultimately show ?thesis using blk None unfolding dr
          by (cases "?P (windows 4 (drop ?n f))") (simp_all add: add.assoc del: position_None)
      qed
    qed
  qed
qed



text \<open>\<open>find_dsfh_chunk\<close>: the head and the midpoint of the size it is given, then everything.\<close>

definition search_window :: "nat \<Rightarrow> nat \<Rightarrow> bytes \<Rightarrow> bytes \<Rightarrow> nat option" where
  "search_window search_start search_end signature f =
     (let n = search_end - search_start; bs = take n (drop search_start f);
          buffer = bs @ replicate (n - length bs) 0
      in if bs \<noteq> [] then position (\<lambda>w. w = signature) (windows 4 buffer) else None)"

definition find_dsfh_chunk :: "nat \<Rightarrow> bytes \<Rightarrow> nat result" where
  "find_dsfh_chunk file_size f =
     (let look = (\<lambda>pos. if pos \<ge> file_size then None
            else map_option (\<lambda>i. (pos - 1024) + i)
              (search_window (pos - 1024) (min (pos + 1000000) file_size) (tag ''DSFH'') f))
      in case look 0 of Some off \<Rightarrow> Ok off
         | None \<Rightarrow> (case look (file_size div 2) of Some off \<Rightarrow> Ok off
            | None \<Rightarrow> broad_search_for_chunk file_size (tag ''DSFH'') f 0))"

definition find_dsft_tail :: "nat \<Rightarrow> bytes \<Rightarrow> dsft_chunk result" where
  "find_dsft_tail file_size f =
     (let search_window = min 1024 file_size; start = length f - search_window;
          buffer = take search_window (drop start f)
      in if length f < search_window then Err (Io ''Invalid argument'')
         else case rposition (\<lambda>w. w = tag ''DSFT'') (windows 4 buffer) of
            Some i \<Rightarrow>
              bind_result (header_read_from f (file_size - search_window + i)) (\<lambda>(h, p).
              if hdr_id h = tag ''DSFT'' then map_sum id fst (dsft_read_from (hdr_size h) f p)
              else Err (FileFormat 0 ''Could not find DSFT chunk in RTSA file''))
          | None \<Rightarrow> Err (FileFormat 0 ''Could not find DSFT chunk in RTSA file''))"

text \<open>One read of at most \<open>n\<close> bytes at \<open>start\<close>, as the searches around the stream area do.\<close>

definition read_at :: "nat \<Rightarrow> nat \<Rightarrow> bytes \<Rightarrow> bytes" where
  "read_at start n f = take n (drop start f)"

definition find_strt_near_stream :: "nat \<Rightarrow> bytes \<Rightarrow> strt_chunk result" where
  "find_strt_near_stream stream_area_offset f =
     (let search_start = stream_area_offset - 1024 in
      if I64_MAX < search_start then Err (Io ''Invalid argument'')
      else case position (\<lambda>w. w = tag ''STRT'') (windows 4 (read_at search_start 4096 f)) of
          Some i \<Rightarrow>
            bind_result (header_read_from f (search_start + i)) (\<lambda>(h, p).
            if hdr_id h = tag ''STRT'' then map_sum id fst (strt_read_from (hdr_size h) f p)
            else Err (FileFormat 0 ''Could not find STRT chunk near stream area''))
        | None \<Rightarrow> Err (FileFormat 0 ''Could not find STRT chunk near stream area''))"

definition find_dsfh_near_stream :: "nat \<Rightarrow> bytes \<Rightarrow> nat result" where
  "find_dsfh_near_stream stream_area_offset f =
     (let search_start = stream_area_offset - 1024; buffer = read_at search_start 4096 f;
          fallback = find_dsfh_chunk (sat_mul stream_area_offset 2) f
      in if I64_MAX < search_start then Err (Io ''Invalid argument'')
         else case position (\<lambda>w. w = tag ''DSFH'') (windows 4 buffer) of
            Some i \<Rightarrow>
              if i + 8 \<le> length buffer \<and> le_nat (take 4 (drop (i + 4) buffer)) < 1000
              then Ok (search_start + i) else fallback
          | None \<Rightarrow> fallback)"

end
