(* ===== verification/File_Parse.thy ===== *)
theory File_Parse
  imports File_Scan "HOL-Library.AList"
begin

text \<open>
  Parsing a capture (\<open>src/src/file_source.rs\<close>): the chains of SSTR, ANTA, MDTT and SPRV
  chunks, each a list chain_linked by file offsets that a damaged file may cut short or close into a
  cycle; the two ways a stream's structure is found; and the parse of the whole file. A
  \<open>HashMap\<close> is an association list with distinct keys in insertion order.
\<close>

section \<open>Chains\<close>

text \<open>
  The loop the four chain parsers share: the chunk's reader, its identifier, where the next
  chunk lies (0 for nowhere) and what a chunk does to the collection. Any failure ends the
  chain and keeps what was collected.
\<close>

lemma chain_measure:
  assumes "header_read_from f off = Inr b" and "0 < off \<and> off \<notin> set visited \<and> off \<le> I64_MAX"
  shows "card ({..length f} - set (off # visited)) < card ({..length f} - set visited)"
proof (rule psubset_card_mono)
  have "off + 16 \<le> length f" using assms(1) header_read_Ok(2) [of f off "fst b" "snd b"] by simp
  then have "off \<in> {..length f} - set visited" using assms(2) by simp
  then show "{..length f} - set (off # visited) \<subset> {..length f} - set visited"
    unfolding list.set(2) by blast
qed simp

function follow_chain ::
  "(nat \<Rightarrow> 'c rd) \<Rightarrow> bytes \<Rightarrow> ('c \<Rightarrow> nat) \<Rightarrow> ('c \<Rightarrow> 's \<Rightarrow> 's) \<Rightarrow> bytes \<Rightarrow> nat list \<Rightarrow> nat \<Rightarrow> 's \<Rightarrow> 's" where
  "follow_chain rd tg nxt ins f visited off st =
     (if 0 < off \<and> off \<notin> set visited \<and> off \<le> I64_MAX
      then case header_read_from f off of
          Inl e \<Rightarrow> st
        | Inr (h, p) \<Rightarrow>
            if hdr_id h \<noteq> tg then st
            else (case rd (hdr_size h) f p of
                Inl e \<Rightarrow> st
              | Inr (c, q) \<Rightarrow> follow_chain rd tg nxt ins f (off # visited) (nxt c) (ins c st))
      else st)"
  by pat_completeness auto
termination
  by (relation "measure (\<lambda>(rd, tg, nxt, ins, f, visited, off, st). card ({..length f} - set visited))")
     (simp_all only: wf_measure in_measure split_conv chain_measure de_Morgan_conj simp_thms)

declare follow_chain.simps [simp del]

definition next_offset :: "int \<Rightarrow> nat" where
  "next_offset off = (if off > 0 then nat off else 0)"

definition parse_sstr_chain :: "bytes \<Rightarrow> nat \<Rightarrow> (nat \<times> sstr_chunk) list \<Rightarrow> (nat \<times> sstr_chunk) list" where
  "parse_sstr_chain f off =
     follow_chain sstr_read_from (tag ''SSTR'') (\<lambda>c. next_offset (sstr_sub_stream_offset c))
       (\<lambda>c. AList.update (sstr_sub_stream_id c) c) f [] off"

definition parse_anta_chain :: "bytes \<Rightarrow> nat \<Rightarrow> (nat \<times> anta_chunk) list \<Rightarrow> (nat \<times> anta_chunk) list" where
  "parse_anta_chain f off =
     follow_chain anta_read_from (tag ''ANTA'') (\<lambda>c. next_offset (anta_antenna_offset c))
       (\<lambda>c. AList.update (anta_antenna_id c) c) f [] off"

definition parse_mdtt_chain :: "bytes \<Rightarrow> nat \<Rightarrow> (nat \<times> mdtt_chunk) list \<Rightarrow> (nat \<times> mdtt_chunk) list" where
  "parse_mdtt_chain f off =
     follow_chain mdtt_read_from (tag ''MDTT'') (\<lambda>c. next_offset (mdtt_metadata_offset c))
       (\<lambda>c. AList.update (mdtt_metadata_id c) c) f [] off"

definition parse_sprv_tree :: "bytes \<Rightarrow> nat \<Rightarrow> sprv_chunk list \<Rightarrow> sprv_chunk list" where
  "parse_sprv_tree f off =
     follow_chain sprv_read_from (tag ''SPRV'')
       (\<lambda>c. case find (\<lambda>x. x > 0) (sprv_offsets c) of Some x \<Rightarrow> nat x | None \<Rightarrow> 0)
       (\<lambda>c cs. cs @ [c]) f [] off"

subsection \<open>What a chain collects\<close>

text \<open>
  \<open>chain_linked rd tg nxt f off cs stop\<close>: from \<open>off\<close> the chunks \<open>cs\<close>, each with its
  offset, follow one another; the last one points to \<open>stop\<close>.
\<close>

fun chain_linked :: "(nat \<Rightarrow> 'c rd) \<Rightarrow> bytes \<Rightarrow> ('c \<Rightarrow> nat) \<Rightarrow> bytes \<Rightarrow> nat \<Rightarrow> (nat \<times> 'c) list \<Rightarrow> nat \<Rightarrow> bool" where
  "chain_linked rd tg nxt f off [] stop \<longleftrightarrow> stop = off"
| "chain_linked rd tg nxt f off ((o', c) # cs) stop \<longleftrightarrow>
     o' = off \<and> 0 < off \<and> off \<le> I64_MAX
     \<and> (case header_read_from f off of
          Inl e \<Rightarrow> False
        | Inr (h, p) \<Rightarrow> hdr_id h = tg \<and> map_sum id fst (rd (hdr_size h) f p) = Ok c)
     \<and> chain_linked rd tg nxt f (nxt c) cs stop"

text \<open>Where a chain ends: nowhere, at a chunk already seen, or where none can be read.\<close>

definition chain_stops :: "(nat \<Rightarrow> 'c rd) \<Rightarrow> bytes \<Rightarrow> bytes \<Rightarrow> nat list \<Rightarrow> nat \<Rightarrow> bool" where
  "chain_stops rd tg f seen off \<longleftrightarrow>
     off = 0 \<or> off \<in> set seen \<or> I64_MAX < off
     \<or> (case header_read_from f off of
          Inl e \<Rightarrow> True
        | Inr (h, p) \<Rightarrow> hdr_id h \<noteq> tg \<or> \<not> is_ok (rd (hdr_size h) f p))"

lemma follow_chain_stops:
  "chain_stops rd tg f seen off \<Longrightarrow> follow_chain rd tg nxt ins f seen off st = st"
  by (subst follow_chain.simps) (auto simp: chain_stops_def split: sum.splits)

lemma map_sum_fst: "map_sum id fst r = Inr c \<longleftrightarrow> (\<exists>q. r = Inr (c, q))"
  by (cases r) auto

lemma follow_chain_collects:
  assumes "chain_linked rd tg nxt f off cs stop" and "distinct (map fst cs)"
    and "set (map fst cs) \<inter> set seen = {}"
    and "chain_stops rd tg f (rev (map fst cs) @ seen) stop"
  shows "follow_chain rd tg nxt ins f seen off st = fold ins (map snd cs) st"
  using assms
proof (induction cs arbitrary: off seen st)
  case Nil
  then show ?case by (simp add: follow_chain_stops)
next
  case (Cons oc cs)
  obtain c where oc: "oc = (off, c)" using Cons.prems(1) by (cases oc) auto
  from Cons.prems(1) obtain h p q where
    off: "0 < off" "off \<le> I64_MAX" and H: "header_read_from f off = Inr (h, p)" "hdr_id h = tg"
    and C: "rd (hdr_size h) f p = Inr (c, q)" and l: "chain_linked rd tg nxt f (nxt c) cs stop"
    by (auto simp: oc map_sum_fst split: sum.splits)
  have "off \<notin> set seen" using Cons.prems(3) by (simp add: oc)
  with off H C have "follow_chain rd tg nxt ins f seen off st
      = follow_chain rd tg nxt ins f (off # seen) (nxt c) (ins c st)"
    by (subst follow_chain.simps) simp
  also have "\<dots> = fold ins (map snd cs) (ins c st)"
    using Cons.prems l by (intro Cons.IH) (auto simp: oc)
  finally show ?case by (simp add: oc)
qed

section \<open>The parse of a file\<close>

record rtsa_parse_state =
  dsfh :: "dsfh_chunk option"
  strm_chunks :: "(nat \<times> strm_chunk) list"
  sstr_chunks :: "(nat \<times> sstr_chunk) list"
  strt :: "strt_chunk option"
  anta_chunks :: "(nat \<times> anta_chunk) list"
  mdtt_chunks :: "(nat \<times> mdtt_chunk) list"
  sprv_chunks :: "sprv_chunk list"
  samp_offsets :: "(nat \<times> samp_chunk) list"
  iq_stream :: "nat option"

definition parse_state_default :: rtsa_parse_state where
  "parse_state_default = \<lparr>dsfh = None, strm_chunks = [], sstr_chunks = [], strt = None,
     anta_chunks = [], mdtt_chunks = [], sprv_chunks = [], samp_offsets = [], iq_stream = None\<rparr>"

definition add_strm :: "strm_chunk \<Rightarrow> rtsa_parse_state \<Rightarrow> rtsa_parse_state" where
  "add_strm c s = s\<lparr>iq_stream := Some (strm_stream_id c),
     strm_chunks := AList.update (strm_stream_id c) c (strm_chunks s)\<rparr>"

text \<open>A STRM chunk at \<open>off\<close>, when that is what lies there.\<close>

definition read_strm_at :: "nat \<Rightarrow> bytes \<Rightarrow> rtsa_parse_state \<Rightarrow> rtsa_parse_state result" where
  "read_strm_at off f s =
     bind_result (header_read_from f off) (\<lambda>(h, p).
     if hdr_id h = tag ''STRM''
     then bind_result (strm_read_from (hdr_size h) f p) (\<lambda>(c, q). Ok (add_strm c s))
     else Ok s)"

definition add_samples :: "nat \<Rightarrow> nat \<Rightarrow> bytes \<Rightarrow> rtsa_parse_state \<Rightarrow> rtsa_parse_state result" where
  "add_samples start_pos end_pos f s =
     bind_result (scan_for_samp_chunks start_pos end_pos (samp_offsets s) f 0) (\<lambda>(ix, q).
     Ok (s\<lparr>samp_offsets := ix\<rparr>))"

text \<open>The four chains a stream tail points to.\<close>

definition follow_strt_chains :: "strt_chunk \<Rightarrow> bytes \<Rightarrow> rtsa_parse_state \<Rightarrow> rtsa_parse_state" where
  "follow_strt_chains t f s =
     (let s = (if strt_sub_stream_offset t > 0
               then s\<lparr>sstr_chunks := parse_sstr_chain f (nat (strt_sub_stream_offset t)) (sstr_chunks s)\<rparr>
               else s);
          s = (if strt_antenna_offset t > 0
               then s\<lparr>anta_chunks := parse_anta_chain f (nat (strt_antenna_offset t)) (anta_chunks s)\<rparr>
               else s);
          s = (if strt_metadata_offset t > 0
               then s\<lparr>mdtt_chunks := parse_mdtt_chain f (nat (strt_metadata_offset t)) (mdtt_chunks s)\<rparr>
               else s);
          s = (if strt_preview_offset t > 0
               then s\<lparr>sprv_chunks := parse_sprv_tree f (nat (strt_preview_offset t)) (sprv_chunks s)\<rparr>
               else s)
      in s)"

definition process_strt_based_structure ::
  "strt_chunk \<Rightarrow> dsft_chunk \<Rightarrow> bytes \<Rightarrow> rtsa_parse_state \<Rightarrow> rtsa_parse_state result" where
  "process_strt_based_structure t d f s =
     (let s = follow_strt_chains t f s
      in if strt_stream_offset t < 0 then Err (Io ''Invalid argument'')
         else bind_result (read_strm_at (nat (strt_stream_offset t)) f s)
           (add_samples (nat (strt_stream_offset t)) (dsft_stream_offset d) f))"

definition process_strh_based_structure ::
  "nat \<Rightarrow> bytes \<Rightarrow> rtsa_parse_state \<Rightarrow> rtsa_parse_state result" where
  "process_strh_based_structure stream_area_offset f s =
     (let search_start = stream_area_offset - 4096; buffer = read_at search_start 8192 f in
      if I64_MAX < search_start then Err (Io ''Invalid argument'')
      else
        bind_result
          (case position (\<lambda>w. w = tag ''STRM'') (windows 4 buffer) of
             Some i \<Rightarrow>
               if i + 8 \<le> length buffer
                  \<and> 20 \<le> le_nat (take 4 (drop (i + 4) buffer)) \<and> le_nat (take 4 (drop (i + 4) buffer)) < 1000
               then read_strm_at (search_start + i) f s
               else Ok s
           | None \<Rightarrow> Ok s) (\<lambda>s.
        if strm_chunks s = []
        then Err (FileFormat 0 ''Could not find STRM chunks via proximity search'')
        else add_samples stream_area_offset (sat_add stream_area_offset 100000000) f s))"

text \<open>
  The whole parse. The result carries the stream offset only when no SAMP chunk was found.
\<close>

definition parse_rtsa_with_tail :: "bytes \<Rightarrow> rtsa_parse_state \<Rightarrow> (nat option \<times> rtsa_parse_state) result" where
  "parse_rtsa_with_tail f s =
     bind_result (find_dsft_tail (length f) f) (\<lambda>d.
     bind_result (find_dsfh_near_stream (dsft_stream_offset d) f) (\<lambda>off.
     bind_result (header_read_from f off) (\<lambda>(h, p).
     if hdr_id h \<noteq> tag ''DSFH'' then Err (FileFormat 0 ''Expected DSFH chunk at offset 0x'')
     else
       bind_result (dsfh_read_from (hdr_size h) f p) (\<lambda>(c, q).
       let s = s\<lparr>dsfh := Some c\<rparr> in
       if dsft_stream_offset d > 0
       then
         bind_result
           (case find_strt_near_stream (dsft_stream_offset d) f of
              Inr t \<Rightarrow> bind_result (process_strt_based_structure t d f s) (\<lambda>s. Ok (s\<lparr>strt := Some t\<rparr>))
            | Inl e \<Rightarrow> process_strh_based_structure (dsft_stream_offset d) f s) (\<lambda>s.
         Ok (if samp_offsets s = [] \<and> dsft_stream_offset d > 0 then Some (dsft_stream_offset d) else None, s))
       else Err (FileFormat 0 ''No streams found in RTSA file (DSFT stream_offset is 0)'')))))"

section \<open>What holds of a parsed file\<close>

lemma follow_chain_inv:
  assumes "\<And>sz p c q st. rd sz f p = Ok (c, q) \<Longrightarrow> good st \<Longrightarrow> good (ins c st)" and "good st"
  shows "good (follow_chain rd tg nxt ins f seen off st)"
  using assms
proof (induction rd tg nxt ins f seen off st rule: follow_chain.induct)
  case (1 rd tg nxt ins f seen off st)
  show ?case
  proof (cases "\<exists>h p c q. 0 < off \<and> off \<notin> set seen \<and> off \<le> I64_MAX
      \<and> header_read_from f off = Inr (h, p) \<and> hdr_id h = tg \<and> rd (hdr_size h) f p = Inr (c, q)")
    case True
    then obtain h p c q where off: "0 < off \<and> off \<notin> set seen \<and> off \<le> I64_MAX"
      and H: "header_read_from f off = Inr (h, p)" "hdr_id h = tg"
      and C: "rd (hdr_size h) f p = Inr (c, q)" by blast
    have "good (follow_chain rd tg nxt ins f (off # seen) (nxt c) (ins c st))"
      using H(2) "1.prems" C by (intro "1.IH" [OF off H(1) refl _ C refl]) blast+
    then show ?thesis using off H C by (subst follow_chain.simps) simp
  next
    case False
    then show ?thesis using "1.prems"(2) by (subst follow_chain.simps) (auto split: sum.splits)
  qed
qed

text \<open>
  A chain hands its collection to one operation, whatever the file holds: what that operation
  keeps, the chain keeps.
\<close>

locale chunk_chain =
  fixes rd :: "nat \<Rightarrow> 'c rd" and ins :: "'c \<Rightarrow> 's \<Rightarrow> 's" and good :: "'s \<Rightarrow> bool"
  assumes keeps: "rd sz f p = Ok (c, q) \<Longrightarrow> good st \<Longrightarrow> good (ins c st)"
begin

lemma chain_keeps: "good st \<Longrightarrow> good (follow_chain rd tg nxt ins f seen off st)"
  using keeps by (rule follow_chain_inv)

end

text \<open>A \<open>HashMap\<close> filled by key: no key twice, every chunk under its own.\<close>

definition keyed :: "('c \<Rightarrow> nat) \<Rightarrow> (nat \<times> 'c) list \<Rightarrow> bool" where
  "keyed key m \<longleftrightarrow> distinct (map fst m) \<and> list_all (\<lambda>(k, c). key c = k) m"

lemma list_all_update:
  "list_all (\<lambda>(k, c). P c) m \<Longrightarrow> P c \<Longrightarrow> list_all (\<lambda>(k, c). P c) (AList.update k c m)"
  by (induction m) auto

lemma keyed_update: "keyed key m \<Longrightarrow> keyed key (AList.update (key c) c m)"
proof -
  assume k: "keyed key m"
  have "list_all (\<lambda>(k, c). key c = k) (AList.update (key c) c m)"
    using k unfolding keyed_def by (induction m) auto
  with k show ?thesis by (simp add: keyed_def distinct_update)
qed

lemma keyed_lookup: "keyed key m \<Longrightarrow> map_of m k = Some c \<Longrightarrow> key c = k"
  by (auto simp: keyed_def list_all_iff dest!: map_of_SomeD)

definition preview_shape :: "sprv_chunk \<Rightarrow> bool" where
  "preview_shape c \<longleftrightarrow> length (sprv_offsets c) = 16 \<and> length (sprv_times c) = 16
     \<and> length (sprv_samples c) = 16 \<and> sprv_count c < 256"

lemma rd_array_length: "rd_array n m f p = Ok (xs, q) \<Longrightarrow> length xs = n"
  by (induction n arbitrary: xs p) (auto simp: rd_bind_Ok)

lemma sprv_read_shape: "sprv_read_from sz f p = Ok (c, q) \<Longrightarrow> preview_shape c"
  using le_nat_take [of 1]
  by (auto simp: sprv_read_from_def preview_shape_def rd_bind_Ok rd_uint_Ok
      simp del: rd_array.simps dest!: rd_array_length)

interpretation sstr: chunk_chain sstr_read_from
  "\<lambda>c. AList.update (sstr_sub_stream_id c) c" "keyed sstr_sub_stream_id"
  by unfold_locales (rule keyed_update)

interpretation anta: chunk_chain anta_read_from
  "\<lambda>c. AList.update (anta_antenna_id c) c" "keyed anta_antenna_id"
  by unfold_locales (rule keyed_update)

interpretation mdtt: chunk_chain mdtt_read_from
  "\<lambda>c. AList.update (mdtt_metadata_id c) c"
  "\<lambda>m. keyed mdtt_metadata_id m \<and>
     list_all (\<lambda>(k, c). case mdtt_definition c of None \<Rightarrow> True | Some d \<Rightarrow> md_wf d \<and> md_height d \<le> 33) m"
proof unfold_locales
  let ?ok = "\<lambda>c. case mdtt_definition c of None \<Rightarrow> True | Some d \<Rightarrow> md_wf d \<and> md_height d \<le> 33"
  fix sz f p c q and m :: "(nat \<times> mdtt_chunk) list"
  assume "mdtt_read_from sz f p = Ok (c, q)"
    and m: "keyed mdtt_metadata_id m \<and> list_all (\<lambda>(k, c). ?ok c) m"
  then have c: "?ok c"
    using mdtt_read_Ok(2) [of sz f p c q]
    by (auto split: option.splits dest!: read_definition_accepted)
  have "list_all (\<lambda>(k, c). ?ok c) (AList.update (mdtt_metadata_id c) c m)"
    using m c by (intro list_all_update) simp_all
  with m show "keyed mdtt_metadata_id (AList.update (mdtt_metadata_id c) c m)
      \<and> list_all (\<lambda>(k, c). ?ok c) (AList.update (mdtt_metadata_id c) c m)"
    by (simp add: keyed_update)
qed

interpretation sprv: chunk_chain sprv_read_from "\<lambda>c cs. cs @ [c]" "list_all preview_shape"
  by unfold_locales (simp add: sprv_read_shape)

definition definitions_ok :: "(nat \<times> mdtt_chunk) list \<Rightarrow> bool" where
  "definitions_ok m \<longleftrightarrow> keyed mdtt_metadata_id m \<and>
     list_all (\<lambda>(k, c). case mdtt_definition c of None \<Rightarrow> True | Some d \<Rightarrow> md_wf d \<and> md_height d \<le> 33) m"

text \<open>The collections, before the index: the chains' and the stream heads'.\<close>

definition collections_ok :: "rtsa_parse_state \<Rightarrow> bool" where
  "collections_ok s \<longleftrightarrow>
     keyed strm_stream_id (strm_chunks s) \<and> keyed sstr_sub_stream_id (sstr_chunks s)
     \<and> keyed anta_antenna_id (anta_chunks s) \<and> definitions_ok (mdtt_chunks s)
     \<and> list_all preview_shape (sprv_chunks s)
     \<and> (case iq_stream s of None \<Rightarrow> True | Some i \<Rightarrow> map_of (strm_chunks s) i \<noteq> None)"

definition parse_ok :: "bytes \<Rightarrow> rtsa_parse_state \<Rightarrow> bool" where
  "parse_ok f s \<longleftrightarrow> collections_ok s \<and> index_ok f 0 (length f) (samp_offsets s)"

lemma collections_default: "collections_ok parse_state_default"
  by (simp add: collections_ok_def parse_state_default_def keyed_def definitions_ok_def)

lemma if_keeps: "(b \<Longrightarrow> P x) \<Longrightarrow> P y \<Longrightarrow> P (if b then x else y)"
  by simp

lemma collections_chains:
  "collections_ok s \<Longrightarrow> collections_ok (s\<lparr>sstr_chunks := parse_sstr_chain f off (sstr_chunks s)\<rparr>)"
  "collections_ok s \<Longrightarrow> collections_ok (s\<lparr>anta_chunks := parse_anta_chain f off (anta_chunks s)\<rparr>)"
  "collections_ok s \<Longrightarrow> collections_ok (s\<lparr>mdtt_chunks := parse_mdtt_chain f off (mdtt_chunks s)\<rparr>)"
  "collections_ok s \<Longrightarrow> collections_ok (s\<lparr>sprv_chunks := parse_sprv_tree f off (sprv_chunks s)\<rparr>)"
  using sstr.chain_keeps anta.chain_keeps mdtt.chain_keeps sprv.chain_keeps
  by (auto simp: collections_ok_def definitions_ok_def parse_sstr_chain_def parse_anta_chain_def
      parse_mdtt_chain_def parse_sprv_tree_def split: option.splits)

lemma follow_strt_chains_ok:
  assumes "collections_ok s"
  shows "collections_ok (follow_strt_chains t f s)"
  unfolding follow_strt_chains_def Let_def
  by (intro if_keeps [where P = collections_ok] collections_chains assms)

lemma follow_strt_chains_offsets [simp]: "samp_offsets (follow_strt_chains t f s) = samp_offsets s"
  by (simp add: follow_strt_chains_def Let_def)

lemma collections_frame [simp]:
  "collections_ok (s\<lparr>dsfh := d\<rparr>) = collections_ok s" "collections_ok (s\<lparr>strt := t\<rparr>) = collections_ok s"
  "collections_ok (s\<lparr>samp_offsets := ix\<rparr>) = collections_ok s"
  by (simp_all add: collections_ok_def split: option.splits)

lemma add_strm_offsets [simp]: "samp_offsets (add_strm c s) = samp_offsets s"
  by (simp add: add_strm_def)

lemma collections_add_strm: "collections_ok s \<Longrightarrow> collections_ok (add_strm c s)"
  by (simp add: collections_ok_def add_strm_def keyed_update update_conv')

lemma read_strm_keeps:
  assumes "read_strm_at off f s = Ok s'" and "collections_ok s"
  shows "collections_ok s' \<and> samp_offsets s' = samp_offsets s"
  using assms
  by (auto simp: read_strm_at_def collections_add_strm split: if_splits)

lemma add_samples_ok:
  assumes "add_samples lo hi f s = Ok s'" and "collections_ok s" and "samp_offsets s = []"
  shows "parse_ok f s'"
proof -
  from assms(1,3) obtain ix q where "scan_for_samp_chunks lo hi [] f 0 = Ok (ix, q)"
    and s': "s' = s\<lparr>samp_offsets := ix\<rparr>"
    by (auto simp: add_samples_def)
  then have "scan_loop (min hi (length f)) [] f lo = Ok (ix, q)"
    by (auto simp: scan_for_samp_chunks_def rd_bind_Ok rd_seek_def split: if_splits)
  then have "index_ok f lo (min hi (length f)) ix" using scan_loop_sound by fastforce
  then have "index_ok f 0 (length f) ix" by (fastforce simp: index_ok_def list_all_iff)
  with assms(2) show ?thesis by (simp add: parse_ok_def s')
qed

lemma process_strt_ok:
  assumes "process_strt_based_structure t d f s = Ok s'" and "collections_ok s" and "samp_offsets s = []"
  shows "parse_ok f s'"
proof -
  from assms(1) obtain s1 lo hi off where "read_strm_at off f (follow_strt_chains t f s) = Ok s1"
    and "add_samples lo hi f s1 = Ok s'"
    by (auto simp: process_strt_based_structure_def Let_def split: if_splits)
  then show ?thesis
    using read_strm_keeps [of off f "follow_strt_chains t f s" s1] add_samples_ok [of lo hi f s1 s']
      follow_strt_chains_ok [OF assms(2)] assms(3) by simp
qed

lemma process_strh_ok:
  assumes "process_strh_based_structure off f s = Ok s'" and "collections_ok s" and "samp_offsets s = []"
  shows "parse_ok f s'"
proof -
  from assms(1) obtain s1 lo hi where s1: "s1 = s \<or> (\<exists>o1. read_strm_at o1 f s = Ok s1)"
    and "add_samples lo hi f s1 = Ok s'"
    by (auto simp: process_strh_based_structure_def Let_def simp del: position_None
        split: if_splits option.splits)
  then show ?thesis using assms(2,3) read_strm_keeps add_samples_ok by metis
qed

lemma parse_result_ok:
  assumes "parse_rtsa_with_tail f parse_state_default = Ok (so, s)"
  shows "parse_ok f s
       \<and> (case so of None \<Rightarrow> samp_offsets s \<noteq> [] | Some off \<Rightarrow> samp_offsets s = [] \<and> 0 < off)"
proof -
  let ?s0 = "\<lambda>c. parse_state_default\<lparr>dsfh := Some c\<rparr>"
  from assms obtain d c s1 where
    s1: "(case find_strt_near_stream (dsft_stream_offset d) f of
        Inr t \<Rightarrow> bind_result (process_strt_based_structure t d f (?s0 c)) (\<lambda>s. Ok (s\<lparr>strt := Some t\<rparr>))
      | Inl e \<Rightarrow> process_strh_based_structure (dsft_stream_offset d) f (?s0 c)) = Ok s1"
    and so: "0 < dsft_stream_offset d" "s = s1"
      "so = (if samp_offsets s1 = [] \<and> 0 < dsft_stream_offset d then Some (dsft_stream_offset d) else None)"
    by (auto simp: parse_rtsa_with_tail_def Let_def split: if_splits)
  have s0: "collections_ok (?s0 c)" "samp_offsets (?s0 c) = []"
    by (simp_all add: collections_default) (simp add: parse_state_default_def)
  have frame: "parse_ok f (s\<lparr>strt := t\<rparr>) = parse_ok f s" for s t by (simp add: parse_ok_def)
  have "parse_ok f s1"
    using s1 s0 process_strt_ok process_strh_ok by (auto simp: frame split: sum.splits)
  with so show ?thesis by simp
qed

text \<open>
  C12: Whatever bytes a file holds, a parse that succeeds leaves a consistent state: no key twice and
  every chunk under its own identifier, type definitions well formed, preview arrays of sixteen,
  the IQ stream's head present, and the SAMP index a strictly advancing sequence of chunks that
  really are in the file. The stream offset is handed on only for a file without SAMP chunks.
\<close>

theorem parsed_file_consistent:
  "case parse_rtsa_with_tail f parse_state_default of
     Inl e \<Rightarrow> True
   | Inr (so, s) \<Rightarrow> parse_ok f s
       \<and> (case so of None \<Rightarrow> samp_offsets s \<noteq> [] | Some off \<Rightarrow> samp_offsets s = [] \<and> 0 < off)"
  using parse_result_ok [of f] by (auto split: sum.splits)

text \<open>
  The sub-streams of a chain are collected in chain order, a later chunk replacing an earlier one
  of the same identifier, up to the point where the chain ends, runs into a chunk already
  seen, or cannot be read.
\<close>

theorem sstr_chain_collected:
  assumes "chain_linked sstr_read_from (tag ''SSTR'') (\<lambda>c. next_offset (sstr_sub_stream_offset c)) f off cs stop"
    and "distinct (map fst cs)"
    and "chain_stops sstr_read_from (tag ''SSTR'') f (rev (map fst cs)) stop"
  shows "parse_sstr_chain f off m
       = fold (\<lambda>(off, c). AList.update (sstr_sub_stream_id c) c) cs m"
  using follow_chain_collects [of sstr_read_from _ _ f off cs stop "[]"] assms
  by (simp add: parse_sstr_chain_def fold_map comp_def case_prod_unfold)

definition sample_sstr :: "nat \<Rightarrow> int \<Rightarrow> sstr_chunk" where
  "sample_sstr i off = \<lparr>sstr_header = made_header ''SSTR'' 240 0 224, sstr_stream_id = 5,
     sstr_sub_stream_id = i, sstr_sub_stream_offset = off, sstr_frequency_start = zero,
     sstr_frequency_step = zero, sstr_frequency_span = zero, sstr_value_minimum = zero,
     sstr_value_maximum = zero, sstr_direction = zero, sstr_antenna_index = 0,
     sstr_num_categories = 0, sstr_name = replicate 128 0, sstr_antenna_id = 0,
     sstr_metadata_id = 0\<rparr>"

definition sstr_file :: bytes where
  "sstr_file = [0] @ enc_header \<lparr>hdr_id = tag ''SSTR'', hdr_size = 240, hdr_flags = 0, hdr_version = 1,
     hdr_header_size = 240\<rparr> @ sstr_bytes [0, 0, 0, 0] (sample_sstr 3 1)"

text \<open>A chunk that points to itself is read once.\<close>

theorem sstr_chain_collected_witness:
  "parse_sstr_chain sstr_file 1 [] = [(3, sample_sstr 3 1)]"
proof -
  let ?h = "\<lparr>hdr_id = tag ''SSTR'', hdr_size = 240, hdr_flags = 0, hdr_version = 1, hdr_header_size = 240\<rparr>"
  let ?c = "sample_sstr 3 1"
  have h: "header_ok ?h" by (simp add: header_ok_def tag_def MAX_RTSA_CHUNK_SIZE_def)
  have "lies sstr_file (length [0 :: byte]) (enc_header ?h @ sstr_bytes [0, 0, 0, 0] ?c)"
    unfolding sstr_file_def using lies_inner [of "[0]" _ "[]"] by (simp only: append_Nil2)
  then have l: "lies sstr_file 1 (enc_header ?h)" "lies sstr_file 17 (sstr_bytes [0, 0, 0, 0] ?c)"
    using h by simp_all
  have H: "header_read_from sstr_file 1 = Ok (?h, 17)" using header_roundtrip [OF l(1) h] by simp
  have C: "sstr_read_from 240 sstr_file 17 = Ok (?c, 241)"
    using sstr_roundtrip [OF l(2), of 240]
    by (simp add: sstr_ok_def sample_sstr_def i64_def I64_MAX_def)
  have n: "sstr_sub_stream_offset ?c = 1" "sstr_sub_stream_id ?c = 3" by (simp_all add: sample_sstr_def)
  have L: "chain_linked sstr_read_from (tag ''SSTR'') (\<lambda>c. next_offset (sstr_sub_stream_offset c)) sstr_file 1 [(1, ?c)] 1"
    using H C n by (simp add: I64_MAX_def next_offset_def)
  have S: "chain_stops sstr_read_from (tag ''SSTR'') sstr_file (rev (map fst [(1, ?c)])) 1"
    by (simp add: chain_stops_def)
  from sstr_chain_collected [OF L _ S, of "[]"] n(2) show ?thesis by simp
qed

end
