(* ===== verification/File_Metadata.thy ===== *)
theory File_Metadata
  imports File_Parse Text
begin

text \<open>
  What a parsed capture reports about itself (\<open>src/src/file_source.rs\<close>): the metadata
  assembled from the chunks with its fall-backs, and the validation report. A \<open>HashMap\<close> is
  iterated in an order the language leaves open: the three orders used are arguments of the
  model, functions that permute the entries.
\<close>

section \<open>Epochs\<close>

definition rtsa_epoch_seconds :: "f64 \<Rightarrow> f64" where
  "rtsa_epoch_seconds raw =
     (if \<not> is_finite raw \<or> fle raw zero then raw
      else if fle (lit B64 10000000000000) raw then fdiv B64 raw (lit B64 1000000) else raw)"

text \<open>\<open>as u64\<close>.\<close>

definition to_u64 :: "f64 \<Rightarrow> nat" where
  "to_u64 x = nat (to_int 0 (int USIZE_MAX) x)"

definition seconds_to_ns :: "f64 \<Rightarrow> nat" where
  "seconds_to_ns t = to_u64 (fmul B64 t (lit B64 1000000000))"

section \<open>The reported structures\<close>

record antenna_info =
  ai_antenna_id :: nat
  ai_name :: bytes
  ai_latitude :: f64
  ai_longitude :: f64
  ai_flags :: nat
  ai_num_segments :: nat
  ai_transform :: "f32 list list"
  ai_uuid :: bytes

record preview_info =
  pi_level :: nat
  pi_count :: nat
  pi_offsets :: "int list"
  pi_times :: "f64 list"
  pi_samples :: "nat list"

record stream_tail_info =
  st_stream_offset :: int
  st_sub_stream_offset :: int
  st_preview_offset :: int
  st_num_samples :: nat
  st_payload_size :: nat
  st_preview_levels :: nat
  st_num_previews :: nat
  st_num_preview_segments :: nat
  st_end_time :: f64
  st_antenna_offset :: int
  st_metadata_offset :: int

record sub_stream_info =
  ss_stream_id :: nat
  ss_sub_stream_id :: nat
  ss_sub_stream_offset :: int
  ss_frequency_start :: f64
  ss_frequency_step :: f64
  ss_frequency_span :: f64
  ss_value_minimum :: f64
  ss_value_maximum :: f64
  ss_direction :: f64
  ss_antenna_index :: nat
  ss_num_categories :: nat
  ss_name :: bytes
  ss_antenna_id :: nat
  ss_metadata_id :: nat

record rtsa_metadata =
  sample_rate_hz :: f64
  center_frequency_hz :: "f64 option"
  bandwidth_hz :: f64
  total_samples :: nat
  start_time_ns :: nat
  end_time_ns :: nat
  creation_time_s :: f64
  md_num_streams :: nat
  file_format_version :: string
  primary_stream_id :: nat
  stream_type :: "string option"
  stream_start_time_s :: f64
  sub_streams :: "sub_stream_info list"
  antennas :: "antenna_info list"
  previews :: "preview_info list"
  stream_tail :: "stream_tail_info option"
  total_sample_chunks :: nat
  sample_data_size :: nat
  metadata_definitions :: "(nat \<times> meta_definition) list"

definition antenna_info_of :: "anta_chunk \<Rightarrow> antenna_info" where
  "antenna_info_of a =
     \<lparr>ai_antenna_id = anta_antenna_id a, ai_name = name_text (anta_name a),
      ai_latitude = anta_latitude a, ai_longitude = anta_longitude a, ai_flags = anta_flags a,
      ai_num_segments = anta_num_segments a, ai_transform = anta_transform a,
      ai_uuid = anta_uuid a\<rparr>"

definition preview_info_of :: "sprv_chunk \<Rightarrow> preview_info" where
  "preview_info_of p =
     (let n = min (sprv_count p) (length (sprv_offsets p))
      in \<lparr>pi_level = sprv_level p, pi_count = sprv_count p,
          pi_offsets = take n (sprv_offsets p), pi_times = take n (sprv_times p),
          pi_samples = take n (sprv_samples p)\<rparr>)"

definition sub_stream_info_of :: "sstr_chunk \<Rightarrow> sub_stream_info" where
  "sub_stream_info_of s =
     \<lparr>ss_stream_id = sstr_stream_id s, ss_sub_stream_id = sstr_sub_stream_id s,
      ss_sub_stream_offset = sstr_sub_stream_offset s,
      ss_frequency_start = sstr_frequency_start s, ss_frequency_step = sstr_frequency_step s,
      ss_frequency_span = sstr_frequency_span s, ss_value_minimum = sstr_value_minimum s,
      ss_value_maximum = sstr_value_maximum s, ss_direction = sstr_direction s,
      ss_antenna_index = sstr_antenna_index s, ss_num_categories = sstr_num_categories s,
      ss_name = name_text (sstr_name s), ss_antenna_id = sstr_antenna_id s,
      ss_metadata_id = sstr_metadata_id s\<rparr>"

definition stream_tail_info_of :: "strt_chunk \<Rightarrow> stream_tail_info" where
  "stream_tail_info_of t =
     \<lparr>st_stream_offset = strt_stream_offset t, st_sub_stream_offset = strt_sub_stream_offset t,
      st_preview_offset = strt_preview_offset t, st_num_samples = strt_num_samples t,
      st_payload_size = strt_payload_size t, st_preview_levels = strt_preview_levels t,
      st_num_previews = strt_num_previews t,
      st_num_preview_segments = strt_num_preview_segments t, st_end_time = strt_end_time t,
      st_antenna_offset = strt_antenna_offset t, st_metadata_offset = strt_metadata_offset t\<rparr>"

section \<open>Assembling the metadata\<close>

record map_orders =
  it_sstr :: "(nat \<times> sstr_chunk) list \<Rightarrow> (nat \<times> sstr_chunk) list"
  it_anta :: "(nat \<times> anta_chunk) list \<Rightarrow> (nat \<times> anta_chunk) list"
  it_mdtt :: "(nat \<times> mdtt_chunk) list \<Rightarrow> (nat \<times> mdtt_chunk) list"

definition insertion_order :: map_orders where
  "insertion_order = \<lparr>it_sstr = id, it_anta = id, it_mdtt = id\<rparr>"

record core_figures =
  c_rate :: f64
  c_center :: "f64 option"
  c_bandwidth :: f64
  c_total :: nat
  c_start :: nat
  c_end :: nat

definition band_center :: "f64 \<Rightarrow> f64 \<Rightarrow> f64" where
  "band_center fstart fspan = fadd B64 fstart (fdiv B64 fspan (lit B64 2))"

text \<open>The figures the chunks give directly.\<close>

definition core_of_chunks ::
  "rtsa_parse_state \<Rightarrow> strm_chunk \<Rightarrow> nat \<Rightarrow> nat option \<Rightarrow> core_figures result" where
  "core_of_chunks s strm iq stream_offset =
     (let start = seconds_to_ns (fadd B64 (strm_start_time strm)
                    (case capture_start_offset strm of Some v \<Rightarrow> v | None \<Rightarrow> zero))
      in case find (\<lambda>(off, c). samp_stream_id c = iq) (samp_offsets s) of
           Some (off, c) \<Rightarrow>
             (case map_of (sstr_chunks s) (samp_sub_stream_id c) of
                Some ss \<Rightarrow>
                  Ok \<lparr>c_rate = sstr_frequency_step ss,
                      c_center = Some (band_center (sstr_frequency_start ss) (sstr_frequency_span ss)),
                      c_bandwidth = sstr_frequency_span ss,
                      c_total = (case strt s of Some t \<Rightarrow> strt_num_samples t | None \<Rightarrow> 0),
                      c_start = start,
                      c_end = (case strt s of
                          Some t \<Rightarrow> if flt zero (strt_end_time t)
                            then sat_add start (seconds_to_ns (strt_end_time t)) else 0
                        | None \<Rightarrow> 0)\<rparr>
              | None \<Rightarrow> Err (FileFormat 0 ''Missing SSTR chunk for IQ stream''))
         | None \<Rightarrow>
             if strt s \<noteq> None \<or> samp_offsets s = []
             then Ok \<lparr>c_rate = zero, c_center = None, c_bandwidth = zero,
                      c_total = (case stream_offset of Some n \<Rightarrow> n | None \<Rightarrow> 0) div 8,
                      c_start = start, c_end = 0\<rparr>
             else Err (FileFormat 0 ''No SAMP chunks or STRT metadata found for IQ stream''))"

text \<open>The fall-backs, in the order the code tries them.\<close>

definition with_fallbacks ::
  "rtsa_parse_state \<Rightarrow> dsfh_chunk \<Rightarrow> nat \<Rightarrow> sub_stream_info list \<Rightarrow> core_figures \<Rightarrow> core_figures" where
  "with_fallbacks s d iq subs c =
     (let rate = (if fle (c_rate c) zero
                  then (case find (\<lambda>ss. flt zero (ss_frequency_step ss)) subs of
                          Some ss \<Rightarrow> ss_frequency_step ss | None \<Rightarrow> c_rate c)
                  else c_rate c);
          center = (case c_center c of
                      Some f \<Rightarrow> Some f
                    | None \<Rightarrow> (case subs of
                          ss # _ \<Rightarrow> Some (band_center (ss_frequency_start ss) (ss_frequency_span ss))
                        | [] \<Rightarrow> None));
          total = (if c_total c = 0
                   then sum_list (map (\<lambda>(off, x). num_samples x)
                          (filter (\<lambda>(off, x). samp_stream_id x = iq) (samp_offsets s)))
                   else c_total c);
          start = (if c_start c = 0 then seconds_to_ns (rtsa_epoch_seconds (creation_time d))
                   else c_start c);
          finish = (if c_end c = 0 \<and> flt zero rate \<and> 0 < total
                    then sat_add start (seconds_to_ns (fdiv B64 (of_nat_fl B64 total) rate))
                    else c_end c);
          bandwidth = (if fle (c_bandwidth c) zero
                       then (case subs of ss # _ \<Rightarrow> ss_frequency_span ss | [] \<Rightarrow> rate)
                       else c_bandwidth c)
      in \<lparr>c_rate = rate, c_center = center, c_bandwidth = bandwidth, c_total = total,
          c_start = start, c_end = finish\<rparr>)"

definition build_comprehensive_metadata ::
  "map_orders \<Rightarrow> rtsa_parse_state \<Rightarrow> dsfh_chunk \<Rightarrow> strm_chunk \<Rightarrow> nat \<Rightarrow> nat option \<Rightarrow> rtsa_metadata result" where
  "build_comprehensive_metadata it s d strm iq stream_offset =
     (let subs = map (sub_stream_info_of \<circ> snd) (it_sstr it (sstr_chunks s)) in
      bind_result (core_of_chunks s strm iq stream_offset) (\<lambda>core.
      let c = with_fallbacks s d iq subs core in
      Ok \<lparr>sample_rate_hz = c_rate c, center_frequency_hz = c_center c,
          bandwidth_hz = c_bandwidth c, total_samples = c_total c, start_time_ns = c_start c,
          end_time_ns = c_end c, creation_time_s = rtsa_epoch_seconds (creation_time d),
          md_num_streams = length (strm_chunks s), file_format_version = ''RTSA'',
          primary_stream_id = iq,
          stream_type = Some (if samp_offsets s \<noteq> [] then ''IQ_SAMPLES'' else ''RAW_IQ''),
          stream_start_time_s = strm_start_time strm, sub_streams = subs,
          antennas = map (antenna_info_of \<circ> snd) (it_anta it (anta_chunks s)),
          previews = map preview_info_of (sprv_chunks s),
          stream_tail = map_option stream_tail_info_of (strt s),
          total_sample_chunks = length (samp_offsets s),
          sample_data_size = sum_list (map (\<lambda>(off, c). hdr_size (samp_header c)) (samp_offsets s)),
          metadata_definitions =
            List.map_filter (\<lambda>(i, m). map_option (\<lambda>d. (i, d)) (mdtt_definition m))
              (it_mdtt it (mdtt_chunks s))\<rparr>))"

section \<open>Accessors\<close>

definition has_antenna_positioning :: "rtsa_metadata \<Rightarrow> bool" where
  "has_antenna_positioning m =
     list_ex (\<lambda>a. \<not> feq (ai_latitude a) zero \<or> \<not> feq (ai_longitude a) zero) (antennas m)"

definition has_preview_data :: "rtsa_metadata \<Rightarrow> bool" where
  "has_preview_data m = (previews m \<noteq> [])"

definition has_structured_metadata :: "rtsa_metadata \<Rightarrow> bool" where
  "has_structured_metadata m = (metadata_definitions m \<noteq> [])"

definition file_info :: "rtsa_metadata \<Rightarrow> f64 \<times> nat \<times> string" where
  "file_info m = (creation_time_s m, md_num_streams m, file_format_version m)"

definition stream_info :: "rtsa_metadata \<Rightarrow> nat \<times> string option \<times> f64" where
  "stream_info m = (primary_stream_id m, stream_type m, stream_start_time_s m)"

definition sample_chunk_stats :: "rtsa_metadata \<Rightarrow> nat \<times> nat" where
  "sample_chunk_stats m = (total_sample_chunks m, sample_data_size m)"

section \<open>Validation\<close>

record validation_report =
  valid :: bool
  report_errors :: "string list"
  report_warnings :: "string list"
  completeness :: f32

definition calculate_metadata_completeness :: "rtsa_metadata \<Rightarrow> f32" where
  "calculate_metadata_completeness m =
     (let score =
            (if flt zero (sample_rate_hz m) then 5 else 0)
          + (if center_frequency_hz m \<noteq> None then 5 else 0)
          + (if flt zero (bandwidth_hz m) then 5 else 0)
          + (if total_samples m > 0 then 5 else 0)
          + (if start_time_ns m > 0 then 8 else 0)
          + (if end_time_ns m > 0 then 7 else 0)
          + (if stream_type m \<noteq> None then 5 else 0)
          + (if sub_streams m \<noteq> [] then 15 else 0)
          + (if antennas m \<noteq> [] then 15 else 0)
          + (if previews m \<noteq> [] then 10 else 0)
          + (if stream_tail m \<noteq> None then 10 else 0);
          total = 20 + 15 + 5 + 15 + 15 + 10 + 10
      in fmul B32 (fdiv B32 (of_nat_fl B32 score) (of_nat_fl B32 total)) (lit B32 100))"

definition sample_count_warnings :: "rtsa_metadata \<Rightarrow> string list" where
  "sample_count_warnings m =
     (if 0 < total_samples m \<and> 0 < sample_data_size m
      then let actual_bytes = sample_data_size m in
        (case checked_mul (total_samples m) 8 of
           Some expected_bytes \<Rightarrow>
             if (max expected_bytes actual_bytes - min expected_bytes actual_bytes) > expected_bytes div 10
             then [''Sample count mismatch: expected '' @ show_nat expected_bytes @ '' bytes from ''
                   @ show_nat (total_samples m) @ '' samples, found '' @ show_nat actual_bytes @ '' bytes'']
             else []
         | None \<Rightarrow>
             [''Sample count '' @ show_nat (total_samples m) @ '' is too large for any payload (found ''
              @ show_nat actual_bytes @ '' bytes)''])
      else [])"

definition antenna_warnings :: "nat \<times> antenna_info \<Rightarrow> string list" where
  "antenna_warnings = (\<lambda>(i, a).
     (if ai_name a = [] then [''Antenna '' @ show_nat i @ '' has empty name''] else [])
     @ (if ai_num_segments a = 0 then [''Antenna '' @ show_nat i @ '' has zero segments''] else []))"

definition sub_stream_errors :: "nat \<times> sub_stream_info \<Rightarrow> string list" where
  "sub_stream_errors = (\<lambda>(i, s).
     if fle (ss_frequency_span s) zero
     then [''Sub-stream '' @ show_nat i @ '' has invalid frequency span''] else [])"

definition sub_stream_warnings :: "nat \<times> sub_stream_info \<Rightarrow> string list" where
  "sub_stream_warnings = (\<lambda>(i, s).
     (if fle (ss_frequency_step s) zero
      then [''Sub-stream '' @ show_nat i @ '' has invalid frequency step''] else [])
     @ (if ss_name s = [] then [''Sub-stream '' @ show_nat i @ '' has empty name''] else []))"

definition preview_errors :: "nat \<times> preview_info \<Rightarrow> string list" where
  "preview_errors = (\<lambda>(i, p).
     (if pi_count p \<noteq> length (pi_offsets p)
      then [''Preview '' @ show_nat i @ '' count mismatch''] else [])
     @ (if length (pi_offsets p) \<noteq> length (pi_times p)
        then [''Preview '' @ show_nat i @ '' offset/time array size mismatch''] else []))"

definition validate_structure :: "rtsa_metadata \<Rightarrow> validation_report" where
  "validate_structure m =
     (let warnings =
            (if fle (sample_rate_hz m) zero \<and> sub_streams m \<noteq> []
             then [''Sample rate is unknown but sub-streams are present''] else [])
          @ (if center_frequency_hz m = None \<and> sub_streams m \<noteq> []
             then [''Center frequency is unknown but sub-streams are present''] else [])
          @ sample_count_warnings m
          @ concat (map antenna_warnings (enumerate 0 (antennas m)))
          @ concat (map sub_stream_warnings (enumerate 0 (sub_streams m)))
          @ (case stream_tail m of
               Some t \<Rightarrow> if st_num_samples t > 0 \<and> st_payload_size t = 0
                 then [''Stream tail indicates samples but zero payload size''] else []
             | None \<Rightarrow> []);
          errors =
            (if end_time_ns m > 0 \<and> end_time_ns m \<le> start_time_ns m
             then [''End time is not after start time''] else [])
          @ concat (map sub_stream_errors (enumerate 0 (sub_streams m)))
          @ concat (map preview_errors (enumerate 0 (previews m)))
          @ (case stream_tail m of
               Some t \<Rightarrow> if is_nan (st_end_time t) \<or> fle (st_end_time t) zero
                 then [''Stream tail reports a non-positive stream duration''] else []
             | None \<Rightarrow> [])
      in \<lparr>valid = (errors = []), report_errors = errors, report_warnings = warnings,
          completeness = calculate_metadata_completeness m\<rparr>)"

end
