(* ===== verification/File_Source.thy ===== *)
theory File_Source
  imports File_Metadata Payload_Decode
begin

text \<open>
  The source over an RTSA capture (\<open>RtsaSource\<close> of \<open>src/src/file_source.rs\<close>): opening
  a file, with the detour over the external decompression tool, and reading, seeking and
  resetting over the index of its SAMP chunks. The reader's own position is not part of the
  state: every read seeks first. The tool is a function from a file to a file, or absent.
\<close>

section \<open>Bulk readers\<close>

definition read_iq_f32 :: "nat \<Rightarrow> complex32 list rd" where
  "read_iq_f32 count =
     rd_bind (rd_exact (count * 8)) (\<lambda>bs.
     rd_ret (map (\<lambda>c. (f32_of (slice 0 4 c), f32_of (slice 4 8 c))) (as_chunks 8 bs)))"

definition read_iq_i16 :: "nat \<Rightarrow> f32 \<Rightarrow> complex32 list rd" where
  "read_iq_i16 count scale =
     rd_bind (rd_exact (count * 4)) (\<lambda>bs.
     rd_ret (map (\<lambda>c. (fmul B32 (of_int_fl B32 (i16_of (slice 0 2 c))) scale,
                       fmul B32 (of_int_fl B32 (i16_of (slice 2 4 c))) scale)) (as_chunks 4 bs)))"

definition read_f32_vec :: "nat \<Rightarrow> f32 list rd" where
  "read_f32_vec count =
     rd_bind (rd_exact (count * 4)) (\<lambda>bs. rd_ret (map f32_of (as_chunks 4 bs)))"

datatype sample_data =
    IqData "complex32 list"
  | SpectraData "f32 list"
  | AudioData "int list"
  | DetectionData "f32 list"
  | HistogramData "nat list"
  | StructuredData bytes
  | ImageData bytes

section \<open>The source\<close>

record rtsa_source =
  rs_file :: bytes
  rs_metadata :: rtsa_metadata
  current_sample_index :: nat
  rs_iq :: nat
  rs_index :: "(nat \<times> samp_chunk) list"
  rs_starts :: "(nat \<times> nat) list"
  chunk_scan_hint :: nat
  raw_iq_data_end_offset :: "nat option"

text \<open>
  The first sample of each chunk, counted within its own sub-stream: \<open>seen\<close> holds the
  counters.
\<close>

fun chunk_start_samples :: "(nat \<times> nat \<Rightarrow> nat) \<Rightarrow> (nat \<times> samp_chunk) list \<Rightarrow> (nat \<times> nat) list" where
  "chunk_start_samples seen [] = []"
| "chunk_start_samples seen ((off, c) # ix) =
     (let key = (samp_stream_id c, samp_sub_stream_id c)
      in (off, seen key) # chunk_start_samples (seen(key := seen key + num_samples c)) ix)"

definition compressed_iq :: "(nat \<times> samp_chunk) list \<Rightarrow> bool" where
  "compressed_iq ix = list_ex (\<lambda>(off, c). samp_payload c = DsptIq \<and> samp_compression c > 0) ix"

text \<open>The part of \<open>open_internal\<close> before the check for compression.\<close>

definition open_parsed :: "map_orders \<Rightarrow> bytes \<Rightarrow> rtsa_source result" where
  "open_parsed it f =
     bind_result (parse_rtsa_with_tail f parse_state_default) (\<lambda>(stream_offset, s).
     case iq_stream s of
       None \<Rightarrow> Err (FileFormat 0 ''RTSA file missing IQ stream.'')
     | Some iq \<Rightarrow>
         (case map_of (strm_chunks s) iq of
            None \<Rightarrow> Err (FileFormat 0 ''Missing STRM chunk for IQ stream'')
          | Some strm \<Rightarrow>
              (case dsfh s of
                 None \<Rightarrow> Err (FileFormat 0 ''Missing required DSFH chunk'')
               | Some d \<Rightarrow>
                   bind_result (build_comprehensive_metadata it s d strm iq stream_offset) (\<lambda>m.
                   Ok \<lparr>rs_file = f, rs_metadata = m, current_sample_index = 0, rs_iq = iq,
                       rs_index = samp_offsets s,
                       rs_starts = chunk_start_samples (\<lambda>_. 0) (samp_offsets s),
                       chunk_scan_hint = 0,
                       raw_iq_data_end_offset = (if samp_offsets s = [] then stream_offset else None)\<rparr>))))"

text \<open>
  The re-opened file reports the conversion as its creation time; the original's is put back,
  and the start follows it when it was derived from it.
\<close>

definition restore_capture_time :: "rtsa_metadata \<Rightarrow> rtsa_source \<Rightarrow> rtsa_source" where
  "restore_capture_time original src =
     (let m = rs_metadata src;
          tool_creation_ns = seconds_to_ns (creation_time_s m);
          m = (if start_time_ns m = tool_creation_ns
               then let start = seconds_to_ns (creation_time_s original)
                    in m\<lparr>start_time_ns := start,
                         end_time_ns := sat_add start (end_time_ns m - start_time_ns m)\<rparr>
               else m)
      in src\<lparr>rs_metadata := m\<lparr>creation_time_s := creation_time_s original\<rparr>\<rparr>)"

definition open_internal ::
  "map_orders \<Rightarrow> (bytes \<Rightarrow> bytes result) option \<Rightarrow> bytes \<Rightarrow> rtsa_source result" where
  "open_internal it tool f =
     bind_result (open_parsed it f) (\<lambda>src.
     if \<not> compressed_iq (rs_index src) then Ok src
     else
       case tool of
         None \<Rightarrow> Err (FileFormat 0 ''DSPT_IQ compression detected, but RTSAFileTool was not found on this system. Please install Aaronia RTSA-Suite PRO to enable decompression.'')
       | Some run \<Rightarrow>
           bind_result (run f) (\<lambda>f'.
           bind_result (open_parsed it f') (\<lambda>src'.
           if compressed_iq (rs_index src')
           then Err (FileFormat 0 ''Failed to decompress RTSA file: the RTSAFileTool output is still compressed.'')
           else Ok (restore_capture_time (rs_metadata src) src'))))"

section \<open>Reading\<close>

definition chunk_start :: "rtsa_source \<Rightarrow> nat \<Rightarrow> nat" where
  "chunk_start s off = (case map_of (rs_starts s) off of Some n \<Rightarrow> n | None \<Rightarrow> 0)"

text \<open>Chunk \<open>idx\<close> belongs to the stream and holds the cursor.\<close>

definition holds_cursor :: "rtsa_source \<Rightarrow> nat option \<Rightarrow> nat \<Rightarrow> bool" where
  "holds_cursor s sub idx =
     (let (off, c) = rs_index s ! idx in
      samp_stream_id c = rs_iq s \<and> (sub = None \<or> sub = Some (samp_sub_stream_id c))
      \<and> current_sample_index s < chunk_start s off + num_samples c
      \<and> chunk_start s off \<le> current_sample_index s)"

definition find_chunk :: "rtsa_source \<Rightarrow> nat option \<Rightarrow> nat option" where
  "find_chunk s sub =
     (let n = length (rs_index s); hint = min (chunk_scan_hint s) n
      in find (holds_cursor s sub) ([hint..<n] @ [0..<hint]))"

definition int16_scale_for_sub_stream :: "rtsa_source \<Rightarrow> nat \<Rightarrow> f32" where
  "int16_scale_for_sub_stream s sub =
     (let fallback = fdiv B32 (lit B32 1) (lit B32 32768)
      in case find (\<lambda>i. ss_sub_stream_id i = sub) (sub_streams (rs_metadata s)) of
           Some i \<Rightarrow>
             let max_abs = fmax (fabs (ss_value_minimum i)) (fabs (ss_value_maximum i))
             in if is_finite max_abs \<and> flt zero max_abs
                then cast_fl B32 (fdiv B64 max_abs (lit B64 32768)) else fallback
         | None \<Rightarrow> fallback)"

definition U32_MAX :: nat where "U32_MAX = 2 ^ 32 - 1"

definition w64 :: "nat \<Rightarrow> nat" where "w64 n = n mod 2 ^ 64"

definition is_f32 :: "sample_type \<Rightarrow> bool" where
  "is_f32 t = (t = DsStF32 \<or> t = DsStF32N)"

definition is_s16 :: "sample_type \<Rightarrow> bool" where
  "is_s16 t = (t = DsStS16 \<or> t = DsStS16N)"

text \<open>The payload of one chunk from the cursor on: \<open>None\<close> for a type the reader skips.\<close>

definition read_payload ::
  "rtsa_source \<Rightarrow> nat \<Rightarrow> samp_chunk \<Rightarrow> nat \<Rightarrow> nat \<Rightarrow> sample_data option result" where
  "read_payload s off c data_start to_read =
     (if samp_payload c = DsptIq
      then if is_f32 (samp_type c)
           then if samp_compression c > 0 then Err (FileFormat 0 ''compressed DSPT_IQ chunk at 0x'')
                else map_sum id (\<lambda>(xs, q). Some (IqData xs)) (read_iq_f32 to_read (rs_file s) data_start)
           else if is_s16 (samp_type c)
           then map_sum id (\<lambda>(xs, q). Some (IqData xs))
                  (read_iq_i16 to_read (int16_scale_for_sub_stream s (samp_sub_stream_id c)) (rs_file s) data_start)
           else Ok None
      else if samp_payload c = DsptSpectra
      then if is_f32 (samp_type c)
           then if samp_compression c > 0 then Err (FileFormat 0 ''compressed DSPT_SPECTRA chunk at 0x'')
                else map_sum id (\<lambda>(xs, q). Some (SpectraData xs))
                       (read_f32_vec (to_read * samp_size c) (rs_file s) data_start)
           else Ok None
      else if off + hdr_size (samp_header c) \<le> I64_MAX then Ok None else Err (Io ''Invalid argument''))"

text \<open>
  What one visit of a chunk gives: how many samples the read takes, or the error that refuses it.
  \<open>before\<close> samples of the chunk lie behind the cursor.
\<close>

definition samples_to_take :: "nat \<Rightarrow> samp_chunk \<Rightarrow> nat \<Rightarrow> nat \<Rightarrow> nat result" where
  "samples_to_take off c before n =
     (let stride = sample_stride_bytes c; bytes_to_skip = w64 (before * stride);
          remaining_in_chunk = num_samples c - before;
          to_read = min (min n U32_MAX) remaining_in_chunk
      in if samp_compression c = 0
         then let payload_bytes = hdr_size (samp_header c) - hdr_header_size (samp_header c) - bytes_to_skip;
                  fits = (if stride = 0 then 0 else payload_bytes div stride);
                  to_read = min to_read (min fits U32_MAX)
              in if to_read = 0 \<and> 0 < n \<and> 0 < remaining_in_chunk
                 then Err (FileFormat off ''SAMP chunk at 0x'') else Ok to_read
         else Ok to_read)"

definition read_chunk ::
  "rtsa_source \<Rightarrow> nat \<Rightarrow> samp_chunk \<Rightarrow> nat \<Rightarrow> (nat \<times> sample_data option) result" where
  "read_chunk s off c n =
     (if samp_payload c = DsptIq \<and> (is_f32 (samp_type c) \<or> is_s16 (samp_type c)) \<and> samp_size c \<noteq> 2
      then Err (FileFormat off ''IQ SAMP chunk at 0x'')
      else
        let before = current_sample_index s - chunk_start s off;
            data_start = w64 (off + hdr_header_size (samp_header c)
                           + w64 (before * sample_stride_bytes c))
        in if I64_MAX < data_start then Err (Io ''Invalid argument'')
           else
             bind_result (samples_to_take off c before n) (\<lambda>to_read.
             bind_result (read_payload s off c data_start to_read) (\<lambda>d. Ok (to_read, d))))"

text \<open>The end of the index: no chunk holds a cursor behind it.\<close>

definition index_end :: "rtsa_source \<Rightarrow> nat" where
  "index_end s = foldr max (map (\<lambda>(off, c). chunk_start s off + num_samples c) (rs_index s)) 0"

lemma index_end_ge: "idx < length (rs_index s) \<Longrightarrow> rs_index s ! idx = (off, c) \<Longrightarrow>
    chunk_start s off + num_samples c \<le> index_end s"
proof -
  assume "idx < length (rs_index s)" and "rs_index s ! idx = (off, c)"
  then have m: "(off, c) \<in> set (rs_index s)" by (metis nth_mem)
  have "(off, c) \<in> set xs \<Longrightarrow>
      chunk_start s off + num_samples c \<le> foldr max (map (\<lambda>(off, c). chunk_start s off + num_samples c) xs) 0" for xs
    by (induction xs) auto
  with m show ?thesis by (simp add: index_end_def)
qed

lemma find_chunk_Some:
  "find_chunk s sub = Some idx \<Longrightarrow> idx < length (rs_index s) \<and> holds_cursor s sub idx"
proof -
  assume f: "find_chunk s sub = Some idx"
  let ?n = "length (rs_index s)" and ?h = "min (chunk_scan_hint s) (length (rs_index s))"
  from f have "idx \<in> set ([?h..<?n] @ [0..<?h]) \<and> holds_cursor s sub idx"
    unfolding find_chunk_def Let_def by (metis find_Some_iff nth_mem)
  then show ?thesis by auto
qed

lemma index_end_frame [simp]:
  "index_end (s\<lparr>chunk_scan_hint := h\<rparr>) = index_end s"
  "index_end (s\<lparr>current_sample_index := i\<rparr>) = index_end s"
  by (simp_all add: index_end_def chunk_start_def)

lemma loop_advances:
  assumes "find_chunk s sub = Some idx" and "rs_index s ! idx = (off, c)"
  shows "index_end s - (chunk_start s off + num_samples c) < index_end s - current_sample_index s"
proof -
  from find_chunk_Some [OF assms(1)] assms(2)
  have "idx < length (rs_index s)" and "current_sample_index s < chunk_start s off + num_samples c"
    by (simp_all add: holds_cursor_def)
  with index_end_ge [OF this(1) assms(2)] show ?thesis by simp
qed

text \<open>
  Reading: each round finds the chunk that holds the cursor; a chunk of a kind the reader does
  not know is stepped over. The source keeps the chunk it looked at as the place where the next
  search starts, also when the read fails.
\<close>

function read_loop :: "nat \<Rightarrow> nat option \<Rightarrow> rtsa_source \<Rightarrow> sample_data option result \<times> rtsa_source" where
  "read_loop n sub s =
     (case find_chunk s sub of
        None \<Rightarrow> (Ok None, s)
      | Some idx \<Rightarrow>
          let (off, c) = rs_index s ! idx; s' = s\<lparr>chunk_scan_hint := idx\<rparr>
          in (case read_chunk s' off c n of
                Inl e \<Rightarrow> (Err e, s')
              | Inr (to_read, Some d) \<Rightarrow>
                  (Ok (Some d), s'\<lparr>current_sample_index := current_sample_index s + to_read\<rparr>)
              | Inr (to_read, None) \<Rightarrow>
                  read_loop n sub (s'\<lparr>current_sample_index := chunk_start s off + num_samples c\<rparr>)))"
  by pat_completeness auto
termination
  by (relation "measure (\<lambda>(n, sub, s). index_end s - current_sample_index s)")
     (auto simp: loop_advances dest: sym)

declare read_loop.simps [simp del]

text \<open>A file without SAMP chunks: the samples are the file's first bytes.\<close>

definition read_raw_iq_samples :: "nat \<Rightarrow> rtsa_source \<Rightarrow> sample_data option result \<times> rtsa_source" where
  "read_raw_iq_samples n s =
     (let total = total_samples (rs_metadata s); cur = current_sample_index s;
          sample_byte_offset = w64 (cur * 8); samples_to_read = min n (total - cur)
      in if cur \<ge> total \<or> samples_to_read = 0 then (Ok None, s)
         else if I64_MAX < sample_byte_offset then (Err (Io ''Invalid argument''), s)
         else (case read_iq_f32 samples_to_read (rs_file s) sample_byte_offset of
                 Inl e \<Rightarrow> (Err e, s)
               | Inr (xs, q) \<Rightarrow> (Ok (Some (IqData xs)), s\<lparr>current_sample_index := cur + samples_to_read\<rparr>)))"

definition read_samples ::
  "nat \<Rightarrow> nat option \<Rightarrow> rtsa_source \<Rightarrow> sample_data option result \<times> rtsa_source" where
  "read_samples n sub s =
     (case raw_iq_data_end_offset s of
        Some e \<Rightarrow> read_raw_iq_samples n s
      | None \<Rightarrow> read_loop n sub s)"

section \<open>The cursor\<close>

definition current_position :: "rtsa_source \<Rightarrow> nat" where
  "current_position s = current_sample_index s"

definition remaining_samples :: "rtsa_source \<Rightarrow> nat" where
  "remaining_samples s = total_samples (rs_metadata s) - current_sample_index s"

definition is_eof :: "rtsa_source \<Rightarrow> bool" where
  "is_eof s = (current_sample_index s \<ge> total_samples (rs_metadata s))"

definition holds_sample :: "rtsa_source \<Rightarrow> nat \<Rightarrow> nat \<times> samp_chunk \<Rightarrow> bool" where
  "holds_sample s i = (\<lambda>(off, c). samp_stream_id c = rs_iq s \<and> chunk_start s off \<le> i
     \<and> i < chunk_start s off + num_samples c)"

definition seek_to_sample :: "nat \<Rightarrow> rtsa_source \<Rightarrow> rtsa_source result" where
  "seek_to_sample i s =
     (if i \<ge> total_samples (rs_metadata s) then Err (FileFormat 0 ''Seek position out of bounds.'')
      else if raw_iq_data_end_offset s \<noteq> None then Ok (s\<lparr>current_sample_index := i\<rparr>)
      else case find (holds_sample s i) (rs_index s) of
          Some (off, c) \<Rightarrow>
            let byte_offset = w64 ((i - chunk_start s off) * sample_stride_bytes c);
                data_start = off + hdr_header_size (samp_header c)
            in if I64_MAX < w64 (data_start + byte_offset) then Err (Io ''Invalid argument'')
               else Ok (s\<lparr>current_sample_index := i, chunk_scan_hint := 0\<rparr>)
        | None \<Rightarrow> Err (FileFormat 0 ''Could not find sample index in any SAMP chunk.''))"

definition reset :: "rtsa_source \<Rightarrow> unit result \<times> rtsa_source" where
  "reset s =
     (let s' = s\<lparr>current_sample_index := 0, chunk_scan_hint := 0\<rparr> in
      case find (\<lambda>(off, c). samp_stream_id c = rs_iq s) (rs_index s) of
        Some (off, c) \<Rightarrow>
          if I64_MAX < off + hdr_header_size (samp_header c)
          then (Err (Io ''Invalid argument''), s') else (Ok (), s')
      | None \<Rightarrow> (Ok (), s'))"

section \<open>The invariant of a source\<close>

definition source_ok :: "rtsa_source \<Rightarrow> bool" where
  "source_ok s \<longleftrightarrow> index_ok (rs_file s) 0 (length (rs_file s)) (rs_index s)
     \<and> rs_starts s = chunk_start_samples (\<lambda>_. 0) (rs_index s)"

lemma source_ok_frame [simp]:
  "source_ok (s\<lparr>chunk_scan_hint := h\<rparr>) = source_ok s"
  "source_ok (s\<lparr>current_sample_index := i\<rparr>) = source_ok s"
  "source_ok (s\<lparr>rs_metadata := m\<rparr>) = source_ok s"
  by (simp_all add: source_ok_def)

lemma option_case_Ok:
  "(case x of None \<Rightarrow> Err e | Some a \<Rightarrow> g a) = Ok b \<longleftrightarrow> (\<exists>a. x = Some a \<and> g a = Ok b)"
  by (cases x) auto

lemma open_parsed_ok:
  assumes "open_parsed it f = Ok s"
  shows "source_ok s" and "rs_file s = f"
    and "(rs_index s = []) = (raw_iq_data_end_offset s \<noteq> None)"
proof -
  from assms obtain so p where p: "parse_rtsa_with_tail f parse_state_default = Ok (so, p)"
    and s: "rs_file s = f" "rs_index s = samp_offsets p"
      "rs_starts s = chunk_start_samples (\<lambda>_. 0) (samp_offsets p)"
      "raw_iq_data_end_offset s = (if samp_offsets p = [] then so else None)"
    by (auto simp: open_parsed_def option_case_Ok)
  have "parse_ok f p" "case so of None \<Rightarrow> samp_offsets p \<noteq> [] | Some off \<Rightarrow> samp_offsets p = [] \<and> 0 < off"
    using parse_result_ok [OF p] by auto
  with s show "source_ok s" "rs_file s = f" "(rs_index s = []) = (raw_iq_data_end_offset s \<noteq> None)"
    by (auto simp: source_ok_def parse_ok_def split: option.splits)
qed

lemma read_loop_cases:
  obtains (none) "find_chunk s sub = None" "read_loop n sub s = (Ok None, s)"
  | (error) idx off c e where "find_chunk s sub = Some idx" "rs_index s ! idx = (off, c)"
      "read_chunk (s\<lparr>chunk_scan_hint := idx\<rparr>) off c n = Inl e"
      "read_loop n sub s = (Err e, s\<lparr>chunk_scan_hint := idx\<rparr>)"
  | (data) idx off c k d where "find_chunk s sub = Some idx" "rs_index s ! idx = (off, c)"
      "read_chunk (s\<lparr>chunk_scan_hint := idx\<rparr>) off c n = Inr (k, Some d)"
      "read_loop n sub s = (Ok (Some d), s\<lparr>chunk_scan_hint := idx, current_sample_index := current_sample_index s + k\<rparr>)"
  | (skip) idx off c k where "find_chunk s sub = Some idx" "rs_index s ! idx = (off, c)"
      "read_chunk (s\<lparr>chunk_scan_hint := idx\<rparr>) off c n = Inr (k, None)"
      "read_loop n sub s = read_loop n sub
         (s\<lparr>chunk_scan_hint := idx, current_sample_index := chunk_start s off + num_samples c\<rparr>)"
proof (cases "find_chunk s sub")
  case None
  then show ?thesis by (intro none) (simp_all add: read_loop.simps [of n sub s])
next
  case (Some idx)
  obtain off c where c: "rs_index s ! idx = (off, c)" by (cases "rs_index s ! idx")
  show ?thesis
  proof (cases "read_chunk (s\<lparr>chunk_scan_hint := idx\<rparr>) off c n")
    case (Inl e)
    then show ?thesis using Some c by (intro error) (simp_all add: read_loop.simps [of n sub s])
  next
    case (Inr kd)
    obtain k d where kd: "kd = (k, d)" by (cases kd)
    show ?thesis
    proof (cases d)
      case None
      then show ?thesis using Some c Inr kd by (intro skip) (simp_all add: read_loop.simps [of n sub s])
    next
      case (Some d')
      then show ?thesis using \<open>find_chunk s sub = Some idx\<close> c Inr kd
        by (intro data) (simp_all add: read_loop.simps [of n sub s])
    qed
  qed
qed

lemma read_loop_frame:
  "\<exists>h i. snd (read_loop n sub s) = s\<lparr>chunk_scan_hint := h, current_sample_index := i\<rparr>
     \<and> current_sample_index s \<le> i"
proof (induction n sub s rule: read_loop.induct)
  case (1 n sub s)
  show ?case
  proof (cases rule: read_loop_cases [where n = n and sub = sub and s = s])
    case none
    then show ?thesis
      by (intro exI [of _ "chunk_scan_hint s"] exI [of _ "current_sample_index s"]) simp
  next
    case (error idx off c e)
    then show ?thesis by (intro exI [of _ idx] exI [of _ "current_sample_index s"]) simp
  next
    case (data idx off c k d)
    then show ?thesis by (intro exI [of _ idx] exI [of _ "current_sample_index s + k"]) simp
  next
    case (skip idx off c k)
    from find_chunk_Some [OF skip(1)] skip(2)
    have "current_sample_index s \<le> chunk_start s off + num_samples c" by (simp add: holds_cursor_def)
    with "1.IH" [OF skip(1) skip(2) [symmetric] refl refl skip(3) refl] skip(4) show ?thesis
      by (fastforce intro: order_trans)
  qed
qed

end
