(* ===== verification/File_Playback.thy ===== *)
theory File_Playback
  imports File_Source
begin

text \<open>
  What reading a capture means: the samples of a sub-stream are the payloads of its chunks in
  file order, and reads, in blocks of any size, hand out exactly that sequence. The place where
  the search for a chunk starts is shown not to matter.
\<close>

section \<open>Where a chunk's samples start\<close>

definition weight :: "nat \<Rightarrow> nat \<Rightarrow> nat \<times> samp_chunk \<Rightarrow> nat" where
  "weight iq k = (\<lambda>(off, c). if samp_stream_id c = iq \<and> samp_sub_stream_id c = k then num_samples c else 0)"

lemma chunk_start_samples_nth:
  assumes "distinct (map fst ix)" and "j < length ix" and "ix ! j = (off, c)"
  shows "map_of (chunk_start_samples seen ix) off =
    Some (seen (samp_stream_id c, samp_sub_stream_id c)
      + sum_list (map (weight (samp_stream_id c) (samp_sub_stream_id c)) (take j ix)))"
  using assms
proof (induction ix arbitrary: j seen)
  case Nil
  then show ?case by simp
next
  case (Cons e ix)
  obtain o1 c1 where e: "e = (o1, c1)" by (cases e)
  show ?case
  proof (cases j)
    case 0
    with Cons.prems show ?thesis by (simp add: e Let_def)
  next
    case (Suc i)
    then have i: "i < length ix" "ix ! i = (off, c)" using Cons.prems by simp_all
    then have "off \<in> set (map fst ix)" by (metis fst_conv length_map nth_map nth_mem)
    then have "o1 \<noteq> off" using Cons.prems(1) by (auto simp: e)
    with Cons.IH [OF _ i] Cons.prems(1) Suc show ?thesis
      by (simp add: e Let_def weight_def)
  qed
qed

lemma index_ok_distinct: "index_ok f lo hi ix \<Longrightarrow> distinct (map fst ix)"
proof (induction ix)
  case Nil
  then show ?case by simp
next
  case (Cons e ix)
  obtain off c where e: "e = (off, c)" by (cases e)
  with Cons.prems have "samp_at f off c" and l: "list_all (\<lambda>(off', c'). off + hdr_size (samp_header c) \<le> off') ix"
    and "index_ok f lo hi ix" by (simp_all add: index_ok_Cons)
  then have "16 \<le> hdr_size (samp_header c)"
    by (auto simp: samp_at_def map_sum_fst dest!: samp_read_header split: sum.splits)
  with l have "off \<notin> set (map fst ix)" by (fastforce simp: list_all_iff)
  with Cons \<open>index_ok f lo hi ix\<close> e show ?case by simp
qed

text \<open>The samples of sub-stream \<open>k\<close> in front of chunk \<open>j\<close>.\<close>

definition samples_before :: "rtsa_source \<Rightarrow> nat \<Rightarrow> nat \<Rightarrow> nat" where
  "samples_before s k j = sum_list (map (weight (rs_iq s) k) (take j (rs_index s)))"

lemma chunk_start_nth:
  assumes "source_ok s" and "j < length (rs_index s)" and "rs_index s ! j = (off, c)"
    and "samp_stream_id c = rs_iq s"
  shows "chunk_start s off = samples_before s (samp_sub_stream_id c) j"
  using chunk_start_samples_nth [of "rs_index s" j off c "\<lambda>_. 0"] assms
    index_ok_distinct [of "rs_file s" 0 "length (rs_file s)" "rs_index s"]
  by (simp add: source_ok_def chunk_start_def samples_before_def)

lemma samples_before_Suc:
  "j < length (rs_index s) \<Longrightarrow>
   samples_before s k (Suc j) = samples_before s k j + weight (rs_iq s) k (rs_index s ! j)"
  by (simp add: samples_before_def take_Suc_conv_app_nth)

lemma samples_before_mono:
  assumes "i \<le> j" and "j \<le> length (rs_index s)"
  shows "samples_before s k i \<le> samples_before s k j"
  using assms
proof (induction j)
  case 0
  then show ?case by simp
next
  case (Suc j)
  then show ?case by (cases "i = Suc j") (simp_all add: samples_before_Suc)
qed

text \<open>Chunk \<open>j\<close> holds the cursor of a read of sub-stream \<open>k\<close>, in terms of the counts.\<close>

lemma holds_cursor_iff:
  assumes "source_ok s" and "j < length (rs_index s)"
  shows "holds_cursor s (Some k) j \<longleftrightarrow>
    samples_before s k j \<le> current_sample_index s \<and> current_sample_index s < samples_before s k (Suc j)"
proof -
  obtain off c where c: "rs_index s ! j = (off, c)" by (cases "rs_index s ! j")
  show ?thesis
  proof (cases "samp_stream_id c = rs_iq s \<and> samp_sub_stream_id c = k")
    case True
    with chunk_start_nth [OF assms c] assms(2) c show ?thesis
      by (auto simp: holds_cursor_def samples_before_Suc weight_def)
  next
    case False
    with assms(2) c show ?thesis by (auto simp: holds_cursor_def samples_before_Suc weight_def)
  qed
qed

lemma holds_cursor_unique:
  assumes "source_ok s" and "i < length (rs_index s)" and "j < length (rs_index s)"
    and "holds_cursor s (Some k) i" and "holds_cursor s (Some k) j"
  shows "i = j"
proof -
  have c: "samples_before s k i \<le> current_sample_index s" "current_sample_index s < samples_before s k (Suc i)"
    "samples_before s k j \<le> current_sample_index s" "current_sample_index s < samples_before s k (Suc j)"
    using assms(4,5) unfolding holds_cursor_iff [OF assms(1,2)] holds_cursor_iff [OF assms(1,3)] by simp_all
  have "\<not> i < j" using samples_before_mono [of "Suc i" j s k] assms(3) c by auto
  moreover have "\<not> j < i" using samples_before_mono [of "Suc j" i s k] assms(2) c by auto
  ultimately show ?thesis by simp
qed

lemma scan_hint_irrelevant_aux:
  assumes "source_ok s"
  shows "find_chunk s (Some k) = find (holds_cursor s (Some k)) [0..<length (rs_index s)]"
proof -
  let ?n = "length (rs_index s)" and ?P = "holds_cursor s (Some k)"
  let ?h = "min (chunk_scan_hint s) ?n"
  have set: "set ([?h..<?n] @ [0..<?h]) = set [0..<?n]" by auto
  show ?thesis
  proof (cases "\<exists>j < ?n. ?P j")
    case True
    then obtain j where j: "j < ?n" "?P j" by blast
    have u: "y = j" if "y < ?n" "?P y" for y using holds_cursor_unique [OF assms that(1) j(1) that(2) j(2)] .
    have "find ?P xs = Some j" if "set xs = set [0..<?n]" for xs
    proof (rule find_unique)
      show "j \<in> set xs" using that j(1) by simp
      show "y = j" if "y \<in> set xs" "?P y" for y using u that \<open>set xs = set [0..<?n]\<close> by simp
    qed (rule j(2))
    then have "find ?P ([?h..<?n] @ [0..<?h]) = Some j" and "find ?P [0..<?n] = Some j"
      using set by blast+
    then show ?thesis by (simp add: find_chunk_def Let_def)
  next
    case False
    then have "find ?P ([?h..<?n] @ [0..<?h]) = None" and "find ?P [0..<?n] = None"
      by (auto simp: find_None_iff)
    then show ?thesis by (simp add: find_chunk_def Let_def)
  qed
qed

section \<open>The samples of a sub-stream\<close>

definition pair_of :: "bytes \<Rightarrow> complex32" where
  "pair_of c = (f32_of (slice 0 4 c), f32_of (slice 4 8 c))"

text \<open>A chunk's samples, decoded from its declared payload.\<close>

definition chunk_samples :: "bytes \<Rightarrow> nat \<Rightarrow> nat \<Rightarrow> nat \<times> samp_chunk \<Rightarrow> complex32 list" where
  "chunk_samples f iq k = (\<lambda>(off, c).
     if samp_stream_id c = iq \<and> samp_sub_stream_id c = k
     then map pair_of (as_chunks 8 (take (8 * num_samples c) (drop (off + hdr_header_size (samp_header c)) f)))
     else [])"

definition sub_stream_samples :: "rtsa_source \<Rightarrow> nat \<Rightarrow> complex32 list" where
  "sub_stream_samples s k = concat (map (chunk_samples (rs_file s) (rs_iq s) k) (rs_index s))"

text \<open>An uncompressed float32 IQ chunk whose payload the file holds whole.\<close>

definition complete_iq :: "bytes \<Rightarrow> nat \<times> samp_chunk \<Rightarrow> bool" where
  "complete_iq f = (\<lambda>(off, c).
     samp_payload c = DsptIq \<and> is_f32 (samp_type c) \<and> samp_compression c = 0 \<and> samp_size c = 2
     \<and> num_samples c \<le> U32_MAX
     \<and> hdr_header_size (samp_header c) + 8 * num_samples c \<le> hdr_size (samp_header c)
     \<and> off + hdr_size (samp_header c) \<le> length f)"

definition plays :: "rtsa_source \<Rightarrow> nat \<Rightarrow> bool" where
  "plays s k \<longleftrightarrow> source_ok s \<and> raw_iq_data_end_offset s = None \<and> length (rs_file s) \<le> I64_MAX
     \<and> list_all (\<lambda>(off, c). if samp_stream_id c = rs_iq s \<and> samp_sub_stream_id c = k
                  then complete_iq (rs_file s) (off, c) else True) (rs_index s)"

lemma plays_frame [simp]:
  "plays (s\<lparr>chunk_scan_hint := h\<rparr>) k = plays s k"
  "plays (s\<lparr>current_sample_index := i\<rparr>) k = plays s k"
  by (simp_all add: plays_def)

lemma sub_stream_samples_frame [simp]:
  "sub_stream_samples (s\<lparr>chunk_scan_hint := h\<rparr>) k = sub_stream_samples s k"
  "sub_stream_samples (s\<lparr>current_sample_index := i\<rparr>) k = sub_stream_samples s k"
  by (simp_all add: sub_stream_samples_def)

lemma length_chunk_samples:
  assumes "plays s k" and "e \<in> set (rs_index s)"
  shows "length (chunk_samples (rs_file s) (rs_iq s) k e) = weight (rs_iq s) k e"
proof -
  obtain off c where e: "e = (off, c)" by (cases e)
  show ?thesis
  proof (cases "samp_stream_id c = rs_iq s \<and> samp_sub_stream_id c = k")
    case True
    with assms e have "complete_iq (rs_file s) (off, c)" by (auto simp: plays_def list_all_iff)
    then have "8 * num_samples c \<le> length (rs_file s) - (off + hdr_header_size (samp_header c))"
      unfolding complete_iq_def split_conv by linarith
    with True show ?thesis
      by (simp add: e chunk_samples_def weight_def length_as_chunks min_absorb2)
  next
    case False
    then show ?thesis by (auto simp: e chunk_samples_def weight_def)
  qed
qed

lemma as_chunks_take_drop:
  assumes "0 < k" and "(b + t) * k \<le> length xs"
  shows "as_chunks k (take (t * k) (drop (b * k) xs)) = take t (drop b (as_chunks k xs))"
proof (rule nth_equalityI)
  have t: "t * k \<le> length xs - b * k" using assms(2) by (simp add: algebra_simps)
  have b: "b + t \<le> length xs div k" using assms by (simp add: less_eq_div_iff_mult_less_eq)
  show len: "length (as_chunks k (take (t * k) (drop (b * k) xs))) = length (take t (drop b (as_chunks k xs)))"
    using assms(1) t b by (simp add: length_as_chunks min_absorb2)
  fix i
  assume "i < length (as_chunks k (take (t * k) (drop (b * k) xs)))"
  with assms(1) t have i: "i < t" by (simp add: length_as_chunks min_absorb2)
  have "(i + 1) * k \<le> t * k" using i by (intro mult_le_mono1) simp
  then have ik: "i * k + k \<le> t * k" by simp
  have "as_chunks k (take (t * k) (drop (b * k) xs)) ! i = take k (drop (i * k) (take (t * k) (drop (b * k) xs)))"
    using assms(1) i t by (intro nth_as_chunks) (simp_all add: min_absorb2)
  also have "\<dots> = take k (drop ((b + i) * k) xs)"
    using ik by (simp add: drop_take min_def algebra_simps)
  also have "\<dots> = as_chunks k xs ! (b + i)"
    using assms(1) i b by (intro nth_as_chunks [symmetric]) simp_all
  also have "\<dots> = take t (drop b (as_chunks k xs)) ! i"
    using i b assms(1) by (simp add: length_as_chunks)
  finally show "as_chunks k (take (t * k) (drop (b * k) xs)) ! i = take t (drop b (as_chunks k xs)) ! i" .
qed

lemma drop_concat:
  assumes "j < length xs" and "length (concat (map g (take j xs))) \<le> cur"
  shows "drop cur (concat (map g xs)) =
    drop (cur - length (concat (map g (take j xs)))) (g (xs ! j) @ concat (map g (drop (Suc j) xs)))"
proof -
  have "concat (map g xs) = concat (map g (take j xs)) @ g (xs ! j) @ concat (map g (drop (Suc j) xs))"
    using id_take_nth_drop [OF assms(1)] by (metis concat.simps(2) concat_append list.simps(9) map_append)
  then show ?thesis using assms(2) by simp
qed

lemma length_samples_before:
  assumes "plays s k" and "j \<le> length (rs_index s)"
  shows "length (concat (map (chunk_samples (rs_file s) (rs_iq s) k) (take j (rs_index s)))) = samples_before s k j"
proof -
  have "map (\<lambda>e. length (chunk_samples (rs_file s) (rs_iq s) k e)) (take j (rs_index s))
      = map (weight (rs_iq s) k) (take j (rs_index s))"
    using length_chunk_samples [OF assms(1)] by (auto dest: in_set_takeD)
  then show ?thesis by (simp only: length_concat map_map comp_def samples_before_def)
qed

lemma length_sub_stream_samples:
  "plays s k \<Longrightarrow> length (sub_stream_samples s k) = samples_before s k (length (rs_index s))"
  using length_samples_before [of s k "length (rs_index s)"] by (simp add: sub_stream_samples_def)

lemma cursor_in_some_chunk:
  assumes "cur < samples_before s k (length (rs_index s))"
  shows "\<exists>j < length (rs_index s). samples_before s k j \<le> cur \<and> cur < samples_before s k (Suc j)"
proof -
  have "m \<le> length (rs_index s) \<Longrightarrow> cur < samples_before s k m \<Longrightarrow>
      \<exists>j < m. samples_before s k j \<le> cur \<and> cur < samples_before s k (Suc j)" for m
  proof (induction m)
    case 0
    then show ?case by (simp add: samples_before_def)
  next
    case (Suc m)
    then show ?case by (cases "cur < samples_before s k m") (auto intro: less_SucI)
  qed
  with assms show ?thesis by blast
qed

section \<open>A read hands out the next samples\<close>

lemma stride_8: "is_f32 (samp_type c) \<Longrightarrow> samp_size c = 2 \<Longrightarrow> sample_stride_bytes c = 8"
  by (auto simp: sample_stride_bytes_def value_bytes_def is_f32_def)

lemma read_complete_chunk:
  assumes c: "complete_iq f (off, c)" and f: "rs_file s = f" "length f \<le> I64_MAX"
    and start: "chunk_start s off = start" and cur: "start \<le> current_sample_index s"
    "current_sample_index s < start + num_samples c" and n: "0 < n"
    and key: "samp_stream_id c = iq" "samp_sub_stream_id c = k"
  defines "b \<equiv> current_sample_index s - start"
  defines "t \<equiv> min (min n U32_MAX) (num_samples c - b)"
  shows "read_chunk s off c n = Ok (t, Some (IqData (take t (drop b (chunk_samples f iq k (off, c))))))"
proof -
  let ?hs = "hdr_header_size (samp_header c)" and ?sz = "hdr_size (samp_header c)" and ?num = "num_samples c"
  have C: "samp_payload c = DsptIq" "is_f32 (samp_type c)" "samp_compression c = 0" "samp_size c = 2"
    "?num \<le> U32_MAX" "?hs + 8 * ?num \<le> ?sz" "off + ?sz \<le> length f"
    using c by (simp_all add: complete_iq_def)
  have b: "b < ?num" using cur by (simp add: b_def)
  have t: "0 < t" "b + t \<le> ?num" using n b by (simp_all add: t_def U32_MAX_def)
  have w1: "w64 (b * 8) = b * 8" using b C(5) by (simp add: w64_def U32_MAX_def)
  have bound: "off + ?hs + b * 8 + t * 8 \<le> length f" using t C by linarith
  then have w2: "w64 (off + ?hs + b * 8) = off + ?hs + b * 8" and le: "off + ?hs + b * 8 \<le> I64_MAX"
    using f(2) by (simp_all add: w64_def I64_MAX_def)
  have "8 * (?num - b) \<le> ?sz - ?hs - b * 8" using C(6) b by linarith
  then have "?num - b \<le> (?sz - ?hs - b * 8) div 8"
    by (simp add: less_eq_div_iff_mult_less_eq mult.commute)
  moreover have "?num - b \<le> U32_MAX" using C(5) by linarith
  ultimately have "?num - b \<le> min ((?sz - ?hs - b * 8) div 8) U32_MAX" by (rule min.boundedI)
  then have "min (min n U32_MAX) (?num - b) \<le> min ((?sz - ?hs - b * 8) div 8) U32_MAX"
    by (rule order_trans [OF min.cobounded2])
  then have fits: "min (min (min n U32_MAX) (?num - b)) (min ((?sz - ?hs - b * 8) div 8) U32_MAX) = t"
    unfolding t_def by (rule min_absorb1)
  have take: "samples_to_take off c b n = Ok t"
  proof -
    have e: "(8 :: nat) \<noteq> 0" and nz: "\<not> (t = 0 \<and> 0 < n \<and> 0 < ?num - b)" using t(1) by simp_all
    show ?thesis
      unfolding samples_to_take_def Let_def stride_8 [OF C(2,4)] w1 if_P [OF C(3)] if_not_P [OF e] fits
      by (rule if_not_P [OF nz])
  qed
  let ?xs = "take (8 * ?num) (drop (off + ?hs) f)"
  have "8 * ?num \<le> length f - (off + ?hs)" using C(6,7) by linarith
  then have len: "length ?xs = 8 * ?num" by simp
  have "take (t * 8) (drop (off + ?hs + b * 8) f) = take (t * 8) (drop (b * 8) ?xs)"
    using t(2) by (simp add: drop_take add_ac min_def)
  also have "as_chunks 8 \<dots> = take t (drop b (as_chunks 8 ?xs))"
    using t(2) len by (intro as_chunks_take_drop) simp_all
  finally have "as_chunks 8 (take (t * 8) (drop (off + ?hs + b * 8) f)) = take t (drop b (as_chunks 8 ?xs))" .
  then have payload: "read_payload s off c (off + ?hs + b * 8) t
      = Ok (Some (IqData (take t (drop b (chunk_samples f iq k (off, c))))))"
    using C bound key f(1)
    by (simp add: read_payload_def read_iq_f32_def rd_bind_def rd_exact_def chunk_samples_def
        pair_of_def [abs_def] take_map drop_map)
  show ?thesis
    using C(4) le take payload
    by (simp add: read_chunk_def Let_def start w1 w2 stride_8 [OF C(2,4)] flip: b_def)
qed

lemma next_samples:
  assumes p: "plays s k" and n: "0 < n" and cur: "current_sample_index s < length (sub_stream_samples s k)"
  shows "\<exists>t h. 0 < t \<and> t \<le> n \<and> current_sample_index s + t \<le> length (sub_stream_samples s k)
    \<and> read_samples n (Some k) s =
        (Ok (Some (IqData (take t (drop (current_sample_index s) (sub_stream_samples s k))))),
         s\<lparr>chunk_scan_hint := h, current_sample_index := current_sample_index s + t\<rparr>)"
proof -
  let ?cur = "current_sample_index s" and ?ix = "rs_index s"
  let ?g = "chunk_samples (rs_file s) (rs_iq s) k"
  have ok: "source_ok s" using p by (simp add: plays_def)
  obtain j where j: "j < length ?ix" "samples_before s k j \<le> ?cur" "?cur < samples_before s k (Suc j)"
    using cursor_in_some_chunk cur length_sub_stream_samples [OF p] by metis
  obtain off c where c: "?ix ! j = (off, c)" by (cases "?ix ! j")
  have w: "samples_before s k (Suc j) = samples_before s k j + weight (rs_iq s) k (off, c)"
    using samples_before_Suc [OF j(1)] c by simp
  with j have key: "samp_stream_id c = rs_iq s" "samp_sub_stream_id c = k"
    by (auto simp: weight_def split: if_splits)
  have "(off, c) \<in> set ?ix" using j(1) c by (metis nth_mem)
  with p key have C: "complete_iq (rs_file s) (off, c)" and f: "length (rs_file s) \<le> I64_MAX"
    and raw: "raw_iq_data_end_offset s = None"
    by (auto simp: plays_def list_all_iff)
  have start: "chunk_start s off = samples_before s k j"
    using chunk_start_nth [OF ok j(1) c key(1)] key(2) by simp
  have "holds_cursor s (Some k) j" using holds_cursor_iff [OF ok j(1)] j by simp
  then have "find (holds_cursor s (Some k)) [0..<length ?ix] = Some j"
    using holds_cursor_unique [OF ok _ j(1)] j(1) by (intro find_unique) simp_all
  then have fc: "find_chunk s (Some k) = Some j"
    using scan_hint_irrelevant_aux [OF ok, of k] by simp
  define b where "b = ?cur - samples_before s k j"
  define t where "t = min (min n U32_MAX) (num_samples c - b)"
  let ?s = "s\<lparr>chunk_scan_hint := j\<rparr>"
  have num: "?cur < samples_before s k j + num_samples c" using j(3) w key by (simp add: weight_def)
  have rc: "read_chunk ?s off c n = Ok (t, Some (IqData (take t (drop b (?g (off, c))))))"
    using read_complete_chunk [OF C, of ?s "samples_before s k j" n "rs_iq s" k] f start j(2) num n key
    by (simp add: chunk_start_def b_def t_def)
  have t: "0 < t" "t \<le> n" "b + t \<le> num_samples c"
    using n num j(2) by (simp_all add: t_def b_def U32_MAX_def)
  have len: "length (?g (off, c)) = num_samples c"
    using length_chunk_samples [OF p \<open>(off, c) \<in> set ?ix\<close>] key by (simp add: weight_def)
  have "drop ?cur (sub_stream_samples s k) = drop b (?g (off, c) @ concat (map ?g (drop (Suc j) ?ix)))"
    using drop_concat [OF j(1), of ?g ?cur] length_samples_before [OF p, of j] j c
    by (simp add: sub_stream_samples_def b_def)
  then have data: "take t (drop ?cur (sub_stream_samples s k)) = take t (drop b (?g (off, c)))"
    using t(3) len by simp
  have "samples_before s k j + num_samples c \<le> length (sub_stream_samples s k)"
    using samples_before_mono [of "Suc j" "length ?ix" s k] j(1) w key length_sub_stream_samples [OF p]
    by (simp add: weight_def)
  then have "?cur + t \<le> length (sub_stream_samples s k)" using t(3) j(2) by (simp add: b_def)
  moreover have "read_samples n (Some k) s = (Ok (Some (IqData (take t (drop ?cur (sub_stream_samples s k))))),
      s\<lparr>chunk_scan_hint := j, current_sample_index := ?cur + t\<rparr>)"
    using raw fc c rc data by (simp add: read_samples_def read_loop.simps [of n "Some k" s])
  ultimately show ?thesis using t by blast
qed

lemma no_more_samples:
  assumes p: "plays s k" and cur: "length (sub_stream_samples s k) \<le> current_sample_index s"
  shows "read_samples n (Some k) s = (Ok None, s)"
proof -
  have ok: "source_ok s" and raw: "raw_iq_data_end_offset s = None" using p by (simp_all add: plays_def)
  have "\<not> holds_cursor s (Some k) j" if "j < length (rs_index s)" for j
    using holds_cursor_iff [OF ok that, of k] samples_before_mono [of "Suc j" "length (rs_index s)" s k]
      that cur length_sub_stream_samples [OF p] by simp
  then have "find (holds_cursor s (Some k)) [0..<length (rs_index s)] = None"
    by (simp add: find_None_iff)
  then show ?thesis
    using raw scan_hint_irrelevant_aux [OF ok, of k] by (simp add: read_samples_def read_loop.simps [of n "Some k" s])
qed

text \<open>Reading on until nothing more comes, at most \<open>m\<close> times.\<close>

primrec drain :: "nat \<Rightarrow> nat \<Rightarrow> nat \<Rightarrow> rtsa_source \<Rightarrow> complex32 list" where
  "drain 0 n k s = []"
| "drain (Suc m) n k s =
     (case read_samples n (Some k) s of
        (Inr (Some (IqData xs)), s') \<Rightarrow> xs @ drain m n k s'
      | _ \<Rightarrow> [])"

lemma drain_rest:
  assumes "plays s k" and "0 < n" and "length (sub_stream_samples s k) \<le> current_sample_index s + m"
  shows "drain m n k s = drop (current_sample_index s) (sub_stream_samples s k)"
  using assms
proof (induction m arbitrary: s)
  case 0
  then show ?case by simp
next
  case (Suc m)
  let ?L = "sub_stream_samples s k" and ?cur = "current_sample_index s"
  show ?case
  proof (cases "?cur < length ?L")
    case False
    then show ?thesis using no_more_samples [OF Suc.prems(1)] by simp
  next
    case True
    then obtain t h where t: "0 < t" and r: "read_samples n (Some k) s =
        (Ok (Some (IqData (take t (drop ?cur ?L)))), s\<lparr>chunk_scan_hint := h, current_sample_index := ?cur + t\<rparr>)"
      using next_samples [OF Suc.prems(1,2)] by blast
    let ?s = "s\<lparr>chunk_scan_hint := h, current_sample_index := ?cur + t\<rparr>"
    have "drain m n k ?s = drop (current_sample_index ?s) (sub_stream_samples ?s k)"
      using Suc.prems t by (intro Suc.IH) simp_all
    then have "drain m n k ?s = drop t (drop ?cur ?L)" by (simp add: add.commute)
    with r show ?thesis by (simp only: drain.simps prod.case sum.case option.case sample_data.case append_take_drop_id)
  qed
qed

section \<open>A capture to play\<close>

definition sample_file :: bytes where
  "sample_file = [1, 2] @ region_bytes sample_region @ [7]"

definition sample_metadata :: rtsa_metadata where
  "sample_metadata = \<lparr>sample_rate_hz = zero, center_frequency_hz = None, bandwidth_hz = zero,
     total_samples = 2, start_time_ns = 0, end_time_ns = 0, creation_time_s = zero,
     md_num_streams = 1, file_format_version = ''RTSA'', primary_stream_id = 5,
     stream_type = None, stream_start_time_s = zero, sub_streams = [], antennas = [],
     previews = [], stream_tail = None, total_sample_chunks = 2, sample_data_size = 144,
     metadata_definitions = []\<rparr>"

definition sample_source :: rtsa_source where
  "sample_source = \<lparr>rs_file = sample_file, rs_metadata = sample_metadata,
     current_sample_index = 0, rs_iq = 5, rs_index = [(2, sample_samp), (76, sample_samp)],
     rs_starts = [(2, 0), (76, 1)], chunk_scan_hint = 0, raw_iq_data_end_offset = None\<rparr>"

lemma sample_index: "index_ok sample_file 0 149 [(2, sample_samp), (76, sample_samp)]"
proof -
  have "length (region_bytes sample_region) = 146"
    by (simp add: sample_region_def enc_header_def tag_def)
  moreover have "lies sample_file 2 (region_bytes sample_region)"
    using lies_inner [of "[1, 2]" "region_bytes sample_region" "[7]"]
    by (simp add: sample_file_def numeral_2_eq_2)
  ultimately have "scan_loop 148 [] sample_file 2 = Ok (expected_index 2 sample_region, 148)"
    using region_scanned [OF sample_region_ok, of sample_file 2 148 "[]"] by (simp add: I64_MAX_def)
  moreover have "expected_index 2 sample_region = [(2, sample_samp), (76, sample_samp)]"
    by (simp add: sample_region_def enc_header_def tag_def)
  ultimately have "index_ok sample_file 2 148 [(2, sample_samp), (76, sample_samp)]"
    using scan_loop_sound by fastforce
  then show ?thesis by (auto simp: index_ok_def)
qed

lemma length_sample_file: "length sample_file = 149"
  by (simp add: sample_file_def sample_region_def enc_header_def tag_def)

lemma sample_source_ok: "source_ok sample_source"
  using sample_index
  by (simp add: source_ok_def sample_source_def length_sample_file sample_samp_def Let_def)

lemma sample_source_plays: "plays sample_source 1"
  using sample_source_ok
  by (simp add: plays_def sample_source_def length_sample_file complete_iq_def sample_samp_def
      made_header_def is_f32_def U32_MAX_def I64_MAX_def)

lemma sample_source_length: "length (sub_stream_samples sample_source 1) = 2"
  unfolding length_sub_stream_samples [OF sample_source_plays]
  by (simp add: samples_before_def weight_def sample_source_def sample_samp_def)

section \<open>Theorems\<close>



text \<open>
  C10: C: reading a sub-stream of uncompressed float32 IQ to its end, in blocks of any size, gives
  the samples of its chunks, all of them, once each and in file order.
\<close>

theorem playback_complete:
  assumes "plays s k" and "current_sample_index s = 0" and "0 < n"
  shows "drain (length (sub_stream_samples s k)) n k s = sub_stream_samples s k"
  using drain_rest [OF assms(1,3)] assms(2) by simp

theorem playback_complete_witness:
  "drain 2 7 1 sample_source = sub_stream_samples sample_source 1"
  using playback_complete [OF sample_source_plays, of 7] sample_source_length
  by (simp add: sample_source_def)



end
