(* ===== verification/File_Laws.thy ===== *)
theory File_Laws
  imports File_Playback
begin

text \<open>
  What protects a reader of captures from the file: a read of an uncompressed chunk depends on
  that chunk's bytes alone, reads advance, an opened source is consistent and never holds
  compressed IQ, the report stays within its scale; and where these protections end: a negative
  compression byte, an unknown sample type, a start time that falls back after the end time
  was computed.
\<close>

section \<open>Reads stay inside their chunk\<close>

lemma w64_small: "n < 2 ^ 64 \<Longrightarrow> w64 n = n"
  by (simp add: w64_def)

lemma same_bytes:
  assumes "take sz (drop off f) = take sz (drop off f')" and "off \<le> p" and "p + m \<le> off + sz"
  shows "take m (drop p f) = take m (drop p f')"
proof -
  have "take m (drop p g) = take m (drop (p - off) (take sz (drop off g)))" for g :: "'a list"
    using assms(2,3) by (simp add: drop_take min_def)
  then show ?thesis using assms(1) by metis
qed

lemma samples_fit:
  assumes "samples_to_take off c b n = Ok k" and "samp_compression c = 0" and "0 < k"
  shows "hdr_header_size (samp_header c) + w64 (b * sample_stride_bytes c) + k * sample_stride_bytes c
       \<le> hdr_size (samp_header c)"
proof -
  let ?st = "sample_stride_bytes c"
  let ?p = "hdr_size (samp_header c) - hdr_header_size (samp_header c) - w64 (b * ?st)"
  have k: "k \<le> (if ?st = 0 then 0 else ?p div ?st)"
    using assms(1,2) by (auto simp: samples_to_take_def Let_def split: if_splits)
  then have st: "?st \<noteq> 0" using assms(3) by (auto split: if_splits)
  then have "k * ?st \<le> ?p" using k by (simp add: less_eq_div_iff_mult_less_eq)
  moreover have "0 < k * ?st" using st assms(3) by simp
  ultimately show ?thesis by linarith
qed

lemma rs_file_frame [simp]:
  "int16_scale_for_sub_stream (s\<lparr>rs_file := f\<rparr>) k = int16_scale_for_sub_stream s k"
  "chunk_start (s\<lparr>rs_file := f\<rparr>) off = chunk_start s off"
  by (simp_all add: int16_scale_for_sub_stream_def chunk_start_def)

lemma rd_exact_same:
  assumes "take sz (drop off f) = take sz (drop off f')" and "off + sz \<le> length f"
    and "off + sz \<le> length f'" and "0 < m \<Longrightarrow> off \<le> p \<and> p + m \<le> off + sz"
  shows "rd_exact m f p = rd_exact m f' p"
proof (cases "m = 0")
  case True
  then show ?thesis by (simp add: rd_exact_def)
next
  case False
  with assms(4) have p: "off \<le> p" "p + m \<le> off + sz" by simp_all
  with same_bytes [OF assms(1) p] assms(2,3) show ?thesis by (simp add: rd_exact_def)
qed


definition sample_chunk :: "int \<Rightarrow> sample_type \<Rightarrow> nat \<Rightarrow> samp_chunk" where
  "sample_chunk cmp ty num = sample_samp\<lparr>samp_compression := cmp, samp_type := ty, num_samples := num\<rparr>"


text \<open>
  C: a chunk whose compression byte is negative escapes that bound. It is neither capped by its
  declared size, which only a zero byte asks for, nor refused, which only a positive one
  causes: the read takes the declared number of samples from whatever bytes follow.
\<close>

theorem negative_compression_reads_on:
  assumes "rs_metadata s = sample_metadata" and "chunk_start s 0 = 0" and "current_sample_index s = 0"
    and "rs_file s = replicate 72 0 @ xs" and "8 * num \<le> length xs + 8" and "0 < num" and "num \<le> U32_MAX"
  shows "read_chunk s 0 (sample_chunk (- 1) DsStF32 num) num
       = Ok (num, Some (IqData (map pair_of (as_chunks 8 (take (8 * num) (replicate 8 0 @ xs))))))"
proof -
  let ?c = "sample_chunk (- 1) DsStF32 num"
  have c: "samp_payload ?c = DsptIq" "samp_type ?c = DsStF32" "samp_compression ?c = - 1"
    "samp_size ?c = 2" "num_samples ?c = num" "hdr_header_size (samp_header ?c) = 64"
    by (simp_all add: sample_chunk_def sample_samp_def made_header_def)
  have "samples_to_take 0 ?c 0 num = Ok num"
    using c assms(7) by (simp add: samples_to_take_def Let_def)
  moreover have "drop 64 (rs_file s) = replicate 8 0 @ xs" using assms(4) by simp
  moreover have "64 + num * 8 \<le> length (rs_file s)" using assms(4,5) by simp
  ultimately show ?thesis
    using c assms(2,3) by (simp add: read_chunk_def Let_def w64_small I64_MAX_def read_payload_def is_f32_def
        read_iq_f32_def rd_bind_def rd_exact_def pair_of_def [abs_def] mult.commute)
qed

theorem negative_compression_reads_on_witness:
  "\<exists>d. read_chunk (sample_source\<lparr>rs_file := replicate 72 0 @ replicate 40 9\<rparr>) 0
         (sample_chunk (- 1) DsStF32 6) 6 = Ok (6, Some d)"
  using negative_compression_reads_on [of "sample_source\<lparr>rs_file := replicate 72 0 @ replicate 40 9\<rparr>" "replicate 40 9" 6]
  by (simp add: sample_source_def chunk_start_def U32_MAX_def)

text \<open>
  C: an IQ chunk of a sample type the reader does not know is not stepped over: its stride is
  zero, so no sample fits and every read that reaches it fails, without moving the cursor.
\<close>

theorem unknown_type_refused:
  assumes "samp_type c = DsStUnknown" and "samp_compression c = 0" and "0 < n"
    and "current_sample_index s - chunk_start s off < num_samples c"
    and "off + hdr_header_size (samp_header c) \<le> I64_MAX"
  shows "read_chunk s off c n = Err (FileFormat off ''SAMP chunk at 0x'')"
proof -
  have st: "sample_stride_bytes c = 0" using assms(1) by (simp add: sample_stride_bytes_def value_bytes_def)
  have w: "w64 (off + hdr_header_size (samp_header c)) = off + hdr_header_size (samp_header c)"
    using assms(5) by (intro w64_small) (simp add: I64_MAX_def)
  have "w64 0 = 0" by (simp add: w64_def)
  with st w assms show ?thesis
    by (simp add: read_chunk_def Let_def is_f32_def is_s16_def samples_to_take_def)
qed

theorem unknown_type_refused_witness:
  "read_chunk sample_source 2 (sample_chunk 0 DsStUnknown 1) 4 = Err (FileFormat 2 ''SAMP chunk at 0x'')"
  by (rule unknown_type_refused)
     (simp_all add: sample_chunk_def sample_samp_def sample_source_def chunk_start_def made_header_def I64_MAX_def)

section \<open>Reads advance\<close>

lemma read_chunk_takes:
  assumes "read_chunk s off c n = Ok (k, Some d)" and "0 < n"
    and "current_sample_index s < chunk_start s off + num_samples c" and "chunk_start s off \<le> current_sample_index s"
  shows "0 < k"
proof -
  let ?b = "current_sample_index s - chunk_start s off"
  have "samples_to_take off c ?b n = Ok k"
    using assms(1) by (auto simp: read_chunk_def Let_def split: if_splits)
  moreover have "0 < num_samples c - ?b" using assms(3,4) by linarith
  ultimately show ?thesis
    using assms(2) by (auto simp: samples_to_take_def Let_def U32_MAX_def split: if_splits)
qed

lemma read_loop_progress:
  "read_loop n sub s = (Ok (Some d), s') \<Longrightarrow> 0 < n \<Longrightarrow> current_sample_index s < current_sample_index s'"
proof (induction n sub s rule: read_loop.induct)
  case (1 n sub s)
  show ?case
  proof (cases rule: read_loop_cases [where n = n and sub = sub and s = s])
    case (data idx off c k d')
    from find_chunk_Some [OF data(1)] data(2)
    have "current_sample_index s < chunk_start s off + num_samples c" "chunk_start s off \<le> current_sample_index s"
      by (simp_all add: holds_cursor_def)
    then have "0 < k"
      using read_chunk_takes [OF data(3) "1.prems"(2)] by (simp add: chunk_start_def)
    with data(4) "1.prems"(1) show ?thesis by auto
  next
    case (skip idx off c k)
    from find_chunk_Some [OF skip(1)] skip(2)
    have "current_sample_index s < chunk_start s off + num_samples c" by (simp add: holds_cursor_def)
    with "1.IH" [OF skip(1) skip(2) [symmetric] refl refl skip(3) refl] skip(4) "1.prems" show ?thesis by simp
  qed (use "1.prems" in simp_all)
qed

text \<open>
  C26: C: a read never loops and never stalls: it returns for every source, and when it returns data
  for a non-empty request, the cursor has moved forward.
\<close>

theorem reads_make_progress:
  assumes "read_samples n sub s = (Ok (Some d), s')" and "0 < n"
  shows "current_sample_index s < current_sample_index s'"
  using assms read_loop_progress
  by (auto simp: read_samples_def read_raw_iq_samples_def Let_def split: option.splits if_splits sum.splits)

theorem reads_make_progress_witness:
  "0 < current_sample_index (snd (read_samples 1 (Some 1) sample_source))"
proof -
  have c: "current_sample_index sample_source = 0" by (simp add: sample_source_def)
  then have "current_sample_index sample_source < length (sub_stream_samples sample_source 1)"
    using sample_source_length by simp
  from next_samples [OF sample_source_plays zero_less_one this]
  obtain d s' where r: "read_samples 1 (Some 1) sample_source = (Ok (Some d), s')" by blast
  from reads_make_progress [OF r zero_less_one] c show ?thesis unfolding r by simp
qed

section \<open>What opening guarantees\<close>

lemma restore_capture_time_frame [simp]:
  "source_ok (restore_capture_time m s) = source_ok s"
  "rs_index (restore_capture_time m s) = rs_index s"
  by (simp_all add: restore_capture_time_def Let_def)

text \<open>
  C: whatever the file holds and whatever the external tool returns, a source that opens has a
  consistent index and holds no compressed IQ.
\<close>

theorem opened_source_consistent:
  "case open_internal it tool f of
     Inl e \<Rightarrow> True
   | Inr s \<Rightarrow> source_ok s \<and> \<not> compressed_iq (rs_index s)"
proof (cases "open_internal it tool f")
  case (Inr s)
  then show ?thesis
    using open_parsed_ok(1)
    by (auto simp: open_internal_def split: if_splits option.splits
        dest: arg_cong [where f = source_ok] arg_cong [where f = rs_index])
qed simp

end
