(* ===== verification/Metadata_Laws.thy ===== *)
theory Metadata_Laws
  imports File_Playback "HOL-Library.Multiset"
begin

text \<open>
  What the reported metadata can be relied on for: the completeness figure stays on its scale,
  preview entries are clamped to their arrays, the order in which a hash map is iterated does
  not reach the sample scale, and the recording does not end before it starts as long as its
  stream head carries a start. Two counterexamples show where the last two fail.
\<close>

section \<open>The completeness figure\<close>

lemma wf_small_nat: "n \<le> 2 ^ 24 \<Longrightarrow> wf B32 (Fin s (of_nat n))"
proof -
  assume n: "n \<le> 2 ^ 24"
  then have "int n \<le> 2 ^ nat (prec B32)" by simp
  then have "rnd_mag B32 (of_int (int n) * 2 powi 0) = of_int (int n) * 2 powi 0"
    by (intro rnd_mag_exact) (simp_all add: emin_def)
  moreover have "(of_nat n :: rat) < 2 powi (emax B32 + 1)"
  proof -
    have "(of_nat n :: rat) \<le> of_nat (2 ^ 24)" using n by (simp only: of_nat_le_iff)
    also have "\<dots> < 2 powi (emax B32 + 1)" by (simp add: power_int_def)
    finally show ?thesis .
  qed
  ultimately show ?thesis by simp
qed

lemma percent_bounds:
  assumes "score \<le> 90"
  shows "fle zero (fmul B32 (fdiv B32 (of_nat_fl B32 score) (of_nat_fl B32 90)) (lit B32 100))
       \<and> fle (fmul B32 (fdiv B32 (of_nat_fl B32 score) (of_nat_fl B32 90)) (lit B32 100)) (lit B32 100)"
proof -
  have ex: "of_nat_fl B32 k = Fin False (of_nat k)" if "k \<le> 2 ^ 24" for k
    using rnd_exact [OF wf_small_nat [OF that]] by (simp add: of_nat_fl_def)
  have hundred: "lit B32 100 = Fin False 100"
    using rnd_exact [OF wf_small_nat [of 100 False]] by (simp add: lit_def)
  let ?q = "of_nat score / 90 :: rat" and ?r = "rnd_mag B32 (of_nat score / 90)"
  have q: "0 \<le> ?q" "?q \<le> 1" using assms by simp_all
  have one: "wf B32 (Fin False 1)" using wf_small_nat [of 1 False] by simp
  have d: "fdiv B32 (of_nat_fl B32 score) (of_nat_fl B32 90) = Fin False ?r" "?r \<le> 1" "0 \<le> ?r"
    using rnd_le_finite(1) [OF q one, of False] rnd_le_finite(2) [OF q one] rnd_mag_nonneg [OF q(1), of B32] ex [of score] ex [of 90] assms
    by simp_all
  have m: "0 \<le> ?r * 100" "?r * 100 \<le> 100" using d by simp_all
  have w: "wf B32 (Fin False 100)" using wf_small_nat [of 100 False] by simp
  have "fmul B32 (Fin False ?r) (lit B32 100) = Fin False (rnd_mag B32 (?r * 100))"
    "rnd_mag B32 (?r * 100) \<le> 100" "0 \<le> rnd_mag B32 (?r * 100)"
    using rnd_le_finite(1) [OF m w, of False] rnd_le_finite(2) [OF m w] rnd_mag_nonneg [OF m(1), of B32] by (simp_all add: hundred)
  then show ?thesis unfolding d(1) hundred by (simp add: zero_def)
qed

text \<open>C: the completeness of any metadata is a percentage.\<close>

theorem completeness_is_percentage:
  "fle zero (calculate_metadata_completeness m)
   \<and> fle (calculate_metadata_completeness m) (lit B32 100)"
proof -
  have *: "(if b then n else 0) \<le> n" for b and n :: nat by simp
  have le: "a1 \<le> 5 \<Longrightarrow> a2 \<le> 5 \<Longrightarrow> a3 \<le> 5 \<Longrightarrow> a4 \<le> 5 \<Longrightarrow> a5 \<le> 8 \<Longrightarrow> a6 \<le> 7 \<Longrightarrow> a7 \<le> 5 \<Longrightarrow>
      a8 \<le> 15 \<Longrightarrow> a9 \<le> 15 \<Longrightarrow> b1 \<le> 10 \<Longrightarrow> b2 \<le> 10 \<Longrightarrow>
      a1 + a2 + a3 + a4 + a5 + a6 + a7 + a8 + a9 + b1 + b2 \<le> (90 :: nat)"
    for a1 a2 a3 a4 a5 a6 a7 a8 a9 b1 b2 by linarith
  have t: "20 + 15 + 5 + 15 + 15 + 10 + 10 = (90 :: nat)" by simp
  show ?thesis
    unfolding calculate_metadata_completeness_def Let_def t by (intro percent_bounds le *)
qed

section \<open>Previews\<close>

text \<open>
  C: a preview never reports more entries than its arrays hold, whatever its count byte says,
  and validation flags it exactly when the byte asks for more.
\<close>

theorem previews_clamped:
  assumes "preview_shape p"
  shows "let i = preview_info_of p; n = min (sprv_count p) 16
    in length (pi_offsets i) = n \<and> length (pi_times i) = n \<and> length (pi_samples i) = n
       \<and> (preview_errors (j, i) = [] \<longleftrightarrow> sprv_count p \<le> 16)"
  using assms
  by (auto simp: preview_shape_def preview_info_of_def preview_errors_def Let_def min_def)

definition sample_preview :: "nat \<Rightarrow> sprv_chunk" where
  "sample_preview n = \<lparr>sprv_header = made_header ''SPRV'' 408 0 392, sprv_level = 0, sprv_count = n,
     sprv_offsets = replicate 16 0, sprv_times = replicate 16 zero, sprv_samples = replicate 16 0\<rparr>"

theorem previews_clamped_witness:
  "length (pi_times (preview_info_of (sample_preview 200))) = 16
   \<and> preview_errors (0, preview_info_of (sample_preview 200)) \<noteq> []"
  using previews_clamped [of "sample_preview 200" 0]
  by (simp add: preview_shape_def sample_preview_def Let_def)

section \<open>Order of iteration\<close>

lemma find_key_perm:
  assumes "distinct (map fst m)" and "mset xs = mset m"
  shows "find (\<lambda>(k', c). k' = k) xs = map_option (\<lambda>c. (k, c)) (map_of m k)"
proof -
  have set: "set xs = set m" using assms(2) by (rule mset_eq_setD)
  show ?thesis
  proof (cases "map_of m k")
    case None
    then have "k \<notin> fst ` set xs" using set by (simp add: map_of_eq_None_iff)
    then have "find (\<lambda>(k', c). k' = k) xs = None" by (force simp: find_None_iff)
    with None show ?thesis by simp
  next
    case (Some c)
    then have c: "(k, c) \<in> set m" by (rule map_of_SomeD)
    have unique: "e = (k, c)" if mem: "e \<in> set xs" and key: "case e of (k', c) \<Rightarrow> k' = k" for e
    proof -
      obtain c' where e: "e = (k, c')" using key by (cases e) auto
      with mem set have "(k, c') \<in> set m" by simp
      then have "map_of m k = Some c'" using assms(1) by (simp add: map_of_is_SomeI)
      with Some e show ?thesis by simp
    qed
    have "find (\<lambda>(k', c). k' = k) xs = Some (k, c)"
    proof (rule find_unique)
      show "(k, c) \<in> set xs" using c set by simp
      show "case (k, c) of (k', c) \<Rightarrow> k' = k" by simp
    qed (rule unique)
    with Some show ?thesis by simp
  qed
qed

lemma find_map: "find P (map f xs) = map_option f (find (\<lambda>x. P (f x)) xs)"
  by (induction xs) auto

lemma find_sub_stream:
  assumes "keyed sstr_sub_stream_id m" and "mset xs = mset m"
  shows "find (\<lambda>i. ss_sub_stream_id i = k) (map (sub_stream_info_of \<circ> snd) xs)
       = map_option sub_stream_info_of (map_of m k)"
proof -
  have set: "set xs = set m" using assms(2) by (rule mset_eq_setD)
  have "find (\<lambda>e. ss_sub_stream_id ((sub_stream_info_of \<circ> snd) e) = k) xs = find (\<lambda>(k', c). k' = k) xs"
    using assms(1) set
    by (intro find_cong) (auto simp: sub_stream_info_of_def keyed_def list_all_iff)
  also have "\<dots> = map_option (\<lambda>c. (k, c)) (map_of m k)"
    using assms by (intro find_key_perm) (simp_all add: keyed_def)
  finally show ?thesis by (simp add: find_map option.map_comp comp_def)
qed

text \<open>
  C28: C: the scale an int16 sub-stream is read with does not depend on the order in which the hash
  map of sub-streams is iterated.
\<close>

theorem scale_independent_of_order:
  assumes "keyed sstr_sub_stream_id (sstr_chunks p)"
    and "mset (it_sstr it (sstr_chunks p)) = mset (sstr_chunks p)"
    and "mset (it_sstr it' (sstr_chunks p)) = mset (sstr_chunks p)"
    and "build_comprehensive_metadata it p d strm iq so = Ok m"
    and "build_comprehensive_metadata it' p d strm iq so = Ok m'"
  shows "int16_scale_for_sub_stream (s\<lparr>rs_metadata := m\<rparr>) k = int16_scale_for_sub_stream (s\<lparr>rs_metadata := m'\<rparr>) k"
proof -
  have "sub_streams m = map (sub_stream_info_of \<circ> snd) (it_sstr it (sstr_chunks p))"
    "sub_streams m' = map (sub_stream_info_of \<circ> snd) (it_sstr it' (sstr_chunks p))"
    using assms(4,5) by (auto simp: build_comprehensive_metadata_def Let_def)
  then show ?thesis
    using find_sub_stream [OF assms(1,2), of k] find_sub_stream [OF assms(1,3), of k]
    by (simp add: int16_scale_for_sub_stream_def)
qed

definition two_sub_streams :: rtsa_parse_state where
  "two_sub_streams = parse_state_default\<lparr>sstr_chunks :=
     [(1, (sample_sstr 1 0)\<lparr>sstr_frequency_start := Fin False 100, sstr_frequency_span := Fin False 20\<rparr>),
      (2, (sample_sstr 2 0)\<lparr>sstr_frequency_start := Fin False 900, sstr_frequency_span := Fin False 20\<rparr>)]\<rparr>"

definition sample_dsfh :: "f64 \<Rightarrow> dsfh_chunk" where
  "sample_dsfh t = \<lparr>dsfh_header = made_header ''DSFH'' 24 0 8, creation_time = t\<rparr>"

definition sample_strm :: "f64 \<Rightarrow> strm_chunk" where
  "sample_strm t = \<lparr>strm_header = made_header ''STRM'' 40 0 24, strm_stream_id = 5,
     strm_start_time = t, strm_stream_offset = 0, capture_start_offset = None\<rparr>"

definition reverse_order :: map_orders where
  "reverse_order = \<lparr>it_sstr = rev, it_anta = rev, it_mdtt = rev\<rparr>"

lemma two_sub_streams_keyed: "keyed sstr_sub_stream_id (sstr_chunks two_sub_streams)"
  by (simp add: two_sub_streams_def keyed_def sample_sstr_def)

lemma two_sub_streams_metadata:
  "\<exists>m. build_comprehensive_metadata it two_sub_streams d strm iq so = Ok m"
  by (simp add: build_comprehensive_metadata_def core_of_chunks_def two_sub_streams_def
      parse_state_default_def Let_def)

theorem scale_independent_of_order_witness:
  "\<exists>m m'. build_comprehensive_metadata insertion_order two_sub_streams (sample_dsfh zero) (sample_strm zero) 5 (Some 800) = Ok m
     \<and> build_comprehensive_metadata reverse_order two_sub_streams (sample_dsfh zero) (sample_strm zero) 5 (Some 800) = Ok m'
     \<and> int16_scale_for_sub_stream (sample_source\<lparr>rs_metadata := m\<rparr>) 2
       = int16_scale_for_sub_stream (sample_source\<lparr>rs_metadata := m'\<rparr>) 2"
proof -
  obtain m where m: "build_comprehensive_metadata insertion_order two_sub_streams (sample_dsfh zero) (sample_strm zero) 5 (Some 800) = Ok m"
    using two_sub_streams_metadata by blast
  obtain m' where m': "build_comprehensive_metadata reverse_order two_sub_streams (sample_dsfh zero) (sample_strm zero) 5 (Some 800) = Ok m'"
    using two_sub_streams_metadata by blast
  have "int16_scale_for_sub_stream (sample_source\<lparr>rs_metadata := m\<rparr>) 2
      = int16_scale_for_sub_stream (sample_source\<lparr>rs_metadata := m'\<rparr>) 2"
    by (rule scale_independent_of_order [OF two_sub_streams_keyed _ _ m m'])
      (simp_all add: insertion_order_def reverse_order_def)
  with m m' show ?thesis by blast
qed

text \<open>
  C: the fall-backs do depend on it. For a recording without SAMP chunks and with two sub-streams
  the centre frequency reported is that of whichever sub-stream the map yields first.
\<close>

theorem fallback_depends_on_order:
  "map_sum id center_frequency_hz
     (build_comprehensive_metadata insertion_order two_sub_streams (sample_dsfh zero) (sample_strm zero) 5 (Some 800))
     = Ok (Some (Fin False 110))
   \<and> map_sum id center_frequency_hz
     (build_comprehensive_metadata reverse_order two_sub_streams (sample_dsfh zero) (sample_strm zero) 5 (Some 800))
     = Ok (Some (Fin False 910))"
  by (simp add: build_comprehensive_metadata_def core_of_chunks_def with_fallbacks_def band_center_def
      two_sub_streams_def parse_state_default_def Let_def insertion_order_def reverse_order_def
      sub_stream_info_of_def sample_sstr_def lit_def round_simps rnds_def)

section \<open>Start and end\<close>

lemma seconds_to_ns_le: "seconds_to_ns x \<le> USIZE_MAX"
  using to_int_bounds [of 0 "int USIZE_MAX"] by (simp add: seconds_to_ns_def to_u64_def nat_le_iff)

lemma ten_to_nine: "lit B64 1000000000 = Fin False 1000000000"
  by (simp add: lit_def round_simps)

lemma five_from_zero: "0 < seconds_to_ns (fadd B64 (Fin False 5) zero)"
  by (simp add: seconds_to_ns_def to_u64_def ten_to_nine zero_def round_simps rnds_def USIZE_MAX_def)

text \<open>
  C: a recording whose stream head gives a start keeps it, and its end, when there is one, is
  not before it.
\<close>

theorem end_not_before_start:
  assumes "build_comprehensive_metadata it p d strm iq so = Ok m"
    and "seconds_to_ns (fadd B64 (strm_start_time strm) (case capture_start_offset strm of Some v \<Rightarrow> v | None \<Rightarrow> zero)) = t"
    and "0 < t"
  shows "start_time_ns m = t \<and> (end_time_ns m = 0 \<or> t \<le> end_time_ns m)"
proof -
  from assms(1) obtain core where core: "core_of_chunks p strm iq so = Ok core"
    and m: "start_time_ns m = c_start (with_fallbacks p d iq (sub_streams m) core)"
      "end_time_ns m = c_end (with_fallbacks p d iq (sub_streams m) core)"
    by (auto simp: build_comprehensive_metadata_def Let_def)
  have start: "c_start core = t"
    using core assms(2) by (auto simp: core_of_chunks_def Let_def split: option.splits if_splits)
  have "t \<le> USIZE_MAX" using assms(2) seconds_to_ns_le by blast
  then have "c_end core = 0 \<or> t \<le> c_end core"
    using core assms(2)
    by (auto simp: core_of_chunks_def Let_def le_sat_add1 split: option.splits if_splits)
  with m start assms(3) \<open>t \<le> USIZE_MAX\<close> show ?thesis
    by (auto simp: with_fallbacks_def Let_def le_sat_add1)
qed

theorem end_not_before_start_witness:
  "\<exists>m. build_comprehensive_metadata insertion_order two_sub_streams (sample_dsfh zero)
         (sample_strm (Fin False 5)) 5 (Some 800) = Ok m
     \<and> start_time_ns m = seconds_to_ns (fadd B64 (Fin False 5) zero)"
proof -
  obtain m where m: "build_comprehensive_metadata insertion_order two_sub_streams (sample_dsfh zero) (sample_strm (Fin False 5)) 5 (Some 800) = Ok m"
    using two_sub_streams_metadata by blast
  moreover have "start_time_ns m = seconds_to_ns (fadd B64 (Fin False 5) zero)"
    using end_not_before_start [OF m refl] five_from_zero by (simp add: sample_strm_def)
  ultimately show ?thesis by blast
qed

definition tail_of_five_seconds :: strt_chunk where
  "tail_of_five_seconds = \<lparr>strt_header = made_header ''STRT'' 96 0 80, strt_stream_offset = 64,
     strt_sub_stream_offset = 0, strt_preview_offset = 0, strt_num_samples = 1,
     strt_payload_size = 8, strt_preview_levels = 0, strt_num_previews = 0,
     strt_num_preview_segments = 0, strt_end_time = Fin False 5, strt_antenna_offset = 0,
     strt_metadata_offset = 0\<rparr>"

definition headless_capture :: rtsa_parse_state where
  "headless_capture = parse_state_default\<lparr>strt := Some tail_of_five_seconds,
     sstr_chunks := [(1, (sample_sstr 1 0)\<lparr>sstr_frequency_step := Fin False 1000, sstr_frequency_span := Fin False 1000\<rparr>)],
     samp_offsets := [(104, sample_samp)]\<rparr>"

lemma five_seconds_ns: "seconds_to_ns (Fin False 5) = 5000000000"
  by (simp add: seconds_to_ns_def to_u64_def USIZE_MAX_def ten_to_nine round_simps)

lemma epoch_ns: "seconds_to_ns (rtsa_epoch_seconds (Fin False 1600000000)) = 1600000000000000000"
  by (simp add: rtsa_epoch_seconds_def seconds_to_ns_def to_u64_def USIZE_MAX_def lit_def zero_def round_simps)

lemma zero_seconds_ns: "seconds_to_ns (fadd B64 zero zero) = 0"
  by (simp add: seconds_to_ns_def to_u64_def zero_def round_simps rnds_def lit_def)

lemma five_positive: "flt zero (Fin False 5)"
  by (simp add: zero_def)

text \<open>
  C: when the stream head gives no start, the file's creation time takes its place, but only
  after the end was computed from the start that was not there: the recording is reported to
  end before it starts, and validation rejects it.
\<close>

theorem fallback_start_passes_end:
  "\<exists>m. build_comprehensive_metadata insertion_order headless_capture
         (sample_dsfh (Fin False 1600000000)) (sample_strm zero) 5 None = Ok m
     \<and> start_time_ns m = 1600000000000000000 \<and> end_time_ns m = 5000000000
     \<and> \<not> valid (validate_structure m)"
  by (simp add: build_comprehensive_metadata_def core_of_chunks_def with_fallbacks_def
      headless_capture_def parse_state_default_def insertion_order_def Let_def sample_samp_def
      sample_sstr_def sub_stream_info_of_def tail_of_five_seconds_def sample_strm_def sample_dsfh_def
      zero_seconds_ns five_seconds_ns epoch_ns sat_add_def USIZE_MAX_def five_positive validate_structure_def)

end
