(* ===== verification/Unified_Config.thy ===== *)
theory Unified_Config
  imports Utils Stream_Format Capabilities
begin

text \<open>
  Choosing and reaching a source (\<open>src/src/unified_source.rs\<close>): the configuration and its
  builder, the selection of the backend, the checks before it is built, and the retries of the
  first connection. The definitions are those of the default features of the crate: the native
  SDK is not compiled in. Durations are nanoseconds.
\<close>

section \<open>Configuration\<close>

datatype source_type = NativeSdkSource | HttpSource | FileSource

definition millis :: "nat \<Rightarrow> nat" where "millis n = n * 1000000"

definition DEFAULT_READ_TIMEOUT :: nat where "DEFAULT_READ_TIMEOUT = millis 30000"

record spectran_config =
  sc_native :: native_receiver_options
  sc_center_frequency_hz :: f64
  sc_sample_rate_hz :: f64
  sc_bandwidth_hz :: f64
  sc_reference_level_dbm :: f64
  sc_device_serial :: "string option"
  sc_http_base_url :: "string option"
  sc_file_path :: "string option"
  force_source_type :: "source_type option"
  sc_stream_format :: "stream_format option"
  sc_stream_scale :: "f64 option"
  sc_receiver_channel :: "rx_channel option"
  read_timeout :: nat
  auto_reconnect :: bool

definition native_options_default :: native_receiver_options where
  "native_options_default =
     \<lparr>nro_family = None, nro_mode = None, nro_rf_span_hz = None, nro_receiver_clock = None,
      decimation_factor = None\<rparr>"

definition config_default :: spectran_config where
  "config_default =
     \<lparr>sc_native = native_options_default, sc_center_frequency_hz = lit B64 2440000000,
      sc_sample_rate_hz = lit B64 15360000, sc_bandwidth_hz = zero,
      sc_reference_level_dbm = lit B64 (- 20), sc_device_serial = None, sc_http_base_url = None,
      sc_file_path = None, force_source_type = None, sc_stream_format = None,
      sc_stream_scale = None, sc_receiver_channel = None, read_timeout = DEFAULT_READ_TIMEOUT,
      auto_reconnect = True\<rparr>"

definition from_file :: "string \<Rightarrow> spectran_config" where
  "from_file path = config_default\<lparr>sc_file_path := Some path, force_source_type := Some FileSource\<rparr>"

definition from_http :: "string \<Rightarrow> spectran_config" where
  "from_http url = config_default\<lparr>sc_http_base_url := Some url, force_source_type := Some HttpSource\<rparr>"

text \<open>The consuming setters of the configuration.\<close>

datatype config_call =
    ForceNativeSdk | CenterFrequency f64 | SampleRate f64 | ReferenceLevel f64
  | WireFormat stream_format | WireScale f64 | LowBandwidthMode | DeviceSerial string
  | ReceiverChannel rx_channel | ReadTimeout nat | AutoReconnect bool

fun apply_config_call :: "config_call \<Rightarrow> spectran_config \<Rightarrow> spectran_config" where
  "apply_config_call ForceNativeSdk c = c\<lparr>force_source_type := Some NativeSdkSource\<rparr>"
| "apply_config_call (CenterFrequency hz) c = c\<lparr>sc_center_frequency_hz := hz\<rparr>"
| "apply_config_call (SampleRate hz) c = c\<lparr>sc_sample_rate_hz := hz\<rparr>"
| "apply_config_call (ReferenceLevel dbm) c = c\<lparr>sc_reference_level_dbm := dbm\<rparr>"
| "apply_config_call (WireFormat f) c = c\<lparr>sc_stream_format := Some f\<rparr>"
| "apply_config_call (WireScale s) c = c\<lparr>sc_stream_scale := Some s\<rparr>"
| "apply_config_call LowBandwidthMode c = c\<lparr>sc_stream_format := Some Int16, sc_stream_scale := Some (lit B64 32767)\<rparr>"
| "apply_config_call (DeviceSerial s) c = c\<lparr>sc_device_serial := Some s\<rparr>"
| "apply_config_call (ReceiverChannel ch) c = c\<lparr>sc_receiver_channel := Some ch\<rparr>"
| "apply_config_call (ReadTimeout t) c = c\<lparr>read_timeout := t\<rparr>"
| "apply_config_call (AutoReconnect b) c = c\<lparr>auto_reconnect := b\<rparr>"

text \<open>The builder has the same settings and those that name the source.\<close>

datatype builder_call =
    BSetting config_call | BNativeOptions native_receiver_options | BRfSpan f64
  | BHttpSource string | BFileSource string | BForceSourceType source_type

fun apply_builder_call :: "builder_call \<Rightarrow> spectran_config \<Rightarrow> spectran_config" where
  "apply_builder_call (BSetting s) c = apply_config_call s c"
| "apply_builder_call (BNativeOptions opts) c = c\<lparr>sc_native := opts\<rparr>"
| "apply_builder_call (BRfSpan hz) c = c\<lparr>sc_native := (sc_native c)\<lparr>nro_rf_span_hz := Some hz\<rparr>\<rparr>"
| "apply_builder_call (BHttpSource url) c = c\<lparr>sc_http_base_url := Some url\<rparr>"
| "apply_builder_call (BFileSource path) c = c\<lparr>sc_file_path := Some path\<rparr>"
| "apply_builder_call (BForceSourceType t) c = c\<lparr>force_source_type := Some t\<rparr>"

section \<open>Selecting a backend\<close>

text \<open>\<open>exists\<close> says which paths exist.\<close>

definition detect_best_source_type :: "(string \<Rightarrow> bool) \<Rightarrow> spectran_config \<Rightarrow> source_type result" where
  "detect_best_source_type exists c =
     (case sc_file_path c of
        Some path \<Rightarrow>
          if exists path then Ok FileSource else Err (Config ''File path provided but file not found: '')
      | None \<Rightarrow> (case sc_http_base_url c of Some url \<Rightarrow> Ok HttpSource | None \<Rightarrow> Ok HttpSource))"

definition select_source_type :: "(string \<Rightarrow> bool) \<Rightarrow> spectran_config \<Rightarrow> source_type result" where
  "select_source_type exists c =
     (case force_source_type c of Some t \<Rightarrow> Ok t | None \<Rightarrow> detect_best_source_type exists c)"

text \<open>What \<open>new\<close> checks between the selection and the initialisation.\<close>

definition validate_config :: "source_type \<Rightarrow> spectran_config \<Rightarrow> unit result" where
  "validate_config t c =
     (if sc_native c \<noteq> native_options_default \<and> t \<noteq> NativeSdkSource
      then Err (Config ''native receiver options require the native SDK backend'')
      else if (case nro_mode (sc_native c) of Some m \<Rightarrow> m \<noteq> ''raw'' \<and> m \<noteq> ''iqreceiver'' | None \<Rightarrow> False)
      then Err (Config ''receive mode must be raw or iqreceiver'')
      else if (case nro_family (sc_native c) of Some f \<Rightarrow> f = [] \<or> CHR ''/'' \<in> set f | None \<Rightarrow> False)
      then Err (Config ''native family must be a bare SDK family name'')
      else if t = HttpSource then validate_iq_mode (sc_sample_rate_hz c) DEFAULT_RECEIVER_CLOCK_HZ
      else Ok ())"

section \<open>The first connection\<close>

definition CONNECT_ATTEMPTS :: nat where "CONNECT_ATTEMPTS = 4"
definition CONNECT_BACKOFF_INITIAL :: nat where "CONNECT_BACKOFF_INITIAL = millis 250"
definition CONNECT_BACKOFF_MAX :: nat where "CONNECT_BACKOFF_MAX = millis 2000"
definition CONNECT_TOTAL_BUDGET :: nat where "CONNECT_TOTAL_BUDGET = millis 10000"

fun is_retryable :: "error \<Rightarrow> bool" where
  "is_retryable (Transport s) = True"
| "is_retryable (Http status s) = (500 \<le> status \<and> status < 600 \<or> status = 408 \<or> status = 429)"
| "is_retryable e = False"

text \<open>
  \<open>op k\<close> is how the \<open>k\<close>-th attempt ends and how long after the first attempt began. The
  waits between the attempts are returned with the outcome.
\<close>

function retry_loop :: "(nat \<Rightarrow> 'a result \<times> nat) \<Rightarrow> nat \<Rightarrow> nat \<Rightarrow> 'a result \<times> nat list" where
  "retry_loop op attempt backoff =
     (case op attempt of
        (Inr v, elapsed) \<Rightarrow> (Ok v, [])
      | (Inl e, elapsed) \<Rightarrow>
          if attempt < CONNECT_ATTEMPTS \<and> is_retryable e
          then if CONNECT_TOTAL_BUDGET \<le> elapsed + backoff then (Err e, [])
               else let (r, waits) = retry_loop op (attempt + 1) (min (backoff * 2) CONNECT_BACKOFF_MAX)
                    in (r, backoff # waits)
          else (Err e, []))"
  by pat_completeness auto
termination by (relation "measure (\<lambda>(op, attempt, backoff). CONNECT_ATTEMPTS - attempt)") auto

declare retry_loop.simps [simp del]

definition retry_connect :: "(nat \<Rightarrow> 'a result \<times> nat) \<Rightarrow> 'a result \<times> nat list" where
  "retry_connect op = retry_loop op 1 CONNECT_BACKOFF_INITIAL"

text \<open>An attempt is followed by another exactly when it failed in a way that may pass.\<close>

definition goes_on :: "'a result \<times> nat \<Rightarrow> nat \<Rightarrow> bool" where
  "goes_on answer wait = (case answer of
     (Inr v, elapsed) \<Rightarrow> False
   | (Inl e, elapsed) \<Rightarrow> is_retryable e \<and> elapsed + wait < CONNECT_TOTAL_BUDGET)"

definition connect_waits :: "nat list" where
  "connect_waits = [millis 250, millis 500, millis 1000]"

lemma retry_loop_step:
  assumes "attempt < CONNECT_ATTEMPTS"
  shows "retry_loop op attempt backoff =
    (if goes_on (op attempt) backoff
     then (fst (retry_loop op (attempt + 1) (min (backoff * 2) CONNECT_BACKOFF_MAX)),
           backoff # snd (retry_loop op (attempt + 1) (min (backoff * 2) CONNECT_BACKOFF_MAX)))
     else (fst (op attempt), []))"
  using assms
  by (subst retry_loop.simps) (auto simp: goes_on_def split: prod.split sum.split)

lemma retry_loop_last: "retry_loop op CONNECT_ATTEMPTS backoff = (fst (op CONNECT_ATTEMPTS), [])"
  by (subst retry_loop.simps) (auto split: prod.split sum.split)

text \<open>
  C31: C: connecting makes attempts until one succeeds, fails for good, is the fourth, or leaves no
  room in the ten seconds for another; it waits 250, 500 and 1000 milliseconds between them and
  returns the answer of its last attempt.
\<close>

theorem connect_retries:
  "let (r, waits) = retry_connect op; n = length waits
   in n \<le> 3 \<and> waits = take n connect_waits \<and> r = fst (op (n + 1))
      \<and> list_all (\<lambda>(k, wait). goes_on (op (k + 1)) wait) (enumerate 0 waits)
      \<and> (n = 3 \<or> goes_on (op (n + 1)) (connect_waits ! n) = False)"
proof -
  let ?b = "CONNECT_BACKOFF_INITIAL"
  have b: "?b = millis 250" "min (?b * 2) CONNECT_BACKOFF_MAX = millis 500"
    "min (millis 500 * 2) CONNECT_BACKOFF_MAX = millis 1000"
    by (simp_all add: CONNECT_BACKOFF_INITIAL_def CONNECT_BACKOFF_MAX_def millis_def)
  have a: "CONNECT_ATTEMPTS = 4" by (simp add: CONNECT_ATTEMPTS_def)
  have last: "retry_loop op 4 x = (fst (op 4), [])" for x
    using retry_loop_last [of op x] by (simp add: a)
  have s1: "retry_loop op 1 ?b = (if goes_on (op 1) (millis 250)
      then (fst (retry_loop op 2 (millis 500)), millis 250 # snd (retry_loop op 2 (millis 500)))
      else (fst (op 1), []))"
    using retry_loop_step [of 1 op ?b] b by (simp add: a numeral_2_eq_2)
  have s2: "retry_loop op 2 (millis 500) = (if goes_on (op 2) (millis 500)
      then (fst (retry_loop op 3 (millis 1000)), millis 500 # snd (retry_loop op 3 (millis 1000)))
      else (fst (op 2), []))"
    using retry_loop_step [of 2 op "millis 500"] b by (simp add: a)
  have s3: "retry_loop op 3 (millis 1000) = (if goes_on (op 3) (millis 1000)
      then (fst (op 4), [millis 1000]) else (fst (op 3), []))"
    using retry_loop_step [of 3 op "millis 1000"] by (simp add: a last)
  show ?thesis
    unfolding retry_connect_def s1 s2 s3
    by (simp add: connect_waits_def eval_nat_numeral)
qed

end
