(* ===== verification/Unified_Reader.thy ===== *)
theory Unified_Reader
  imports Unified_Config Drop_Detector
begin

text \<open>
  The background reader of the unified HTTP source (\<open>init_http_source\<close> of
  \<open>src/src/unified_source.rs\<close>): a state machine over the events of its connections. It
  forwards the IQ packets with their marks, counts errors, reconnects within a budget and
  writes the tuning again.
\<close>

definition MAX_RECONNECT_ATTEMPTS :: nat where "MAX_RECONNECT_ATTEMPTS = 5"
definition RECONNECT_BACKOFF_INITIAL :: nat where "RECONNECT_BACKOFF_INITIAL = millis 250"
definition RECONNECT_BACKOFF_MAX :: nat where "RECONNECT_BACKOFF_MAX = millis 4000"
definition RECONNECT_HEALTHY_AFTER :: nat where "RECONNECT_HEALTHY_AFTER = millis 30000"
definition MAX_CONSECUTIVE_STREAM_ERRORS :: nat where "MAX_CONSECUTIVE_STREAM_ERRORS = 5"

text \<open>The decision and the attempt counted.\<close>

definition should_reconnect :: "bool \<Rightarrow> nat \<Rightarrow> bool \<times> nat" where
  "should_reconnect auto attempts =
     (if \<not> auto then (False, attempts)
      else if MAX_RECONNECT_ATTEMPTS \<le> attempts then (False, attempts)
      else (True, attempts + 1))"

record capture_tuning =
  ct_center_frequency_hz :: f64
  ct_sample_rate_hz :: f64
  ct_reference_level_dbm :: f64

record observed_stream =
  ob_sample_rate_hz :: f64
  ob_center_frequency_hz :: f64
  ob_bandwidth_hz :: f64

definition observed_default :: observed_stream where
  "observed_default = \<lparr>ob_sample_rate_hz = zero, ob_center_frequency_hz = zero, ob_bandwidth_hz = zero\<rparr>"

text \<open>What the reader sends for one packet.\<close>

record http_item =
  it_samples :: "complex32 list"
  it_dropped :: bool
  it_cumulative_drops :: nat
  it_timestamp_ns :: int
  it_center_hz :: f64
  it_rate_hz :: f64

text \<open>
  The reader is opening a connection, receiving (with the errors in a row and the instant the
  connection was made), waiting for the answer to the renewed tuning, or has ended.
\<close>

datatype reader_mode = Opening | Receiving nat nat | Retuning | Finished

record http_reader =
  hr_mode :: reader_mode
  hr_detector :: drop_detector
  reconnects :: nat
  backoff :: nat
  flag_overrun_after_gap :: bool
  delivered_any :: bool
  observed :: observed_stream
  rate_seen :: f64
  hr_sent :: "http_item list"
  hr_waits :: "nat list"
  hr_tunings :: "(capture_tuning \<times> bool) list"

definition reader_new :: http_reader where
  "reader_new =
     \<lparr>hr_mode = Opening, hr_detector = detector_default, reconnects = 0,
      backoff = RECONNECT_BACKOFF_INITIAL, flag_overrun_after_gap = False, delivered_any = False,
      observed = observed_default, rate_seen = zero, hr_sent = [], hr_waits = [], hr_tunings = []\<rparr>"

text \<open>
  An event is the answer to whatever the reader waits for: a connection opened at an instant or
  refused; a packet (and whether the receiving end still takes it), a stream error or the end of
  the stream, at an instant; the answer to the tuning asked for.
\<close>

datatype stream_event =
    Opened nat | OpenFailed | Arrived stream_packet bool | StreamError nat | StreamEnded nat
  | Retuned capture_tuning bool

definition note_observed :: "streaming_sdr_config \<Rightarrow> http_reader \<Rightarrow> http_reader" where
  "note_observed cfg r =
     (let o1 = observed r;
          o2 = (if flt zero (cfg_sample_rate_hz cfg)
                then o1\<lparr>ob_sample_rate_hz := cfg_sample_rate_hz cfg\<rparr> else o1);
          o3 = (if flt zero (cfg_center_frequency_hz cfg)
                then o2\<lparr>ob_center_frequency_hz := cfg_center_frequency_hz cfg\<rparr> else o2);
          o4 = (if flt zero (cfg_bandwidth_hz cfg)
                then o3\<lparr>ob_bandwidth_hz := cfg_bandwidth_hz cfg\<rparr> else o3)
      in r\<lparr>observed := o4,
           rate_seen := (if flt zero (cfg_sample_rate_hz cfg) then cfg_sample_rate_hz cfg else rate_seen r)\<rparr>)"

fun is_gap :: "drop_result \<Rightarrow> bool" where
  "is_gap (Drop g) = True"
| "is_gap (Backward g) = True"
| "is_gap Continuous = False"

text \<open>
  One IQ packet: the pending flag is taken only when the detector saw no gap of its own.
\<close>

definition forward_packet :: "stream_packet \<Rightarrow> bool \<Rightarrow> http_reader \<Rightarrow> http_reader" where
  "forward_packet p taken r0 =
     (let r = note_observed (sdr_config p) r0;
          (seen, d) = detector_observe p (hr_detector r);
          dropped = (is_gap seen \<or> flag_overrun_after_gap r);
          item = \<lparr>it_samples = pkt_samples p, it_dropped = dropped, it_cumulative_drops = drops d,
                  it_timestamp_ns = to_i64 (fmul B64 (start_time (metadata p)) (lit B64 1000000000)),
                  it_center_hz = cfg_center_frequency_hz (sdr_config p),
                  it_rate_hz = cfg_sample_rate_hz (sdr_config p)\<rparr>;
          r = r\<lparr>hr_detector := d,
                flag_overrun_after_gap := (if is_gap seen then flag_overrun_after_gap r else False)\<rparr>
      in if taken then r\<lparr>hr_sent := hr_sent r @ [item], delivered_any := True\<rparr>
         else r\<lparr>hr_mode := Finished\<rparr>)"

text \<open>The attempt is counted and waited for.\<close>

definition reconnect :: "bool \<Rightarrow> http_reader \<Rightarrow> http_reader option" where
  "reconnect auto r =
     (case should_reconnect auto (reconnects r) of
        (False, n) \<Rightarrow> None
      | (True, n) \<Rightarrow> Some (r\<lparr>reconnects := n, hr_waits := hr_waits r @ [backoff r],
                           backoff := min (backoff r * 2) RECONNECT_BACKOFF_MAX\<rparr>))"

definition connection_lost :: "bool \<Rightarrow> nat \<Rightarrow> nat \<Rightarrow> http_reader \<Rightarrow> http_reader" where
  "connection_lost auto connected_at now r =
     (let r = (if RECONNECT_HEALTHY_AFTER \<le> now - connected_at
               then r\<lparr>reconnects := 0, backoff := RECONNECT_BACKOFF_INITIAL\<rparr> else r)
      in case reconnect auto r of
           None \<Rightarrow> r\<lparr>hr_mode := Finished\<rparr>
         | Some r' \<Rightarrow> r'\<lparr>hr_mode := Retuning\<rparr>)"

definition open_failed :: "bool \<Rightarrow> http_reader \<Rightarrow> http_reader" where
  "open_failed auto r =
     (case reconnect auto r of
        None \<Rightarrow> r\<lparr>hr_mode := Finished\<rparr>
      | Some r' \<Rightarrow> r'\<lparr>flag_overrun_after_gap := delivered_any r\<rparr>)"

definition retuned :: "capture_tuning \<Rightarrow> bool \<Rightarrow> http_reader \<Rightarrow> http_reader" where
  "retuned desired ok r =
     r\<lparr>hr_tunings := hr_tunings r @ [(desired, ok)], hr_detector := detector_resync (hr_detector r),
       flag_overrun_after_gap := True, hr_mode := Opening\<rparr>"

text \<open>An event the reader is not waiting for does not occur.\<close>

fun reader_step :: "bool \<Rightarrow> stream_event \<Rightarrow> http_reader \<Rightarrow> http_reader" where
  "reader_step auto e r =
     (case (hr_mode r, e) of
        (Opening, Opened now) \<Rightarrow> r\<lparr>hr_mode := Receiving 0 now\<rparr>
      | (Opening, OpenFailed) \<Rightarrow> open_failed auto r
      | (Receiving errors since, Arrived p taken) \<Rightarrow>
          let r = r\<lparr>hr_mode := Receiving 0 since\<rparr>
          in if payload (metadata p) = Iq then forward_packet p taken r else r
      | (Receiving errors since, StreamError now) \<Rightarrow>
          if MAX_CONSECUTIVE_STREAM_ERRORS \<le> errors + 1
          then connection_lost auto since now (r\<lparr>hr_mode := Receiving (errors + 1) since\<rparr>)
          else r\<lparr>hr_mode := Receiving (errors + 1) since\<rparr>
      | (Receiving errors since, StreamEnded now) \<Rightarrow> connection_lost auto since now r
      | (Retuning, Retuned desired ok) \<Rightarrow> retuned desired ok r
      | _ \<Rightarrow> r)"

declare reader_step.simps [simp del]

definition reader_run :: "bool \<Rightarrow> stream_event list \<Rightarrow> http_reader \<Rightarrow> http_reader" where
  "reader_run auto es r = fold (reader_step auto) es r"

lemma reader_run_simps [simp]:
  "reader_run auto [] r = r"
  "reader_run auto (e # es) r = reader_run auto es (reader_step auto e r)"
  "reader_run auto (es @ es') r = reader_run auto es' (reader_run auto es r)"
  by (simp_all add: reader_run_def)


section \<open>The budget of reconnections\<close>

definition backoff_at :: "nat \<Rightarrow> nat" where
  "backoff_at k = min (RECONNECT_BACKOFF_INITIAL * 2 ^ k) RECONNECT_BACKOFF_MAX"

fun instant_of :: "stream_event \<Rightarrow> nat option" where
  "instant_of (Opened now) = Some now"
| "instant_of (StreamError now) = Some now"
| "instant_of (StreamEnded now) = Some now"
| "instant_of e = None"

definition unhealthy :: "stream_event \<Rightarrow> bool" where
  "unhealthy e = (case instant_of e of Some now \<Rightarrow> now < RECONNECT_HEALTHY_AFTER | None \<Rightarrow> True)"

definition on_budget :: "http_reader \<Rightarrow> bool" where
  "on_budget r \<longleftrightarrow> reconnects r \<le> MAX_RECONNECT_ATTEMPTS \<and> backoff r = backoff_at (reconnects r)
     \<and> hr_waits r = map backoff_at [0..<reconnects r]"

lemma backoff_doubles: "min (backoff_at k * 2) RECONNECT_BACKOFF_MAX = backoff_at (Suc k)"
  by (simp add: backoff_at_def min_def)

lemma on_budget_frame [simp]:
  "on_budget (r\<lparr>hr_mode := m\<rparr>) = on_budget r"
  "on_budget (r\<lparr>flag_overrun_after_gap := b\<rparr>) = on_budget r"
  "on_budget (r\<lparr>hr_detector := d\<rparr>) = on_budget r"
  "on_budget (r\<lparr>hr_tunings := ts\<rparr>) = on_budget r"
  "on_budget (r\<lparr>hr_sent := xs\<rparr>) = on_budget r"
  "on_budget (r\<lparr>delivered_any := b\<rparr>) = on_budget r"
  "on_budget (note_observed cfg r) = on_budget r"
  by (simp_all add: on_budget_def note_observed_def Let_def)

lemma reconnect_on_budget: "on_budget r \<Longrightarrow> reconnect auto r = Some r' \<Longrightarrow> on_budget r'"
  by (auto simp: on_budget_def reconnect_def should_reconnect_def backoff_doubles split: if_splits prod.splits bool.splits)

lemma forward_on_budget [simp]: "on_budget (forward_packet p taken r) = on_budget r"
  by (simp add: forward_packet_def Let_def split: prod.split)

lemma connection_lost_on_budget:
  "on_budget r \<Longrightarrow> now < RECONNECT_HEALTHY_AFTER \<Longrightarrow> on_budget (connection_lost auto since now r)"
  by (auto simp: connection_lost_def Let_def split: option.split dest: reconnect_on_budget)

lemma open_failed_on_budget: "on_budget r \<Longrightarrow> on_budget (open_failed auto r)"
  by (auto simp: open_failed_def split: option.split dest: reconnect_on_budget)

lemma reader_step_on_budget:
  assumes "on_budget r" "unhealthy e"
  shows "on_budget (reader_step auto e r)"
  using assms
  by (cases e) (simp_all add: reader_step.simps retuned_def unhealthy_def Let_def connection_lost_on_budget
      open_failed_on_budget split: reader_mode.split)

lemma reader_run_on_budget:
  "on_budget r \<Longrightarrow> list_all unhealthy es \<Longrightarrow> on_budget (reader_run auto es r)"
  by (induction es arbitrary: r) (simp_all add: reader_step_on_budget)

lemma reader_new_on_budget: "on_budget reader_new"
  by (simp add: on_budget_def reader_new_def backoff_at_def RECONNECT_BACKOFF_INITIAL_def
      RECONNECT_BACKOFF_MAX_def millis_def)

lemma waits_bounded: "n \<le> 5 \<Longrightarrow> sum_list (map backoff_at [0..<n]) \<le> millis 7750"
proof -
  have m: "sum_list (map backoff_at [0..<m]) \<le> sum_list (map backoff_at [0..<m + k])" for m k
    by (induction k) simp_all
  assume "n \<le> 5"
  then obtain k where "n + k = 5" using le_Suc_ex by metis
  then have "sum_list (map backoff_at [0..<n]) \<le> sum_list (map backoff_at [0..<5])" using m [of n k] by simp
  also have "\<dots> = millis 7750"
    by (simp add: upt_rec backoff_at_def RECONNECT_BACKOFF_INITIAL_def RECONNECT_BACKOFF_MAX_def millis_def)
  finally show ?thesis .
qed


definition refusals :: "stream_event list" where
  "refusals = [OpenFailed, OpenFailed, OpenFailed, OpenFailed, OpenFailed, OpenFailed]"


section \<open>A reconnection is a gap\<close>

definition tells_gaps :: "http_reader \<Rightarrow> bool" where
  "tells_gaps r \<longleftrightarrow> (delivered_any r \<longleftrightarrow> hr_sent r \<noteq> [])
     \<and> (hr_mode r = Opening \<and> delivered_any r \<longrightarrow> flag_overrun_after_gap r)
     \<and> (flag_overrun_after_gap r \<longrightarrow> last_end_time (hr_detector r) = None)"

lemma note_observed_frame [simp]:
  "hr_mode (note_observed cfg r) = hr_mode r" "hr_sent (note_observed cfg r) = hr_sent r"
  "delivered_any (note_observed cfg r) = delivered_any r" "hr_detector (note_observed cfg r) = hr_detector r"
  "flag_overrun_after_gap (note_observed cfg r) = flag_overrun_after_gap r"
  by (simp_all add: note_observed_def Let_def)

lemma reconnect_frame:
  "reconnect auto r = Some r' \<Longrightarrow> hr_mode r' = hr_mode r \<and> hr_sent r' = hr_sent r \<and> delivered_any r' = delivered_any r
     \<and> hr_detector r' = hr_detector r \<and> flag_overrun_after_gap r' = flag_overrun_after_gap r"
  by (auto simp: reconnect_def split: prod.splits bool.splits)

lemma fresh_detector_sees_no_gap:
  "last_end_time d = None \<Longrightarrow> fst (detector_observe p d) = Continuous"
  by (simp add: detector_observe_def Let_def)

lemma resync_fresh [simp]: "last_end_time (detector_resync d) = None"
  by (simp add: detector_resync_def)

lemma connection_lost_frame [simp]:
  "hr_sent (connection_lost auto since now r) = hr_sent r"
  "delivered_any (connection_lost auto since now r) = delivered_any r"
  "hr_detector (connection_lost auto since now r) = hr_detector r"
  "flag_overrun_after_gap (connection_lost auto since now r) = flag_overrun_after_gap r"
  "hr_mode (connection_lost auto since now r) \<noteq> Opening"
  by (auto simp: connection_lost_def Let_def split: option.split dest: reconnect_frame)

lemma open_failed_frame [simp]:
  "hr_sent (open_failed auto r) = hr_sent r"
  "delivered_any (open_failed auto r) = delivered_any r"
  "hr_detector (open_failed auto r) = hr_detector r"
  by (auto simp: open_failed_def split: option.split dest: reconnect_frame)

lemma open_failed_flag:
  "hr_mode r = Opening \<Longrightarrow>
   hr_mode (open_failed auto r) = Finished \<and> flag_overrun_after_gap (open_failed auto r) = flag_overrun_after_gap r
   \<or> hr_mode (open_failed auto r) = Opening \<and> flag_overrun_after_gap (open_failed auto r) = delivered_any r"
  by (auto simp: open_failed_def split: option.split dest: reconnect_frame)

lemma forward_tells_gaps:
  assumes "tells_gaps r" "hr_mode r = Receiving n t"
  shows "tells_gaps (forward_packet p taken r)"
  using assms fresh_detector_sees_no_gap [of "hr_detector r" p]
  by (auto simp: forward_packet_def tells_gaps_def Let_def split: prod.split if_splits)

lemma reader_step_tells_gaps:
  assumes "tells_gaps r"
  shows "tells_gaps (reader_step auto e r)"
proof (cases "hr_mode r")
  case Opening
  show ?thesis
  proof (cases e)
    case OpenFailed
    then show ?thesis
      using assms Opening open_failed_flag [OF Opening, of auto]
      by (auto simp: reader_step.simps tells_gaps_def)
  qed (use assms Opening in \<open>auto simp: reader_step.simps tells_gaps_def\<close>)
next
  case (Receiving n t)
  then have "tells_gaps (r\<lparr>hr_mode := Receiving m t\<rparr>)" for m
    using assms by (simp add: tells_gaps_def)
  then have "tells_gaps (forward_packet p taken (r\<lparr>hr_mode := Receiving 0 t\<rparr>))" for p taken
    by (rule forward_tells_gaps) simp
  moreover have "tells_gaps (connection_lost auto t now r')"
    if "tells_gaps r'" for now r'
    using that by (simp add: tells_gaps_def)
  ultimately show ?thesis
    using assms Receiving \<open>\<And>m. tells_gaps (r\<lparr>hr_mode := Receiving m t\<rparr>)\<close>
    by (simp add: reader_step.simps Let_def split: stream_event.split)
next
  case Retuning
  then show ?thesis
    using assms by (auto simp: reader_step.simps tells_gaps_def retuned_def split: stream_event.split)
next
  case Finished
  then show ?thesis using assms by (auto simp: reader_step.simps split: stream_event.split)
qed

lemma reader_run_tells_gaps: "tells_gaps r \<Longrightarrow> tells_gaps (reader_run auto es r)"
  by (induction es arbitrary: r) (simp_all add: reader_step_tells_gaps)

lemma reader_new_tells_gaps: "tells_gaps reader_new"
  by (simp add: tells_gaps_def reader_new_def)

text \<open>Events that carry no IQ packet leave what was sent and the pending flag alone.\<close>

fun carries_iq :: "stream_event \<Rightarrow> bool" where
  "carries_iq (Arrived p taken) = (payload (metadata p) = Iq)"
| "carries_iq e = False"

definition flagged :: "http_reader \<Rightarrow> bool" where
  "flagged r \<longleftrightarrow> flag_overrun_after_gap r \<and> delivered_any r"

lemma quiet_step:
  assumes "flagged r" "\<not> carries_iq e"
  shows "flagged (reader_step auto e r) \<and> hr_sent (reader_step auto e r) = hr_sent r"
proof (cases "hr_mode r")
  case Opening
  then show ?thesis
    using assms open_failed_flag [OF Opening, of auto]
    by (auto simp: reader_step.simps flagged_def split: stream_event.split)
next
  case (Receiving n t)
  then show ?thesis
    using assms by (cases e) (auto simp: reader_step.simps flagged_def Let_def)
next
  case Retuning
  then show ?thesis
    using assms by (auto simp: reader_step.simps flagged_def retuned_def split: stream_event.split)
next
  case Finished
  then show ?thesis using assms by (auto simp: reader_step.simps split: stream_event.split)
qed

lemma quiet_run:
  "flagged r \<Longrightarrow> list_all (\<lambda>e. \<not> carries_iq e) es
   \<Longrightarrow> flagged (reader_run auto es r) \<and> hr_sent (reader_run auto es r) = hr_sent r"
  by (induction es arbitrary: r) (simp_all add: quiet_step)

text \<open>
  C15: C: whatever happens on the connections, the first packet forwarded after a reconnection, once
  anything was forwarded before, is marked as lying behind a gap.
\<close>

theorem reconnection_marks_gap:
  assumes "hr_mode (reader_run auto es reader_new) = Opening"
    and "hr_sent (reader_run auto es reader_new) \<noteq> []"
    and "list_all (\<lambda>e. \<not> carries_iq e) es'"
    and "hr_mode (reader_run auto (es @ es') reader_new) = Receiving n since"
    and "payload (metadata p) = Iq"
  shows "\<exists>item. hr_sent (reader_run auto (es @ es' @ [Arrived p True]) reader_new)
           = hr_sent (reader_run auto es reader_new) @ [item]
       \<and> it_samples item = pkt_samples p \<and> it_dropped item"
proof -
  let ?r = "reader_run auto es reader_new" and ?q = "reader_run auto (es @ es') reader_new"
  have "tells_gaps ?r" using reader_new_tells_gaps by (rule reader_run_tells_gaps)
  then have "flagged ?r" using assms(1,2) by (auto simp: tells_gaps_def flagged_def)
  from quiet_run [OF this assms(3)] have q: "flagged ?q" "hr_sent ?q = hr_sent ?r" by simp_all
  have "\<exists>item. hr_sent (reader_step auto (Arrived p True) ?q) = hr_sent ?q @ [item]
      \<and> it_samples item = pkt_samples p \<and> it_dropped item"
    using q(1) assms(4,5)
    by (auto simp: reader_step.simps forward_packet_def flagged_def Let_def split: prod.split)
  with q(2) show ?thesis by simp
qed

definition sample_tuning :: capture_tuning where
  "sample_tuning = \<lparr>ct_center_frequency_hz = zero, ct_sample_rate_hz = zero, ct_reference_level_dbm = zero\<rparr>"

lemma example_packet_iq: "payload (metadata (example_packet n)) = Iq"
  by (simp add: example_packet_def stream_packet_new_def example_metadata_def)

theorem reconnection_marks_gap_witness:
  "\<exists>item. hr_sent (reader_run True
       ([Opened 0, Arrived (example_packet 1) True, StreamEnded 1, Retuned sample_tuning True]
        @ [OpenFailed, Opened 9] @ [Arrived (example_packet 2) True]) reader_new)
     = hr_sent (reader_run True
       [Opened 0, Arrived (example_packet 1) True, StreamEnded 1, Retuned sample_tuning True] reader_new) @ [item]
     \<and> it_samples item = pkt_samples (example_packet 2) \<and> it_dropped item"
  by (rule reconnection_marks_gap)
    (simp_all add: reader_step.simps forward_packet_def connection_lost_def open_failed_def retuned_def
      reconnect_def should_reconnect_def reader_new_def example_packet_iq MAX_RECONNECT_ATTEMPTS_def
      RECONNECT_HEALTHY_AFTER_def millis_def Let_def note_observed_def split_beta)

section \<open>Two reconnections that go wrong\<close>

text \<open>
  C: a tuning that could not be written on the first attempt to reconnect is never written
  again: with the server away for longer than the first wait, the stream comes back on
  whatever the server is tuned to.
\<close>

theorem tuning_lost_after_restart:
  "let r = reader_run True
       [Opened 0, Arrived (example_packet 1) True, StreamEnded 1, Retuned sample_tuning False,
        OpenFailed, Opened 9, Arrived (example_packet 2) True] reader_new
   in hr_tunings r = [(sample_tuning, False)] \<and> length (hr_sent r) = 2"
  by (simp add: reader_step.simps forward_packet_def connection_lost_def open_failed_def retuned_def
      reconnect_def should_reconnect_def reader_new_def example_packet_iq MAX_RECONNECT_ATTEMPTS_def
      RECONNECT_HEALTHY_AFTER_def millis_def Let_def note_observed_def split_beta)

text \<open>
  C: a first connection that ends before any packet marks the very first packet as lying behind
  a gap, though nothing was lost; one that is refused does not.
\<close>

theorem first_packet_marked:
  "map it_dropped (hr_sent (reader_run True
     [Opened 0, StreamEnded 1, Retuned sample_tuning True, Opened 2, Arrived (example_packet 1) True] reader_new)) = [True]
   \<and> map it_dropped (hr_sent (reader_run True
     [OpenFailed, Opened 2, Arrived (example_packet 1) True] reader_new)) = [False]"
  by (simp add: reader_step.simps forward_packet_def connection_lost_def open_failed_def retuned_def
      reconnect_def should_reconnect_def reader_new_def example_packet_iq MAX_RECONNECT_ATTEMPTS_def
      RECONNECT_HEALTHY_AFTER_def millis_def Let_def note_observed_def split_beta fresh_detector_sees_no_gap
      detector_default_def detector_new_def)

end
