(* ===== verification/Unified_Source.thy ===== *)
theory Unified_Source
  imports Unified_Reader Endpoints File_Source
begin

text \<open>
  The unified source (\<open>SpectranSource\<close> of \<open>src/src/unified_source.rs\<close>): construction over
  HTTP or a capture file, the channel its background reader fills, reads that stop at gaps and
  retunes, the retune setters, stopping and starting. The answers of the server are inputs, and
  the tuples written to \<open>/control\<close> are kept, in order, in the field \<open>us_controls\<close>.
\<close>

section \<open>State\<close>

record item_channel =
  ic_queued :: "http_item list"
  ic_closed :: bool

type_synonym capture_request = "f64 \<times> f64 \<times> f32"

record unified_source =
  us_config :: spectran_config
  us_type :: source_type
  us_buffer :: "complex32 list"
  us_buffer_freq_hz :: f64
  us_buffer_rate_hz :: f64
  us_buffer_after_gap :: bool
  last_read_frequency_hz :: f64
  last_read_sample_rate_hz :: f64
  us_client :: "endpoints_client option"
  us_observed :: "observed_stream option"
  us_rate_bits :: "f64 option"
  us_tuning :: "capture_tuning option"
  us_file :: "rtsa_source option"
  us_receiver :: "item_channel option"
  us_task :: "http_reader option"
  us_pending_overrun :: bool
  us_cumulative_drops :: nat
  us_last_timestamp_ns :: int
  us_stream_params :: "stream_params option"
  us_controls :: "capture_request list"

definition unified_new :: "spectran_config \<Rightarrow> source_type \<Rightarrow> unified_source" where
  "unified_new c t =
     \<lparr>us_config = c, us_type = t, us_buffer = [], us_buffer_freq_hz = zero, us_buffer_rate_hz = zero,
      us_buffer_after_gap = False, last_read_frequency_hz = zero, last_read_sample_rate_hz = zero,
      us_client = None, us_observed = None, us_rate_bits = None, us_tuning = None, us_file = None,
      us_receiver = None, us_task = None, us_pending_overrun = False, us_cumulative_drops = 0,
      us_last_timestamp_ns = 0, us_stream_params = None, us_controls = []\<rparr>"

section \<open>Construction\<close>

text \<open>The tuple of a capture request: never a part of it.\<close>

definition capture_tuple :: "f64 \<Rightarrow> f64 \<Rightarrow> f64 \<Rightarrow> capture_request" where
  "capture_tuple center rate level = (center, rate, cast_fl B32 level)"

definition tuple_of_config :: "spectran_config \<Rightarrow> capture_request" where
  "tuple_of_config c = capture_tuple (sc_center_frequency_hz c) (sc_sample_rate_hz c) (sc_reference_level_dbm c)"

definition tuning_of_config :: "spectran_config \<Rightarrow> capture_tuning" where
  "tuning_of_config c =
     \<lparr>ct_center_frequency_hz = sc_center_frequency_hz c, ct_sample_rate_hz = sc_sample_rate_hz c,
      ct_reference_level_dbm = sc_reference_level_dbm c\<rparr>"

definition stream_params_of :: "spectran_config \<Rightarrow> stream_params" where
  "stream_params_of c =
     stream_params_new\<lparr>sp_stream_format := (case sc_stream_format c of Some f \<Rightarrow> f | None \<Rightarrow> Float32),
       sp_scale_factor := sc_stream_scale c\<rparr>"

text \<open>How building the client, the attempts to connect and those to tune end.\<close>

record init_answers =
  ia_client :: "unit result"
  ia_connect :: "nat \<Rightarrow> unit result \<times> nat"
  ia_tune :: "nat \<Rightarrow> unit result \<times> nat"

definition log_controls :: "capture_request list \<Rightarrow> unified_source \<Rightarrow> unified_source" where
  "log_controls ts s = s\<lparr>us_controls := us_controls s @ ts\<rparr>"

definition init_http_source :: "init_answers \<Rightarrow> unified_source \<Rightarrow> unit result \<times> unified_source" where
  "init_http_source env s =
     (let c = us_config s;
          base_url = (case sc_http_base_url c of Some u \<Rightarrow> u | None \<Rightarrow> ''http://localhost:54664'')
      in case ia_client env of
           Inl e \<Rightarrow> (Err e, s)
         | Inr _ \<Rightarrow>
             (case retry_connect (ia_connect env) of
                (Inl e, _) \<Rightarrow> (Err (Protocol ''Failed to connect to Aaronia RTSA Suite Pro at ''), s)
              | (Inr _, _) \<Rightarrow>
                  (case retry_connect (ia_tune env) of
                     (r, waits) \<Rightarrow>
                       let s = log_controls (replicate (length waits + 1) (tuple_of_config c)) s
                       in case r of
                            Inl e \<Rightarrow> (Err e, s)
                          | Inr _ \<Rightarrow>
                              (Ok (), s\<lparr>us_client := Some (endpoints_client_new base_url NoAuth),
                                 us_observed := Some observed_default, us_rate_bits := Some zero,
                                 us_tuning := Some (tuning_of_config c),
                                 us_receiver := Some \<lparr>ic_queued = [], ic_closed = False\<rparr>,
                                 us_task := Some reader_new,
                                 us_stream_params := Some (stream_params_of c)\<rparr>))))"

text \<open>\<open>opened\<close> is how opening the capture file ends.\<close>

definition init_file_source :: "rtsa_source result \<Rightarrow> unified_source \<Rightarrow> unit result \<times> unified_source" where
  "init_file_source opened s =
     (let c = us_config s in
      case sc_file_path c of
        None \<Rightarrow> (Err (Config ''File path required for file source''), s)
      | Some path \<Rightarrow>
          (case opened of
             Inl e \<Rightarrow> (Err e, s)
           | Inr src \<Rightarrow>
               let m = rs_metadata src;
                   c1 = c\<lparr>sc_sample_rate_hz := sample_rate_hz m\<rparr>;
                   c2 = (if flt zero (bandwidth_hz m) then c1\<lparr>sc_bandwidth_hz := bandwidth_hz m\<rparr> else c1);
                   c3 = (case center_frequency_hz m of
                           Some f \<Rightarrow> if flt zero f then c2\<lparr>sc_center_frequency_hz := f\<rparr> else c2
                         | None \<Rightarrow> c2)
               in (Ok (), s\<lparr>us_config := c3, us_file := Some src\<rparr>)))"

definition unified_open ::
  "(string \<Rightarrow> bool) \<Rightarrow> init_answers \<Rightarrow> rtsa_source result \<Rightarrow> spectran_config \<Rightarrow> unified_source result" where
  "unified_open exists env opened c =
     bind_result (select_source_type exists c) (\<lambda>t.
     bind_result (validate_config t c) (\<lambda>_.
     case t of
       NativeSdkSource \<Rightarrow> Err (Config ''Native SDK not available on this platform or feature not enabled'')
     | HttpSource \<Rightarrow> (case init_http_source env (unified_new c t) of (r, s) \<Rightarrow> bind_result r (\<lambda>_. Ok s))
     | FileSource \<Rightarrow> (case init_file_source opened (unified_new c t) of (r, s) \<Rightarrow> bind_result r (\<lambda>_. Ok s))))"

section \<open>The background reader\<close>

text \<open>
  One event of the reader. Whether a packet is taken depends on the receiving end, and the
  tuning written again is the one shared with the setters.
\<close>

definition actual_event :: "unified_source \<Rightarrow> stream_event \<Rightarrow> stream_event" where
  "actual_event s e = (case e of
     Arrived p _ \<Rightarrow> Arrived p (us_receiver s \<noteq> None)
   | Retuned d ok \<Rightarrow> Retuned (case us_tuning s of Some t \<Rightarrow> t | None \<Rightarrow> d) ok
   | _ \<Rightarrow> e)"

definition written_by :: "http_reader \<Rightarrow> http_reader \<Rightarrow> capture_request list" where
  "written_by r r' =
     map (\<lambda>(t, ok). capture_tuple (ct_center_frequency_hz t) (ct_sample_rate_hz t) (ct_reference_level_dbm t))
       (drop (length (hr_tunings r)) (hr_tunings r'))"

definition background :: "stream_event \<Rightarrow> unified_source \<Rightarrow> unified_source" where
  "background e s =
     (case us_task s of
        None \<Rightarrow> s
      | Some r \<Rightarrow>
          let r' = reader_step (auto_reconnect (us_config s)) (actual_event s e) r
          in log_controls (written_by r r')
               (s\<lparr>us_task := Some r', us_observed := map_option (\<lambda>_. observed r') (us_observed s),
                  us_rate_bits := map_option (\<lambda>_. rate_seen r') (us_rate_bits s),
                  us_receiver := map_option (\<lambda>ch. ch\<lparr>
                    ic_queued := ic_queued ch @ drop (length (hr_sent r)) (hr_sent r'),
                    ic_closed := (hr_mode r' = Finished)\<rparr>) (us_receiver s)\<rparr>))"

section \<open>Reading over HTTP\<close>

text \<open>The rest of a read goes to the buffer under the geometry it was received with.\<close>

definition stash :: "complex32 list \<Rightarrow> f64 \<Rightarrow> f64 \<Rightarrow> unified_source \<Rightarrow> unified_source" where
  "stash xs freq rate s =
     s\<lparr>us_buffer := us_buffer s @ xs, us_buffer_freq_hz := freq, us_buffer_rate_hz := rate\<rparr>"

definition note_item :: "http_item \<Rightarrow> unified_source \<Rightarrow> unified_source" where
  "note_item i s = s\<lparr>us_cumulative_drops := it_cumulative_drops i, us_last_timestamp_ns := it_timestamp_ns i\<rparr>"

definition moved_center :: "f64 \<Rightarrow> f64 \<Rightarrow> bool" where
  "moved_center batch pkt = (flt zero pkt \<and> flt zero batch \<and> flt (lit B64 1) (fabs (fsub B64 pkt batch)))"

definition moved_rate :: "f64 \<Rightarrow> f64 \<Rightarrow> bool" where
  "moved_rate batch pkt = (flt zero pkt \<and> flt zero batch \<and> rate_moved batch pkt)"

definition or_first :: "f64 \<Rightarrow> f64 \<Rightarrow> f64" where
  "or_first batch pkt = (if feq batch zero then pkt else batch)"

text \<open>
  What the channel holds before the deadline, taken until the read is full or meets a boundary.
  Returned are the samples, the geometry of the block, and what stays in the channel.
\<close>

record collection =
  co_out :: "complex32 list"
  co_freq :: f64
  co_rate :: f64

fun collect ::
  "nat \<Rightarrow> collection \<Rightarrow> unified_source \<Rightarrow> http_item list \<Rightarrow> bool \<times> collection \<times> unified_source \<times> http_item list" where
  "collect most b s [] = (length (co_out b) < most, b, s, [])"
| "collect most b s (i # items) =
     (if most \<le> length (co_out b) then (False, b, s, i # items)
      else if it_dropped i \<and> co_out b \<noteq> []
      then (False, b, note_item i ((stash (it_samples i) (it_center_hz i) (it_rate_hz i) s)\<lparr>us_buffer_after_gap := True\<rparr>), items)
      else
        let s1 = note_item i (if it_dropped i then s\<lparr>us_pending_overrun := True\<rparr> else s)
        in if co_out b \<noteq> [] \<and> (moved_center (co_freq b) (it_center_hz i) \<or> moved_rate (co_rate b) (it_rate_hz i))
           then (False, b, stash (it_samples i) (it_center_hz i) (it_rate_hz i) s1, items)
           else
             let freq = or_first (co_freq b) (it_center_hz i); rate = or_first (co_rate b) (it_rate_hz i);
                 needed = most - length (co_out b)
             in if length (it_samples i) \<le> needed
                then collect most \<lparr>co_out = co_out b @ it_samples i, co_freq = freq, co_rate = rate\<rparr> s1 items
                else (False, \<lparr>co_out = co_out b @ take needed (it_samples i), co_freq = freq, co_rate = rate\<rparr>,
                      stash (drop needed (it_samples i)) freq rate s1, items))"

text \<open>The leftovers of the last read come first.\<close>

definition from_buffer :: "nat \<Rightarrow> unified_source \<Rightarrow> collection \<times> unified_source" where
  "from_buffer most s =
     (let n = min (length (us_buffer s)) most
      in if 0 < n
         then (\<lparr>co_out = take n (us_buffer s), co_freq = us_buffer_freq_hz s, co_rate = us_buffer_rate_hz s\<rparr>,
               (if us_buffer_after_gap s
                then s\<lparr>us_buffer := drop n (us_buffer s), us_pending_overrun := True, us_buffer_after_gap := False\<rparr>
                else s\<lparr>us_buffer := drop n (us_buffer s)\<rparr>))
         else (\<lparr>co_out = [], co_freq = zero, co_rate = zero\<rparr>, s))"

definition read_http :: "nat \<Rightarrow> unified_source \<Rightarrow> complex32 list result \<times> unified_source" where
  "read_http most s =
     (case us_receiver s of
        None \<Rightarrow> (Err (Config ''HTTP receiver not initialized''), s)
      | Some ch \<Rightarrow>
          let (b0, s0) = from_buffer most s;
              (waiting, b, s1, rest) = collect most b0 s0 (ic_queued ch);
              s2 = s1\<lparr>us_receiver := Some (ch\<lparr>ic_queued := rest\<rparr>)\<rparr>
          in if waiting \<and> ic_closed ch \<and> co_out b = []
             then (Err (StreamClosed ''HTTP sample stream closed (reader task ended)''), s2)
             else if co_out b = [] \<and> 0 < most
             then (Err (Io ''no samples arrived within the read deadline''), s2)
             else (Ok (co_out b), s2\<lparr>
                 last_read_frequency_hz := (if flt zero (co_freq b) then co_freq b else last_read_frequency_hz s2),
                 last_read_sample_rate_hz := (if co_out b \<noteq> [] then co_rate b else last_read_sample_rate_hz s2)\<rparr>))"

section \<open>Reading\<close>

definition read_file :: "nat \<Rightarrow> unified_source \<Rightarrow> complex32 list result \<times> unified_source" where
  "read_file most s =
     (case us_file s of
        None \<Rightarrow> (Err (Config ''File source not initialized''), s)
      | Some src \<Rightarrow>
          (case File_Source.read_samples most None src of
             (r, src') \<Rightarrow>
               (bind_result r (\<lambda>d. case d of Some (IqData xs) \<Rightarrow> Ok xs | _ \<Rightarrow> Ok []), s\<lparr>us_file := Some src'\<rparr>)))"

definition unified_read :: "nat \<Rightarrow> unified_source \<Rightarrow> complex32 list result \<times> unified_source" where
  "unified_read most s =
     (case us_type s of
        NativeSdkSource \<Rightarrow> (Err (Config ''Native SDK not available''), s)
      | HttpSource \<Rightarrow> read_http most s
      | FileSource \<Rightarrow> read_file most s)"

definition take_overrun :: "unified_source \<Rightarrow> bool \<times> unified_source" where
  "take_overrun s = (us_pending_overrun s, s\<lparr>us_pending_overrun := False\<rparr>)"

section \<open>Retuning\<close>

definition publish_tuning :: "(capture_tuning \<Rightarrow> capture_tuning) \<Rightarrow> unified_source \<Rightarrow> unified_source" where
  "publish_tuning edit s = s\<lparr>us_tuning := map_option edit (us_tuning s)\<rparr>"

text \<open>
  The three setters over HTTP: the intent is published, the whole tuple written, and the
  configuration follows only when the server accepted it. \<open>answer\<close> is what it answers.
\<close>

definition write_capture ::
  "unit result \<Rightarrow> (capture_tuning \<Rightarrow> capture_tuning) \<Rightarrow> (spectran_config \<Rightarrow> spectran_config) \<Rightarrow>
   unified_source \<Rightarrow> unit result \<times> unified_source" where
  "write_capture answer edit change s =
     (case us_client s of
        None \<Rightarrow> (Err (Config ''HTTP client not initialized''), s)
      | Some client \<Rightarrow>
          let s1 = log_controls [tuple_of_config (change (us_config s))] (publish_tuning edit s)
          in case answer of
               Inl e \<Rightarrow> (Err e, s1)
             | Inr _ \<Rightarrow> (Ok (), s1\<lparr>us_config := change (us_config s)\<rparr>))"

definition set_center_frequency_hz :: "unit result \<Rightarrow> f64 \<Rightarrow> unified_source \<Rightarrow> unit result \<times> unified_source" where
  "set_center_frequency_hz answer hz s =
     (case us_type s of
        FileSource \<Rightarrow> (Ok (), s)
      | NativeSdkSource \<Rightarrow> (Err (Config ''Native SDK not available''), s)
      | HttpSource \<Rightarrow> write_capture answer (\<lambda>t. t\<lparr>ct_center_frequency_hz := hz\<rparr>)
                       (\<lambda>c. c\<lparr>sc_center_frequency_hz := hz\<rparr>) s)"

definition set_sample_rate_hz :: "unit result \<Rightarrow> f64 \<Rightarrow> unified_source \<Rightarrow> unit result \<times> unified_source" where
  "set_sample_rate_hz answer hz s =
     (case us_type s of
        FileSource \<Rightarrow> (Ok (), s)
      | NativeSdkSource \<Rightarrow> (Err (Config ''Native SDK not available''), s)
      | HttpSource \<Rightarrow>
          (case validate_iq_mode hz DEFAULT_RECEIVER_CLOCK_HZ of
             Inl e \<Rightarrow> (Err e, s)
           | Inr _ \<Rightarrow> write_capture answer (\<lambda>t. t\<lparr>ct_sample_rate_hz := hz\<rparr>)
                        (\<lambda>c. c\<lparr>sc_sample_rate_hz := hz\<rparr>) s))"

definition set_reference_level_dbm :: "unit result \<Rightarrow> f64 \<Rightarrow> unified_source \<Rightarrow> unit result \<times> unified_source" where
  "set_reference_level_dbm answer dbm s =
     (case us_type s of
        FileSource \<Rightarrow> (Ok (), s)
      | NativeSdkSource \<Rightarrow> (Err (Config ''Native SDK not available''), s)
      | HttpSource \<Rightarrow> write_capture answer (\<lambda>t. t\<lparr>ct_reference_level_dbm := dbm\<rparr>)
                       (\<lambda>c. c\<lparr>sc_reference_level_dbm := dbm\<rparr>) s)"

definition set_rf_span_hz :: "f64 \<Rightarrow> unified_source \<Rightarrow> f64 result \<times> unified_source" where
  "set_rf_span_hz hz s = (Err (Config ''explicit RF span is available on native iqreceiver mode only''), s)"

text \<open>The settings written by label go to the endpoints client.\<close>

definition through_client ::
  "('s rtsa \<Rightarrow> string \<Rightarrow> 's \<Rightarrow> (string option) result \<times> 's) \<Rightarrow> 's rtsa \<Rightarrow> string \<Rightarrow> unified_source \<Rightarrow> 's \<Rightarrow> unit result \<times> 's" where
  "through_client write srv label s t =
     (case us_type s of
        NativeSdkSource \<Rightarrow> (Err (Config ''Native SDK not available''), t)
      | HttpSource \<Rightarrow>
          (case us_client s of
             None \<Rightarrow> (Err (Config ''HTTP client not initialized''), t)
           | Some client \<Rightarrow> bind_request (write srv label t) (\<lambda>_ t. (Ok (), t)))
      | FileSource \<Rightarrow> (Ok (), t))"

definition unified_set_clock_source :: "'s rtsa \<Rightarrow> string \<Rightarrow> unified_source \<Rightarrow> 's \<Rightarrow> unit result \<times> 's" where
  "unified_set_clock_source = through_client set_clock_source"

definition unified_set_gps_mode :: "'s rtsa \<Rightarrow> string \<Rightarrow> unified_source \<Rightarrow> 's \<Rightarrow> unit result \<times> 's" where
  "unified_set_gps_mode = through_client set_gps_mode"

definition unified_probe_license :: "'s rtsa \<Rightarrow> unified_source \<Rightarrow> 's \<Rightarrow> remote_config_status result \<times> 's" where
  "unified_probe_license srv s t =
     (if us_type s = HttpSource
      then case us_client s of
             None \<Rightarrow> (Err (Config ''HTTP client not initialized''), t)
           | Some client \<Rightarrow> (case probe_remote_config_write_license srv t of (st, t') \<Rightarrow> (Ok st, t'))
      else (Ok Active, t))"

section \<open>Reporting\<close>

definition observed_stream_of :: "unified_source \<Rightarrow> observed_stream" where
  "observed_stream_of s = (case us_observed s of Some ob \<Rightarrow> ob | None \<Rightarrow> observed_default)"

definition unified_sample_rate_hz :: "unified_source \<Rightarrow> f64" where
  "unified_sample_rate_hz s =
     (let seen = (case us_rate_bits s of Some r \<Rightarrow> r | None \<Rightarrow> zero)
      in if flt zero seen then seen else sc_sample_rate_hz (us_config s))"

definition capture_frequency_hz :: "unified_source \<Rightarrow> f64" where
  "capture_frequency_hz s = last_read_frequency_hz s"

definition capture_bandwidth_hz :: "unified_source \<Rightarrow> f64" where
  "capture_bandwidth_hz s = sc_bandwidth_hz (us_config s)"

definition capture_sample_rate_hz :: "unified_source \<Rightarrow> f64" where
  "capture_sample_rate_hz s =
     (if is_finite (last_read_sample_rate_hz s) \<and> flt zero (last_read_sample_rate_hz s)
      then last_read_sample_rate_hz s else unified_sample_rate_hz s)"

record source_info =
  si_source_type :: source_type
  si_center_frequency_hz :: f64
  si_sample_rate_hz :: f64
  si_bandwidth_hz :: f64
  si_reference_level_dbm :: f64
  si_device_serial :: "string option"

definition pick :: "f64 \<Rightarrow> f64 \<Rightarrow> f64" where
  "pick seen configured = (if flt zero seen then seen else configured)"

definition source_info :: "unified_source \<Rightarrow> source_info" where
  "source_info s =
     (let ob = observed_stream_of s; c = us_config s
      in \<lparr>si_source_type = us_type s,
          si_center_frequency_hz = pick (pick (ob_center_frequency_hz ob) (capture_frequency_hz s)) (sc_center_frequency_hz c),
          si_sample_rate_hz = pick (if flt zero (ob_sample_rate_hz ob) then ob_sample_rate_hz ob else zero) (sc_sample_rate_hz c),
          si_bandwidth_hz = pick (ob_bandwidth_hz ob) (capture_bandwidth_hz s),
          si_reference_level_dbm = sc_reference_level_dbm c, si_device_serial = sc_device_serial c\<rparr>)"

definition reachable_client :: "unit result \<Rightarrow> unified_source \<Rightarrow> bool" where
  "reachable_client build s =
     (us_type s = HttpSource
      \<and> (us_client s \<noteq> None \<or> sc_http_base_url (us_config s) \<noteq> None \<and> is_ok build))"

definition unified_device_capabilities ::
  "'s rtsa \<Rightarrow> unit result \<Rightarrow> unified_source \<Rightarrow> 's \<Rightarrow> device_capabilities \<times> 's" where
  "unified_device_capabilities srv build s t =
     (if reachable_client build s then get_device_capabilities srv t else (capabilities_default, t))"

definition unified_is_streaming :: "unified_source \<Rightarrow> bool" where
  "unified_is_streaming s =
     (case us_type s of
        NativeSdkSource \<Rightarrow> False
      | HttpSource \<Rightarrow> us_receiver s \<noteq> None
      | FileSource \<Rightarrow> us_file s \<noteq> None)"

section \<open>Stopping and starting\<close>

definition stop_streaming :: "unified_source \<Rightarrow> unit result \<times> unified_source" where
  "stop_streaming s =
     (case us_type s of
        NativeSdkSource \<Rightarrow> (Err (Config ''Native SDK not available''), s)
      | HttpSource \<Rightarrow> (Ok (), s\<lparr>us_task := None, us_receiver := None, us_tuning := None,
                               us_observed := None, us_rate_bits := None\<rparr>)
      | FileSource \<Rightarrow> (Ok (), s))"

definition reader_alive :: "unified_source \<Rightarrow> bool" where
  "reader_alive s =
     (us_receiver s \<noteq> None \<and> (case us_task s of Some r \<Rightarrow> hr_mode r \<noteq> Finished | None \<Rightarrow> False))"

definition start_streaming :: "init_answers \<Rightarrow> unified_source \<Rightarrow> unit result \<times> unified_source" where
  "start_streaming env s =
     (case us_type s of
        NativeSdkSource \<Rightarrow> (Err (Config ''Native SDK not available''), s)
      | HttpSource \<Rightarrow>
          if reader_alive s then (Ok (), s)
          else init_http_source env (s\<lparr>us_task := None, us_buffer := [], us_pending_overrun := False\<rparr>)
      | FileSource \<Rightarrow> (Ok (), s))"

text \<open>Dropping the source ends its reader.\<close>

definition drop_unified :: "unified_source \<Rightarrow> unified_source" where
  "drop_unified s = s\<lparr>us_task := None\<rparr>"

end
