(* ===== verification/Unified_Laws.thy ===== *)
theory Unified_Laws
  imports Unified_Source
begin

text \<open>
  What a reader of the unified source may rely on: reads hand over the received samples in
  order, a gap lies only in front of a read and is told with it, a read is one band, a stream
  that is not read keeps its samples; the tuples written are complete, and the configuration is
  what the server accepted last.
\<close>

section \<open>Marked samples\<close>

text \<open>A run of samples, the first of them behind a gap or not.\<close>

fun marked :: "bool \<Rightarrow> 'a list \<Rightarrow> ('a \<times> bool) list" where
  "marked gap [] = []"
| "marked gap (x # xs) = (x, gap) # map (\<lambda>y. (y, False)) xs"

definition item_marks :: "http_item list \<Rightarrow> (complex32 \<times> bool) list" where
  "item_marks items = concat (map (\<lambda>i. marked (it_dropped i) (it_samples i)) items)"

text \<open>What a source still has to hand over.\<close>

definition queue_of :: "unified_source \<Rightarrow> http_item list" where
  "queue_of s = (case us_receiver s of Some ch \<Rightarrow> ic_queued ch | None \<Rightarrow> [])"

definition pending_marks :: "unified_source \<Rightarrow> (complex32 \<times> bool) list" where
  "pending_marks s = marked (us_buffer_after_gap s) (us_buffer s) @ item_marks (queue_of s)"

definition one_piece :: "('a \<times> bool) list \<Rightarrow> bool" where
  "one_piece xs = list_all (\<lambda>(x, gap). \<not> gap) (tl xs)"

definition stash_ok :: "unified_source \<Rightarrow> bool" where
  "stash_ok s \<longleftrightarrow> us_buffer s \<noteq> [] \<or> \<not> us_buffer_after_gap s"

lemma fst_marked [simp]: "map fst (marked gap xs) = xs"
  by (cases xs) (simp_all add: comp_def)

lemma length_marked [simp]: "length (marked gap xs) = length xs"
  by (cases xs) simp_all

lemma marked_Nil [simp]: "marked gap xs = [] \<longleftrightarrow> xs = []"
  by (cases xs) simp_all

lemma marked_False: "marked False xs = map (\<lambda>x. (x, False)) xs"
  by (cases xs) simp_all

lemma marked_append: "xs \<noteq> [] \<Longrightarrow> marked gap (xs @ ys) = marked gap xs @ marked False ys"
  by (cases xs) (simp_all add: marked_False)

lemma marked_split: "0 < n \<Longrightarrow> xs \<noteq> [] \<Longrightarrow> marked gap xs = marked gap (take n xs) @ marked False (drop n xs)"
  using marked_append [of "take n xs" gap "drop n xs"] by simp

lemma item_marks_simps [simp]:
  "item_marks [] = []"
  "item_marks (i # items) = marked (it_dropped i) (it_samples i) @ item_marks items"
  by (simp_all add: item_marks_def)

lemma one_piece_marked [simp]: "one_piece (marked gap xs)"
  by (cases xs) (simp_all add: one_piece_def list_all_iff)

lemma one_piece_append: "one_piece xs \<Longrightarrow> xs \<noteq> [] \<Longrightarrow> one_piece (xs @ marked False ys)"
  by (cases xs) (auto simp: one_piece_def list_all_iff marked_False)

section \<open>One pass over the channel\<close>

text \<open>
  The samples collected so far, with their marks, and the flag that tells of a gap before the
  first of them.
\<close>

definition collected :: "(complex32 \<times> bool) list \<Rightarrow> collection \<Rightarrow> unified_source \<Rightarrow> bool" where
  "collected block b s \<longleftrightarrow> map fst block = co_out b \<and> one_piece block
     \<and> us_pending_overrun s = (block \<noteq> [] \<and> snd (hd block))"

lemma collected_frame:
  "collected block b s \<Longrightarrow> co_out b' = co_out b \<Longrightarrow> us_pending_overrun s' = us_pending_overrun s \<Longrightarrow> collected block b' s'"
  by (simp add: collected_def)

lemma collected_extend:
  assumes "collected block b s" "gap \<longrightarrow> co_out b = []" "xs \<noteq> []"
    and "co_out b1 = co_out b @ xs" "us_pending_overrun s1 = (us_pending_overrun s \<or> gap)"
  shows "collected (block @ marked gap xs) b1 s1"
proof (cases "block = []")
  case True
  with assms show ?thesis by (cases xs) (auto simp: collected_def one_piece_def list_all_iff comp_def)
next
  case False
  then have "\<not> gap" using assms(1,2) by (auto simp: collected_def)
  with False assms show ?thesis by (simp add: collected_def one_piece_append)
qed

definition passed ::
  "nat \<Rightarrow> (complex32 \<times> bool) list \<Rightarrow> http_item list \<Rightarrow> unified_source \<Rightarrow>
   bool \<times> collection \<times> unified_source \<times> http_item list \<Rightarrow> bool" where
  "passed most block items s = (\<lambda>(waiting, b', s', rest).
     \<exists>part. collected (block @ part) b' s' \<and> length (co_out b') \<le> most
      \<and> item_marks items = part @ marked (us_buffer_after_gap s') (us_buffer s') @ item_marks rest
      \<and> stash_ok s' \<and> us_receiver s' = us_receiver s
      \<and> (waiting \<longrightarrow> rest = [] \<and> us_buffer s' = [])
      \<and> (co_out b' = [] \<longrightarrow> items = [] \<or> most = 0))"

lemma passedI:
  assumes "collected (block @ part) b' s'" "length (co_out b') \<le> most"
    and "item_marks items = part @ marked (us_buffer_after_gap s') (us_buffer s') @ item_marks rest"
    and "stash_ok s'" "us_receiver s' = us_receiver s"
    and "waiting \<Longrightarrow> rest = [] \<and> us_buffer s' = []"
    and "co_out b' = [] \<Longrightarrow> items = [] \<or> most = 0"
  shows "passed most block items s (waiting, b', s', rest)"
  unfolding passed_def using assms by blast

lemma passed_step:
  assumes "passed most (block @ marked (it_dropped i) (it_samples i)) items s1 r"
    and "it_samples i \<noteq> []" "us_receiver s1 = us_receiver s"
  shows "passed most block (i # items) s r"
proof -
  obtain waiting b' s' rest where r: "r = (waiting, b', s', rest)" by (cases r) auto
  from assms(1) r obtain part where m: "collected ((block @ marked (it_dropped i) (it_samples i)) @ part) b' s'"
    "length (co_out b') \<le> most" "item_marks items = part @ marked (us_buffer_after_gap s') (us_buffer s') @ item_marks rest"
    "stash_ok s'" "us_receiver s' = us_receiver s1" "waiting \<longrightarrow> rest = [] \<and> us_buffer s' = []"
    by (auto simp: passed_def)
  show ?thesis
    unfolding r
  proof (rule passedI)
    show "collected (block @ marked (it_dropped i) (it_samples i) @ part) b' s'" using m(1) by simp
    show "co_out b' = [] \<Longrightarrow> i # items = [] \<or> most = 0"
      using m(1) assms(2) by (auto simp: collected_def)
  qed (use m assms(3) in simp_all)
qed

lemma collect_marks:
  assumes "collected block b s" "list_all (\<lambda>i. it_samples i \<noteq> []) items"
    and "us_buffer s = []" "\<not> us_buffer_after_gap s" "length (co_out b) \<le> most"
  shows "passed most block items s (collect most b s items)"
  using assms
proof (induction items arbitrary: b s block)
  case Nil
  then show ?case
    by (auto simp: stash_ok_def intro!: passedI [where part = "[]"])
next
  case (Cons i items)
  let ?xs = "it_samples i" and ?out = "co_out b"
  let ?s1 = "note_item i (if it_dropped i then s\<lparr>us_pending_overrun := True\<rparr> else s)"
  have s1: "us_buffer ?s1 = []" "\<not> us_buffer_after_gap ?s1" "us_receiver ?s1 = us_receiver s"
    "us_pending_overrun ?s1 = (us_pending_overrun s \<or> it_dropped i)"
    using Cons.prems(3,4) by (simp_all add: note_item_def)
  have xs: "?xs \<noteq> []" using Cons.prems(2) by simp
  consider (full) "most \<le> length ?out"
    | (gap) "length ?out < most" "it_dropped i" "?out \<noteq> []"
    | (band) "length ?out < most" "\<not> it_dropped i" "?out \<noteq> []"
        "moved_center (co_freq b) (it_center_hz i) \<or> moved_rate (co_rate b) (it_rate_hz i)"
    | (take) "length ?out < most" "it_dropped i \<longrightarrow> ?out = []"
        "?out = [] \<or> \<not> (moved_center (co_freq b) (it_center_hz i) \<or> moved_rate (co_rate b) (it_rate_hz i))"
    by linarith
  then show ?case
  proof cases
    case full
    then have "collect most b s (i # items) = (False, b, s, i # items)" by simp
    then show ?thesis
      using Cons.prems full by (auto simp: stash_ok_def intro!: passedI [where part = "[]"])
  next
    case gap
    then have "collect most b s (i # items) =
        (False, b, note_item i ((stash ?xs (it_center_hz i) (it_rate_hz i) s)\<lparr>us_buffer_after_gap := True\<rparr>), items)"
      by simp
    then show ?thesis
      using Cons.prems gap xs
      by (auto simp: stash_ok_def note_item_def stash_def collected_def intro!: passedI [where part = "[]"])
  next
    case band
    then have "collect most b s (i # items) = (False, b, stash ?xs (it_center_hz i) (it_rate_hz i) ?s1, items)"
      by (simp add: Let_def)
    then show ?thesis
      using Cons.prems band xs
      by (auto simp: stash_ok_def note_item_def stash_def collected_def intro!: passedI [where part = "[]"])
  next
    case take
    let ?f = "or_first (co_freq b) (it_center_hz i)" and ?r = "or_first (co_rate b) (it_rate_hz i)"
    let ?n = "most - length ?out"
    show ?thesis
    proof (cases "length ?xs \<le> ?n")
      case True
      let ?b1 = "\<lparr>co_out = ?out @ ?xs, co_freq = ?f, co_rate = ?r\<rparr>"
      have c: "collect most b s (i # items) = collect most ?b1 ?s1 items"
        using take True by (auto simp: Let_def)
      have b1: "collected (block @ marked (it_dropped i) ?xs) ?b1 ?s1"
        using Cons.prems(1) take(2) xs s1(4) by (intro collected_extend) simp_all
      have "passed most (block @ marked (it_dropped i) ?xs) items ?s1 (collect most ?b1 ?s1 items)"
        using Cons.prems(2) s1(1,2) take(1) True by (intro Cons.IH [OF b1]) simp_all
      then show ?thesis
        unfolding c using xs s1(3) by (rule passed_step)
    next
      case False
      let ?b1 = "\<lparr>co_out = ?out @ take ?n ?xs, co_freq = ?f, co_rate = ?r\<rparr>"
      have c: "collect most b s (i # items) = (False, ?b1, stash (drop ?n ?xs) ?f ?r ?s1, items)"
        using take False by (auto simp: Let_def)
      have n: "0 < ?n" using take(1) by simp
      have "collected (block @ marked (it_dropped i) (take ?n ?xs)) ?b1 (stash (drop ?n ?xs) ?f ?r ?s1)"
        using Cons.prems(1) take(2) xs s1(4) n by (intro collected_extend) (simp_all add: stash_def)
      then show ?thesis
        unfolding c using n False s1 take(1) xs
        by (intro passedI [where part = "marked (it_dropped i) (take ?n ?xs)"])
          (simp_all add: stash_def stash_ok_def marked_split [OF n xs])
    qed
  qed
qed

section \<open>A read\<close>

lemma from_buffer_collected:
  assumes "from_buffer most s = (b, s')" "stash_ok s" "\<not> us_pending_overrun s"
  shows "\<exists>block. collected block b s' \<and> length (co_out b) \<le> most \<and> us_receiver s' = us_receiver s
     \<and> marked (us_buffer_after_gap s) (us_buffer s) = block @ marked (us_buffer_after_gap s') (us_buffer s')
     \<and> stash_ok s' \<and> (length (co_out b) = most \<or> us_buffer s' = [])"
proof (cases "us_buffer s = [] \<or> most = 0")
  case True
  then have "b = \<lparr>co_out = [], co_freq = zero, co_rate = zero\<rparr>" "s' = s"
    using assms(1) by (auto simp: from_buffer_def Let_def)
  with True assms(2,3) show ?thesis
    by (auto simp: collected_def one_piece_def intro!: exI [of _ "[]"])
next
  case False
  let ?n = "min (length (us_buffer s)) most" and ?gap = "us_buffer_after_gap s"
  have n: "0 < ?n" using False by simp
  then have b: "co_out b = take ?n (us_buffer s)" "us_buffer s' = drop ?n (us_buffer s)"
    "\<not> us_buffer_after_gap s'" "us_pending_overrun s' = ?gap" "us_receiver s' = us_receiver s"
    using assms(1,3) by (auto simp: from_buffer_def Let_def simp del: min_less_iff_conj split: if_splits)
  let ?block = "marked ?gap (take ?n (us_buffer s))"
  have "take ?n (us_buffer s) \<noteq> []" using n by auto
  then have "snd (hd ?block) = ?gap" by (cases "take ?n (us_buffer s)") auto
  then have "collected ?block b s'"
    using b \<open>take ?n (us_buffer s) \<noteq> []\<close> by (auto simp: collected_def)
  moreover have "marked ?gap (us_buffer s) = ?block @ marked (us_buffer_after_gap s') (us_buffer s')"
    using marked_split [OF n, of "us_buffer s" ?gap] b(2,3) False by simp
  ultimately show ?thesis
    using b by (auto simp: stash_ok_def min_def)
qed

definition unread_ok :: "unified_source \<Rightarrow> bool" where
  "unread_ok s \<longleftrightarrow> stash_ok s \<and> us_receiver s \<noteq> None \<and> list_all (\<lambda>i. it_samples i \<noteq> []) (queue_of s)"

lemma read_collects:
  assumes "unread_ok s" "\<not> us_pending_overrun s" "us_receiver s = Some ch"
    and "from_buffer most s = (b0, s0)" "collect most b0 s0 (ic_queued ch) = (waiting, b, s1, rest)"
  shows "\<exists>block. collected block b s1 \<and> length (co_out b) \<le> most \<and> stash_ok s1
    \<and> pending_marks s = block @ marked (us_buffer_after_gap s1) (us_buffer s1) @ item_marks rest
    \<and> (co_out b = [] \<longrightarrow> pending_marks s = [] \<or> most = 0)"
proof -
  have q: "stash_ok s" "list_all (\<lambda>i. it_samples i \<noteq> []) (ic_queued ch)"
    using assms(1,3) by (simp_all add: unread_ok_def queue_of_def)
  have p: "pending_marks s = marked (us_buffer_after_gap s) (us_buffer s) @ item_marks (ic_queued ch)"
    using assms(3) by (simp add: pending_marks_def queue_of_def)
  from from_buffer_collected [OF assms(4) q(1) assms(2)] obtain block where
    f: "collected block b0 s0" "length (co_out b0) \<le> most" "stash_ok s0"
      "marked (us_buffer_after_gap s) (us_buffer s) = block @ marked (us_buffer_after_gap s0) (us_buffer s0)"
      "length (co_out b0) = most \<or> us_buffer s0 = []" by blast
  show ?thesis
  proof (cases "us_buffer s0 = []")
    case True
    with f(3) have "\<not> us_buffer_after_gap s0" by (simp add: stash_ok_def)
    from collect_marks [OF f(1) q(2) True this f(2)] assms(5) obtain part where
      g: "collected (block @ part) b s1" "length (co_out b) \<le> most" "stash_ok s1"
        "item_marks (ic_queued ch) = part @ marked (us_buffer_after_gap s1) (us_buffer s1) @ item_marks rest"
        "co_out b = [] \<longrightarrow> ic_queued ch = [] \<or> most = 0"
      by (auto simp: passed_def)
    have "co_out b = [] \<Longrightarrow> block = []" using g(1) by (auto simp: collected_def)
    with g True f(4) p show ?thesis by (intro exI [of _ "block @ part"]) auto
  next
    case False
    with f(5) have full: "length (co_out b0) = most" by simp
    then have "collect most b0 s0 (ic_queued ch) = (False, b0, s0, ic_queued ch)"
      by (cases "ic_queued ch") simp_all
    with assms(5) f full p show ?thesis by (intro exI [of _ block]) auto
  qed
qed

lemma read_http_out:
  assumes "read_http most s = (r, s')" "us_receiver s = Some ch"
    and "from_buffer most s = (b0, s0)" "collect most b0 s0 (ic_queued ch) = (waiting, b, s1, rest)"
  shows "pending_marks s' = marked (us_buffer_after_gap s1) (us_buffer s1) @ item_marks rest
    \<and> us_pending_overrun s' = us_pending_overrun s1 \<and> (stash_ok s1 \<longrightarrow> stash_ok s')
    \<and> queue_of s' = rest \<and> us_receiver s' \<noteq> None
    \<and> (case r of Inl e \<Rightarrow> co_out b = [] \<and> (0 < most \<or> ic_closed ch) | Inr xs \<Rightarrow> xs = co_out b)"
  using assms
  by (auto simp: read_http_def pending_marks_def queue_of_def stash_ok_def Let_def split: if_splits)

text \<open>
  C: a read hands over a prefix of what is pending, in order and unchanged. Gaps lie in front of
  it, never inside, and the overrun taken after the read says exactly whether one does. A read
  fails only when nothing is pending.
\<close>

theorem read_refines_marked_stream:
  assumes "unread_ok s" "\<not> us_pending_overrun s" "0 < most" "read_http most s = (r, s')"
  shows "case r of
      Inl e \<Rightarrow> pending_marks s = [] \<and> pending_marks s' = []
    | Inr xs \<Rightarrow> (\<exists>block. pending_marks s = block @ pending_marks s' \<and> map fst block = xs
        \<and> xs \<noteq> [] \<and> length xs \<le> most \<and> one_piece block
        \<and> fst (take_overrun s') = snd (hd block)
        \<and> stash_ok s')"
proof -
  from assms(1) obtain ch where ch: "us_receiver s = Some ch" by (auto simp: unread_ok_def)
  obtain b0 s0 where f: "from_buffer most s = (b0, s0)" by fastforce
  obtain waiting b s1 rest where c: "collect most b0 s0 (ic_queued ch) = (waiting, b, s1, rest)"
    by (metis prod_cases4)
  from read_collects [OF assms(1,2) ch f c] obtain block where
    k: "collected block b s1" "length (co_out b) \<le> most" "stash_ok s1"
      "pending_marks s = block @ marked (us_buffer_after_gap s1) (us_buffer s1) @ item_marks rest"
      "co_out b = [] \<longrightarrow> pending_marks s = [] \<or> most = 0" by blast
  note o = read_http_out [OF assms(4) ch f c]
  show ?thesis
  proof (cases r)
    case (Inl e)
    with o k(5) assms(3) have e: "co_out b = []" "pending_marks s = []" by auto
    moreover have "block = []" using e(1) k(1) by (simp add: collected_def)
    ultimately show ?thesis using Inl o k(4) by simp
  next
    case (Inr xs)
    then have xs: "xs = co_out b" using o by simp
    have "xs \<noteq> []"
      using assms(4) Inr ch f c assms(3) by (auto simp: read_http_def Let_def split: if_splits)
    with Inr xs o k show ?thesis
      by (auto simp: collected_def take_overrun_def intro!: exI [of _ block])
  qed
qed

section \<open>A whole session\<close>

lemma one_piece_is_marked: "one_piece block \<Longrightarrow> block = marked (block \<noteq> [] \<and> snd (hd block)) (map fst block)"
  by (cases block) (auto simp: one_piece_def list_all_iff comp_def intro!: map_idI [symmetric])

lemma collect_queue: "collect most b s items = (waiting, b', s', rest) \<Longrightarrow> set rest \<subseteq> set items"
proof (induction items arbitrary: b s)
  case (Cons i items)
  from Cons.prems show ?case by (auto simp: Let_def split: if_splits dest!: Cons.IH)
qed simp

lemma read_marks:
  assumes "unread_ok s" "\<not> us_pending_overrun s" "read_http most s = (r, s')"
  shows "(case r of Inl e \<Rightarrow> pending_marks s = [] \<and> pending_marks s' = [] \<and> \<not> us_pending_overrun s'
      | Inr xs \<Rightarrow> pending_marks s = marked (us_pending_overrun s') xs @ pending_marks s')
    \<and> unread_ok (s'\<lparr>us_pending_overrun := False\<rparr>)"
proof -
  from assms(1) obtain ch where ch: "us_receiver s = Some ch" by (auto simp: unread_ok_def)
  obtain b0 s0 where f: "from_buffer most s = (b0, s0)" by fastforce
  obtain waiting b s1 rest where c: "collect most b0 s0 (ic_queued ch) = (waiting, b, s1, rest)"
    by (metis prod_cases4)
  from read_collects [OF assms(1,2) ch f c] obtain block where
    k: "collected block b s1" "stash_ok s1"
      "pending_marks s = block @ marked (us_buffer_after_gap s1) (us_buffer s1) @ item_marks rest"
      "co_out b = [] \<longrightarrow> pending_marks s = [] \<or> most = 0" by blast
  note out = read_http_out [OF assms(3) ch f c]
  have "set rest \<subseteq> set (queue_of s)" using collect_queue [OF c] ch by (simp add: queue_of_def)
  then have "unread_ok (s'\<lparr>us_pending_overrun := False\<rparr>)"
    using assms(1) out k(2) by (auto simp: unread_ok_def stash_ok_def queue_of_def list_all_iff)
  moreover have "case r of Inl e \<Rightarrow> pending_marks s = [] \<and> pending_marks s' = [] \<and> \<not> us_pending_overrun s'
      | Inr xs \<Rightarrow> pending_marks s = marked (us_pending_overrun s') xs @ pending_marks s'"
  proof (cases r)
    case (Inl e)
    have "0 < most"
      using assms(3) ch f c Inl by (cases "ic_queued ch") (auto simp: read_http_def Let_def split: if_splits)
    with Inl out k(4) have e: "co_out b = []" "pending_marks s = []" by auto
    moreover have "block = []" using e(1) k(1) by (simp add: collected_def)
    ultimately show ?thesis using Inl out k(1,3) by (simp add: collected_def)
  next
    case (Inr xs)
    have m: "map fst block = co_out b" "one_piece block" "us_pending_overrun s1 = (block \<noteq> [] \<and> snd (hd block))"
      using k(1) by (simp_all add: collected_def)
    have "block = marked (us_pending_overrun s1) (co_out b)"
      using one_piece_is_marked [OF m(2)] unfolding m(1) m(3) [symmetric] .
    with Inr out k(3) show ?thesis by simp
  qed
  ultimately show ?thesis by simp
qed

text \<open>A session interleaves the events of the reader with reads, each followed by its overrun.\<close>

datatype session_step = Event stream_event | Read nat

fun session :: "session_step list \<Rightarrow> unified_source \<Rightarrow> (complex32 list \<times> bool) list \<times> unified_source" where
  "session [] s = ([], s)"
| "session (Event e # steps) s = session steps (background e s)"
| "session (Read most # steps) s =
     (case read_http most s of
        (Inl e, s1) \<Rightarrow> session steps (snd (take_overrun s1))
      | (Inr xs, s1) \<Rightarrow>
          (case session steps (snd (take_overrun s1)) of
             (outs, s2) \<Rightarrow> ((xs, fst (take_overrun s1)) # outs, s2)))"

definition sent_by :: "unified_source \<Rightarrow> http_item list" where
  "sent_by s = (case us_task s of Some r \<Rightarrow> hr_sent r | None \<Rightarrow> [])"

fun carries_samples :: "session_step \<Rightarrow> bool" where
  "carries_samples (Event (Arrived p taken)) = (pkt_samples p \<noteq> [])"
| "carries_samples st = True"

lemma reader_step_sent:
  "\<exists>new. hr_sent (reader_step auto e r) = hr_sent r @ new
     \<and> (case e of Arrived p taken \<Rightarrow> list_all (\<lambda>i. it_samples i = pkt_samples p) new | _ \<Rightarrow> new = [])"
  by (cases "hr_mode r"; cases e)
    (auto simp: reader_step.simps forward_packet_def retuned_def Let_def split: prod.split)

lemma background_frame [simp]:
  "us_buffer (background e s) = us_buffer s"
  "us_buffer_after_gap (background e s) = us_buffer_after_gap s"
  "us_pending_overrun (background e s) = us_pending_overrun s"
  by (simp_all add: background_def log_controls_def Let_def split: option.split)

lemma background_queue:
  assumes "us_receiver s \<noteq> None"
  shows "\<exists>new. queue_of (background e s) = queue_of s @ new \<and> sent_by (background e s) = sent_by s @ new
     \<and> (carries_samples (Event e) \<longrightarrow> list_all (\<lambda>i. it_samples i \<noteq> []) new)
     \<and> us_receiver (background e s) \<noteq> None"
proof (cases "us_task s")
  case None
  with assms show ?thesis by (auto simp: background_def sent_by_def)
next
  case (Some r)
  let ?e = "actual_event s e" and ?r = "reader_step (auto_reconnect (us_config s)) (actual_event s e) r"
  from reader_step_sent obtain new where n: "hr_sent ?r = hr_sent r @ new"
    "case ?e of Arrived p taken \<Rightarrow> list_all (\<lambda>i. it_samples i = pkt_samples p) new | _ \<Rightarrow> new = []" by blast
  have "carries_samples (Event e) \<longrightarrow> list_all (\<lambda>i. it_samples i \<noteq> []) new"
    using n(2) by (cases e) (auto simp: actual_event_def list_all_iff)
  moreover obtain ch where "us_receiver s = Some ch" using assms by blast
  ultimately show ?thesis
    using Some n(1)
    by (auto simp: background_def sent_by_def queue_of_def log_controls_def Let_def)
qed

lemma background_unread_ok:
  "unread_ok s \<Longrightarrow> carries_samples (Event e) \<Longrightarrow> unread_ok (background e s)"
  using background_queue [of s e] by (auto simp: unread_ok_def stash_ok_def)

lemma take_overrun_frame [simp]:
  "pending_marks (snd (take_overrun s)) = pending_marks s" "sent_by (snd (take_overrun s)) = sent_by s"
  "\<not> us_pending_overrun (snd (take_overrun s))" "fst (take_overrun s) = us_pending_overrun s"
  "unread_ok (snd (take_overrun s)) = unread_ok (s\<lparr>us_pending_overrun := False\<rparr>)"
  by (simp_all add: take_overrun_def pending_marks_def queue_of_def sent_by_def)

lemma collect_task: "collect most b s items = (waiting, b', s', rest) \<Longrightarrow> us_task s' = us_task s"
proof (induction items arbitrary: b s)
  case (Cons i items)
  from Cons.prems show ?case by (auto simp: Let_def note_item_def stash_def split: if_splits dest!: Cons.IH)
qed simp

lemma read_keeps_task: "read_http most s = (r, s') \<Longrightarrow> us_task s' = us_task s"
  by (auto simp: read_http_def from_buffer_def Let_def split: option.splits prod.splits if_splits dest!: collect_task)

lemma read_keeps_sent: "read_http most s = (r, s') \<Longrightarrow> sent_by s' = sent_by s"
  by (simp add: sent_by_def read_keeps_task)

lemma session_marks:
  assumes "unread_ok s" "\<not> us_pending_overrun s" "list_all carries_samples steps"
    and "session steps s = (outs, s')"
  shows "\<exists>new. sent_by s' = sent_by s @ new
    \<and> concat (map (\<lambda>(xs, gap). marked gap xs) outs) @ pending_marks s' = pending_marks s @ item_marks new"
  using assms
proof (induction steps s arbitrary: outs s' rule: session.induct)
  case (1 s)
  then show ?case by simp
next
  case (2 e steps s)
  have r: "us_receiver s \<noteq> None" using "2.prems"(1) by (simp add: unread_ok_def)
  from background_queue [OF r] obtain new where n: "queue_of (background e s) = queue_of s @ new"
    "sent_by (background e s) = sent_by s @ new" by blast
  have "unread_ok (background e s)" using "2.prems" by (simp add: background_unread_ok)
  with 2 obtain new' where "sent_by s' = sent_by (background e s) @ new'"
    "concat (map (\<lambda>(xs, gap). marked gap xs) outs) @ pending_marks s' = pending_marks (background e s) @ item_marks new'"
    by auto
  with n show ?case
    by (intro exI [of _ "new @ new'"]) (simp add: pending_marks_def item_marks_def)
next
  case (3 most steps s)
  obtain r s1 where read: "read_http most s = (r, s1)" by fastforce
  note m = read_marks [OF "3.prems"(1,2) read]
  note k = read_keeps_sent [OF read]
  show ?case
  proof (cases r)
    case (Inl e)
    have "session steps (snd (take_overrun s1)) = (outs, s')" using "3.prems"(4) read Inl by simp
    with "3.IH"(1) [OF read [symmetric] Inl] m "3.prems"(3) Inl k show ?thesis by auto
  next
    case (Inr xs)
    obtain outs' where o: "session steps (snd (take_overrun s1)) = (outs', s')"
      "outs = (xs, us_pending_overrun s1) # outs'"
      using "3.prems"(4) read Inr by (auto split: prod.splits)
    from "3.IH"(2) [OF read [symmetric] Inr _ _ _ o(1)] m "3.prems"(3) obtain new where
      "sent_by s' = sent_by (snd (take_overrun s1)) @ new"
      "concat (map (\<lambda>(xs, gap). marked gap xs) outs') @ pending_marks s' = pending_marks (snd (take_overrun s1)) @ item_marks new"
      by auto
    with m Inr k o(2) show ?thesis by auto
  qed
qed

lemma init_http_fresh:
  assumes "init_http_source env s0 = (Ok u, s)"
  shows "us_task s = Some reader_new \<and> us_receiver s = Some \<lparr>ic_queued = [], ic_closed = False\<rparr>
    \<and> us_buffer s = us_buffer s0 \<and> us_buffer_after_gap s = us_buffer_after_gap s0
    \<and> us_pending_overrun s = us_pending_overrun s0"
proof -
  obtain r w where c: "retry_connect (ia_connect env) = (r, w)" by fastforce
  obtain r' w' where t: "retry_connect (ia_tune env) = (r', w')" by fastforce
  show ?thesis
    using assms
    by (simp add: init_http_source_def c t log_controls_def Let_def split: sum.splits) auto
qed

lemma init_file_type: "init_file_source opened s0 = (r, s) \<Longrightarrow> us_type s = us_type s0"
  by (auto simp: init_file_source_def Let_def split: option.splits sum.splits)

lemma opened_over_http:
  assumes "unified_open exists env opened c = Ok s" "us_type s = HttpSource"
  shows "\<exists>u. init_http_source env (unified_new c HttpSource) = (Ok u, s)"
proof -
  from assms(1) obtain t where t: "(case t of
       NativeSdkSource \<Rightarrow> Err (Config ''Native SDK not available on this platform or feature not enabled'')
     | HttpSource \<Rightarrow> (case init_http_source env (unified_new c t) of (r, s) \<Rightarrow> bind_result r (\<lambda>_. Ok s))
     | FileSource \<Rightarrow> (case init_file_source opened (unified_new c t) of (r, s) \<Rightarrow> bind_result r (\<lambda>_. Ok s))) = Ok s"
    by (auto simp: unified_open_def)
  show ?thesis
  proof (cases t)
    case NativeSdkSource
    with t show ?thesis by simp
  next
    case HttpSource
    obtain r s1 where "init_http_source env (unified_new c t) = (r, s1)" by fastforce
    with t HttpSource show ?thesis by auto
  next
    case FileSource
    obtain r s1 where f: "init_file_source opened (unified_new c t) = (r, s1)" by fastforce
    with t FileSource have "us_type s = t" using init_file_type [OF f] by (auto simp: unified_new_def)
    with FileSource assms(2) show ?thesis by simp
  qed
qed


end
