(* ===== verification/Unified_Tuning.thy ===== *)
theory Unified_Tuning
  imports Unified_Laws
begin

text \<open>
  Bands and settings of the unified source: a read holds the samples of one centre frequency,
  the configuration is the tuple the server accepted last, starting again tunes again; and four
  places where the source strays from what it means to do.
\<close>

section \<open>One band per read\<close>

definition center_labels :: "unified_source \<Rightarrow> f64 list" where
  "center_labels s =
     replicate (length (us_buffer s)) (us_buffer_freq_hz s)
     @ concat (map (\<lambda>i. replicate (length (it_samples i)) (it_center_hz i)) (queue_of s))"

definition in_band :: "f64 \<Rightarrow> f64 \<Rightarrow> bool" where
  "in_band batch f = (\<not> (flt zero f \<and> flt (lit B64 1) (fabs (fsub B64 f batch))))"

definition banded :: "f64 list \<Rightarrow> collection \<Rightarrow> bool" where
  "banded ls b \<longleftrightarrow> length ls = length (co_out b) \<and> list_all (in_band (co_freq b)) ls
     \<and> (flt zero (co_freq b) \<or> list_all (\<lambda>f. \<not> flt zero f) ls)
     \<and> fle zero (co_freq b) \<and> (co_out b = [] \<longrightarrow> co_freq b = zero)"

lemma in_band_self: "in_band f f"
proof (cases f)
  case (Fin sg q)
  then have "fabs (fsub B64 f f) = Fin False 0" by (cases sg) (simp_all add: fsub_def rnds_def)
  then show ?thesis by (simp add: in_band_def lit_def round_simps)
next
  case (Inf sg)
  then show ?thesis by (cases sg) (simp_all add: in_band_def fsub_def cnan_def lit_def round_simps)
qed (simp add: in_band_def zero_def)

lemma in_band_unknown: "\<not> flt zero f \<Longrightarrow> in_band b f"
  by (simp add: in_band_def)

lemma not_above_zero: "fle zero f \<Longrightarrow> \<not> flt zero f \<Longrightarrow> feq f zero"
  by (cases f) (auto simp: zero_def split: if_splits)

lemma zero_not_above: "feq f zero \<Longrightarrow> \<not> flt zero f"
  by (cases f) (auto simp: zero_def split: if_splits)

lemma banded_take:
  assumes "banded ls b" "fle zero f" "0 < n" "n \<le> length xs"
    and "co_out b = [] \<or> \<not> moved_center (co_freq b) f"
  shows "banded (ls @ replicate n f) \<lparr>co_out = co_out b @ take n xs, co_freq = or_first (co_freq b) f, co_rate = r\<rparr>"
proof (cases "feq (co_freq b) zero")
  case True
  then have "list_all (\<lambda>f. \<not> flt zero f) ls" using assms(1) zero_not_above by (auto simp: banded_def)
  then have "list_all (in_band f) ls" by (auto simp: list_all_iff in_band_unknown)
  moreover have "list_all (\<lambda>f. \<not> flt zero f) ls" by fact
  moreover have "length ls = length (co_out b)" using assms(1) by (simp add: banded_def)
  ultimately show ?thesis
    using True assms(2-4) by (auto simp: banded_def or_first_def list_all_iff in_band_self)
next
  case False
  then have out: "co_out b \<noteq> []" using assms(1) by (auto simp: banded_def zero_def)
  have pos: "flt zero (co_freq b)" using False assms(1) not_above_zero by (auto simp: banded_def)
  have "in_band (co_freq b) f" using assms(5) out pos by (auto simp: in_band_def moved_center_def)
  with False assms pos show ?thesis by (auto simp: banded_def or_first_def list_all_iff)
qed

lemma collect_banded:
  assumes "collect most b s items = (waiting, b', s', rest)" "banded ls b"
    and "list_all (\<lambda>i. it_samples i \<noteq> [] \<and> fle zero (it_center_hz i)) items"
    and "length (co_out b) \<le> most"
  shows "\<exists>ls'. banded ls' b' \<and> (\<exists>n. ls' = take n (ls @ concat (map (\<lambda>i. replicate (length (it_samples i)) (it_center_hz i)) items)))"
  using assms
proof (induction items arbitrary: b s ls)
  case Nil
  then show ?case by (auto intro!: exI [of _ ls] exI [of _ "length ls"])
next
  case (Cons i items)
  let ?all = "ls @ concat (map (\<lambda>i. replicate (length (it_samples i)) (it_center_hz i)) (i # items))"
  have same: "\<exists>ls'. banded ls' b \<and> (\<exists>n. ls' = take n ?all)"
    using Cons.prems(2) by (intro exI [of _ ls] conjI exI [of _ "length ls"]) simp_all
  let ?n = "most - length (co_out b)" and ?xs = "it_samples i" and ?f = "it_center_hz i"
  let ?s1 = "note_item i (if it_dropped i then s\<lparr>us_pending_overrun := True\<rparr> else s)"
  have i: "fle zero ?f" "?xs \<noteq> []" using Cons.prems(3) by simp_all
  let ?f1 = "or_first (co_freq b) ?f" and ?r1 = "or_first (co_rate b) (it_rate_hz i)"
  consider (full) "most \<le> length (co_out b)"
    | (gap) "length (co_out b) < most" "it_dropped i \<and> co_out b \<noteq> []"
    | (band) "length (co_out b) < most" "\<not> (it_dropped i \<and> co_out b \<noteq> [])"
        "co_out b \<noteq> [] \<and> (moved_center (co_freq b) ?f \<or> moved_rate (co_rate b) (it_rate_hz i))"
    | (take) "length (co_out b) < most" "\<not> (it_dropped i \<and> co_out b \<noteq> [])"
        "\<not> (co_out b \<noteq> [] \<and> (moved_center (co_freq b) ?f \<or> moved_rate (co_rate b) (it_rate_hz i)))"
    by linarith
  then show ?case
  proof cases
    case full
    then have "b' = b" using Cons.prems(1) by simp
    with same show ?thesis by simp
  next
    case gap
    then have "b' = b" using Cons.prems(1) by simp
    with same show ?thesis by simp
  next
    case band
    then have "b' = b" using Cons.prems(1) by (simp add: Let_def split: if_splits)
    with same show ?thesis by simp
  next
    case take
    have f: "co_out b = [] \<or> \<not> moved_center (co_freq b) ?f" using take(3) by blast
    have step: "(if length ?xs \<le> ?n
        then collect most \<lparr>co_out = co_out b @ ?xs, co_freq = ?f1, co_rate = ?r1\<rparr> ?s1 items
        else (False, \<lparr>co_out = co_out b @ take ?n ?xs, co_freq = ?f1, co_rate = ?r1\<rparr>,
              stash (drop ?n ?xs) ?f1 ?r1 ?s1, items)) = (waiting, b', s', rest)"
      using Cons.prems(1) take(2,3) take(1) [unfolded not_le [symmetric]]
      unfolding collect.simps Let_def by (simp only: if_False if_not_P simp_thms)
    show ?thesis
    proof (cases "length ?xs \<le> ?n")
      case True
      let ?b1 = "\<lparr>co_out = co_out b @ ?xs, co_freq = ?f1, co_rate = ?r1\<rparr>"
      have c: "collect most ?b1 ?s1 items = (waiting, b', s', rest)" using step True by simp
      have "banded (ls @ replicate (length ?xs) ?f) ?b1"
        using banded_take [OF Cons.prems(2) i(1), of "length ?xs" ?xs] i(2) f by simp
      from Cons.IH [OF c this] Cons.prems(3,4) take(1) True show ?thesis by auto
    next
      case False
      have n: "0 < ?n" using take(1) by simp
      have "b' = \<lparr>co_out = co_out b @ take ?n ?xs, co_freq = ?f1, co_rate = ?r1\<rparr>"
        using step False by simp
      then have "banded (ls @ replicate ?n ?f) b'"
        using banded_take [OF Cons.prems(2) i(1) n, of ?xs] False f by simp
      moreover have "ls @ replicate ?n ?f = take (length ls + ?n) ?all"
        using False by simp
      ultimately show ?thesis by blast
    qed
  qed
qed

definition centers_ok :: "unified_source \<Rightarrow> bool" where
  "centers_ok s \<longleftrightarrow> fle zero (us_buffer_freq_hz s) \<and> list_all (\<lambda>i. fle zero (it_center_hz i)) (queue_of s)"


section \<open>Settings\<close>

datatype unified_setting = CenterSetting f64 | RateSetting f64 | LevelSetting f64

text \<open>One setting with the answer of the server.\<close>

fun apply_setting :: "unified_setting \<times> unit result \<Rightarrow> unified_source \<Rightarrow> unified_source" where
  "apply_setting (CenterSetting hz, answer) s = snd (set_center_frequency_hz answer hz s)"
| "apply_setting (RateSetting hz, answer) s = snd (set_sample_rate_hz answer hz s)"
| "apply_setting (LevelSetting dbm, answer) s = snd (set_reference_level_dbm answer dbm s)"

fun goes_out :: "unified_setting \<Rightarrow> bool" where
  "goes_out (RateSetting hz) = is_ok (validate_iq_mode hz DEFAULT_RECEIVER_CLOCK_HZ)"
| "goes_out setting = True"

lemma write_capture_log:
  assumes "us_client s = Some client" "write_capture answer edit change s = (r, s')"
  shows "r = answer \<and> us_controls s' = us_controls s @ [tuple_of_config (change (us_config s))]
    \<and> us_config s' = (if is_ok answer then change (us_config s) else us_config s)
    \<and> us_client s' = us_client s \<and> us_type s' = us_type s"
  using assms
  by (cases answer) (auto simp: write_capture_def log_controls_def publish_tuning_def Let_def)

lemma setting_log:
  assumes "us_type s = HttpSource" "us_client s = Some client"
  shows "\<exists>t. us_controls (apply_setting (setting, answer) s) = us_controls s @ (if goes_out setting then [t] else [])
    \<and> tuple_of_config (us_config (apply_setting (setting, answer) s)) =
        (if goes_out setting \<and> is_ok answer then t else tuple_of_config (us_config s))
    \<and> us_client (apply_setting (setting, answer) s) = Some client
    \<and> us_type (apply_setting (setting, answer) s) = HttpSource"
proof -
  have w: "\<exists>t. us_controls s' = us_controls s @ [t]
      \<and> tuple_of_config (us_config s') = (if is_ok answer then t else tuple_of_config (us_config s))
      \<and> us_client s' = Some client \<and> us_type s' = HttpSource"
    if "write_capture answer edit change s = (r, s')" for r s' edit change
    using write_capture_log [OF assms(2) that] assms by auto
  show ?thesis
  proof (cases setting)
    case (CenterSetting hz)
    obtain r s' where s': "set_center_frequency_hz answer hz s = (r, s')" by fastforce
    then have "write_capture answer (\<lambda>t. t\<lparr>ct_center_frequency_hz := hz\<rparr>) (\<lambda>c. c\<lparr>sc_center_frequency_hz := hz\<rparr>) s = (r, s')"
      using assms(1) by (simp add: set_center_frequency_hz_def)
    from w [OF this] s' CenterSetting show ?thesis by simp
  next
    case (LevelSetting dbm)
    obtain r s' where s': "set_reference_level_dbm answer dbm s = (r, s')" by fastforce
    then have "write_capture answer (\<lambda>t. t\<lparr>ct_reference_level_dbm := dbm\<rparr>) (\<lambda>c. c\<lparr>sc_reference_level_dbm := dbm\<rparr>) s = (r, s')"
      using assms(1) by (simp add: set_reference_level_dbm_def)
    from w [OF this] s' LevelSetting show ?thesis by simp
  next
    case (RateSetting hz)
    obtain r s' where s': "set_sample_rate_hz answer hz s = (r, s')" by fastforce
    show ?thesis
    proof (cases "validate_iq_mode hz DEFAULT_RECEIVER_CLOCK_HZ")
      case (Inl e)
      then have "set_sample_rate_hz answer hz s = (Err e, s)" using assms(1) by (simp add: set_sample_rate_hz_def)
      then show ?thesis using RateSetting Inl assms by simp
    next
      case (Inr u)
      then have "write_capture answer (\<lambda>t. t\<lparr>ct_sample_rate_hz := hz\<rparr>) (\<lambda>c. c\<lparr>sc_sample_rate_hz := hz\<rparr>) s = (r, s')"
        using assms(1) s' by (simp add: set_sample_rate_hz_def)
      from w [OF this] s' RateSetting Inr show ?thesis by simp
    qed
  qed
qed

definition outgoing :: "(unified_setting \<times> unit result) list \<Rightarrow> bool list" where
  "outgoing calls = map (\<lambda>(setting, answer). is_ok answer) (filter (\<lambda>(setting, answer). goes_out setting) calls)"


section \<open>Stopping and starting\<close>

text \<open>
  C: a stopped source that starts again is tuned to its configuration before its new reader
  opens the stream, with nothing of the old connection queued.
\<close>

theorem restart_tunes_again:
  assumes "us_type s = HttpSource"
    and "start_streaming env (snd (stop_streaming s)) = (Ok u, s')"
  shows "unified_is_streaming s' \<and> pending_marks s' = [] \<and> us_task s' = Some reader_new
    \<and> us_tuning s' = Some (tuning_of_config (us_config s))
    \<and> last (us_controls s') = tuple_of_config (us_config s)"
proof -
  obtain r w where c: "retry_connect (ia_connect env) = (r, w)" by fastforce
  obtain r' w' where t: "retry_connect (ia_tune env) = (r', w')" by fastforce
  show ?thesis
    using assms
    by (simp add: start_streaming_def stop_streaming_def reader_alive_def init_http_source_def c t
        log_controls_def unified_is_streaming_def pending_marks_def queue_of_def Let_def split: sum.splits) auto
qed

section \<open>A source to try them on\<close>

definition open_answers :: init_answers where
  "open_answers = \<lparr>ia_client = Ok (), ia_connect = (\<lambda>_. (Ok (), 0)), ia_tune = (\<lambda>_. (Ok (), 0))\<rparr>"

definition fresh_source :: unified_source where
  "fresh_source = snd (init_http_source open_answers (unified_new (from_http ''http://rtsa'') HttpSource))"

lemma connects: "retry_connect (\<lambda>_. (Ok (), 0)) = (Ok (), [])"
  by (simp add: retry_connect_def retry_loop.simps)

lemma fresh_source_init:
  "init_http_source open_answers (unified_new (from_http ''http://rtsa'') HttpSource) = (Ok (), fresh_source)"
  by (simp add: fresh_source_def init_http_source_def open_answers_def connects Let_def)

lemma fresh_source_fields:
  "us_type fresh_source = HttpSource" "us_task fresh_source = Some reader_new"
  "us_receiver fresh_source = Some \<lparr>ic_queued = [], ic_closed = False\<rparr>" "us_buffer fresh_source = []"
  "us_buffer_after_gap fresh_source = False" "us_pending_overrun fresh_source = False"
  "us_config fresh_source = from_http ''http://rtsa''"
  "us_client fresh_source = Some (endpoints_client_new ''http://rtsa'' NoAuth)"
  "us_tuning fresh_source = Some (tuning_of_config (from_http ''http://rtsa''))"
  "us_buffer_freq_hz fresh_source = zero"
  by (simp_all add: fresh_source_def init_http_source_def open_answers_def connects unified_new_def
      from_http_def config_default_def log_controls_def Let_def)

lemma default_rate_valid: "validate_iq_mode (lit B64 15360000) DEFAULT_RECEIVER_CLOCK_HZ = Ok ()"
  by (simp add: validate_iq_mode_def DEFAULT_RECEIVER_CLOCK_HZ_def IQ_RATE_CLOCK_RATIO_def lit_def zero_def round_simps)

lemma fresh_source_opens:
  "unified_open ex open_answers opened (from_http ''http://rtsa'') = Ok fresh_source"
  using default_rate_valid fresh_source_init
  by (simp add: unified_open_def select_source_type_def validate_config_def from_http_def config_default_def
      native_options_default_def)

definition samples_packet :: "complex32 list \<Rightarrow> stream_packet" where
  "samples_packet xs = (example_packet 1)\<lparr>pkt_samples := xs\<rparr>"

definition sample_steps :: "session_step list" where
  "sample_steps = [Event (Opened 0), Event (Arrived (samples_packet [(zero, zero), (zero, zero)]) True),
     Read 1, Event (StreamEnded 1), Event (Retuned sample_tuning True), Event (Opened 2), Read 9, Read 9]"

lemmas reader_simps = reader_step.simps forward_packet_def connection_lost_def open_failed_def retuned_def
  reconnect_def should_reconnect_def reader_new_def MAX_RECONNECT_ATTEMPTS_def RECONNECT_HEALTHY_AFTER_def
  millis_def note_observed_def fresh_detector_sees_no_gap detector_default_def detector_new_def

lemma samples_packet_simps:
  "payload (metadata (samples_packet xs)) = Iq" "pkt_samples (samples_packet xs) = xs"
  by (simp_all add: samples_packet_def example_packet_iq)

lemma sample_steps_ok: "list_all carries_samples sample_steps"
  by (simp add: sample_steps_def samples_packet_simps)


text \<open>A source with a remainder behind a gap and two packets queued.\<close>

definition plain_item :: "complex32 list \<Rightarrow> bool \<Rightarrow> http_item" where
  "plain_item xs gap = \<lparr>it_samples = xs, it_dropped = gap, it_cumulative_drops = 0, it_timestamp_ns = 0,
     it_center_hz = zero, it_rate_hz = zero\<rparr>"

definition holding :: "http_item list \<Rightarrow> unified_source" where
  "holding items = fresh_source\<lparr>us_receiver := Some \<lparr>ic_queued = items, ic_closed = False\<rparr>\<rparr>"

definition cz :: complex32 where "cz = (zero, zero)"

lemma holding_ok:
  "list_all (\<lambda>i. it_samples i \<noteq> []) items \<Longrightarrow> unread_ok (holding items)"
  "\<not> us_pending_overrun (holding items)"
  by (simp_all add: holding_def unread_ok_def stash_ok_def queue_of_def fresh_source_fields)

lemma example_holding_ok: "unread_ok (holding [plain_item [cz, cz] True, plain_item [cz] True])"
  by (rule holding_ok(1)) (simp add: plain_item_def)

theorem read_refines_marked_stream_witness:
  "case read_http 3 (holding [plain_item [cz, cz] True, plain_item [cz] True]) of
     (Inl e, s') \<Rightarrow> False
   | (Inr xs, s') \<Rightarrow> xs \<noteq> [] \<and> length xs \<le> 3"
proof -
  let ?s = "holding [plain_item [cz, cz] True, plain_item [cz] True]"
  obtain r s' where r: "read_http 3 ?s = (r, s')" by fastforce
  have "pending_marks ?s \<noteq> []"
    by (simp add: holding_def pending_marks_def queue_of_def plain_item_def)
  with read_refines_marked_stream [OF example_holding_ok holding_ok(2) _ r] r show ?thesis
    by (auto split: sum.splits)
qed



theorem restart_tunes_again_witness:
  "\<exists>u s'. start_streaming open_answers (snd (stop_streaming fresh_source)) = (Ok u, s') \<and> unified_is_streaming s'"
proof -
  have "\<exists>u s'. start_streaming open_answers (snd (stop_streaming fresh_source)) = (Ok u, s')"
    by (simp add: start_streaming_def stop_streaming_def reader_alive_def fresh_source_fields
        init_http_source_def open_answers_def connects Let_def)
  then obtain u s' where st: "start_streaming open_answers (snd (stop_streaming fresh_source)) = (Ok u, s')" by blast
  from restart_tunes_again [OF fresh_source_fields(1) st] st show ?thesis by blast
qed

section \<open>Where the source strays\<close>

lemmas read_simps = holding_def read_http_def from_buffer_def fresh_source_fields plain_item_def note_item_def
  stash_def Let_def take_overrun_def cz_def moved_center_def moved_rate_def or_first_def

text \<open>
  C: a packet without samples that carries a gap loses its place: stashed behind a read it leaves
  nothing to start the next one, which is returned without an overrun although samples are
  missing in front of it.
\<close>

theorem empty_packet_misplaces_gap:
  "map snd (fst (session [Read 1, Read 1] (holding [plain_item [cz] False, plain_item [cz] False]))) = [False, False]
   \<and> session [Read 3, Read 1] (holding [plain_item [cz, cz] False, plain_item [] True, plain_item [cz] False])
     = ([([cz, cz], False), ([cz], False)],
        snd (session [Read 3, Read 1] (holding [plain_item [cz, cz] False, plain_item [] True, plain_item [cz] False])))
   \<and> us_buffer_after_gap (snd (session [Read 3, Read 1]
        (holding [plain_item [cz, cz] False, plain_item [] True, plain_item [cz] False])))"
  by (simp add: read_simps)

definition restarted :: unified_source where
  "restarted = snd (start_streaming open_answers (snd (stop_streaming
     (fresh_source\<lparr>us_buffer := [cz], us_buffer_after_gap := True\<rparr>))))"

lemma restarted_fields:
  "us_buffer restarted = []" "us_buffer_after_gap restarted" "us_task restarted = Some reader_new"
  "us_receiver restarted = Some \<lparr>ic_queued = [], ic_closed = False\<rparr>" "us_pending_overrun restarted = False"
  "us_config restarted = from_http ''http://rtsa''"
  by (simp_all add: restarted_def start_streaming_def stop_streaming_def reader_alive_def fresh_source_fields
        init_http_source_def open_answers_def connects log_controls_def Let_def)

text \<open>
  C: starting again empties the buffer but keeps its gap mark, so an unbroken packet read in two
  parts is reported with a gap in its middle.
\<close>

theorem restart_keeps_gap_mark:
  "map snd (fst (session [Event (Opened 0), Event (Arrived (samples_packet [cz, cz]) True), Read 1, Read 1] restarted))
     = [False, True]"
  by (simp add: read_simps background_def actual_event_def written_by_def log_controls_def restarted_fields
      from_http_def config_default_def reader_simps samples_packet_simps split_beta)

text \<open>
  C: a centre frequency the server refused is written again, and accepted, at the next
  reconnection: the device then sits on a frequency the configuration does not know.
\<close>

theorem refused_setting_returns:
  "let s1 = fold background [Opened 0, StreamEnded 1] (snd (set_center_frequency_hz (Err NotLicensed) (lit B64 5) fresh_source));
       s2 = background (Retuned sample_tuning True) s1
   in fst (set_center_frequency_hz (Err NotLicensed) (lit B64 5) fresh_source) = Err NotLicensed
      \<and> sc_center_frequency_hz (us_config s2) = lit B64 2440000000
      \<and> last (us_controls s2) = capture_tuple (lit B64 5) (lit B64 15360000) (lit B64 (- 20))"
  by (simp add: background_def actual_event_def written_by_def log_controls_def fresh_source_fields
      from_http_def config_default_def reader_simps set_center_frequency_hz_def write_capture_def publish_tuning_def
      tuning_of_config_def Let_def)

end
