(* ===== verification/Spec2Isabelle.thy ===== *)
theory Spec2Isabelle
  imports Prelude Softfloat Decompression Rice_Code Text Ladder Utils Float_Bits Stream_Format
    Header_Scan Scan_Growth Payload_Decode Stream_Parser Framing Stream_Chunking Drop_Detector Link_Budget
    Stream_Break Break_Queue Break_Contract Capabilities Config_Tree Endpoints
    Http_Source Source_Contract Source_Run File_Parse File_Laws Metadata_Laws
    Unified_Tuning
begin

text \<open>
  The crate \<open>sdr-aaronia-rs\<close>: receiving IQ samples from Aaronia RTSA servers.

  The program and its parts. An RTSA server sends a stream of packets, a JSON header and a
  binary payload each. The stream parser (\<open>src/src/http_streaming.rs\<close>) frames and decodes
  them; the source block (\<open>src/src/http_source.rs\<close>) queues the IQ samples, hands them to a
  flowgraph and reports every discontinuity (\<open>src/src/stream_break.rs\<close>) at the index of the
  first sample behind it; the drop detector finds what the server left out; the link budget
  (\<open>src/src/link_budget.rs\<close>) tells whether the path carries the stream; the endpoints client
  (\<open>src/src/http_endpoints.rs\<close>) configures the device and reads its health; capture files hold
  compressed coefficients (\<open>src/src/decompression.rs\<close>); and \<open>src/src/utils.rs\<close>,
  \<open>src/src/stream_geometry.rs\<close> and \<open>src/src/capabilities.rs\<close> compute rates, spans and
  limits.

  The theories.
  \<^item> \<open>Prelude\<close>: the error type of \<open>src/src/error.rs\<close>, results as sums, the saturating, checked and
    wrapping arithmetic of \<open>usize\<close>, slices, little-endian integers.
  \<^item> \<open>Softfloat\<close>, \<open>Float_Bits\<close>: IEEE-754 numbers as exact rationals with infinities and NaNs,
    rounded to nearest even after each operation, and their bit patterns.
  \<^item> \<open>Text\<close>: the string functions and the number parser the crate uses.
  \<^item> \<open>Decompression\<close>, \<open>Rice_Code\<close>: the 64-bit reservoir reader, the Rice decoder, the dequantiser
    and the inverse wavelet transform; the reader refines a plain list decoder, the decoder
    inverts the documented code, the whole returns on every input.
  \<^item> \<open>Ladder\<close>, \<open>Utils\<close>: receiver clocks and the decimation ladder with its searches, rate checks,
    epochs, frequency strings, packet geometry and the two-channel deinterleaver.
  \<^item> \<open>Stream_Format\<close>, \<open>Header_Scan\<close>, \<open>Scan_Growth\<close>, \<open>Payload_Decode\<close>, \<open>Stream_Parser\<close>: formats, metadata
    and packets; the header scan and what a longer buffer changes of it; payload sizes and
    decoding; the parser's state and entry points.
  \<^item> \<open>Framing\<close>, \<open>Stream_Chunking\<close>: an incremental framing as a locale, interpreted on the parser:
    feeding a stream in any chunks gives the items of feeding it whole; well-formed streams parse
    to their packets.
  \<^item> \<open>Drop_Detector\<close>, \<open>Link_Budget\<close>: the adaptive gap detector; byte rates, verdicts, the throughput
    meter, the header sniffer (a second interpretation of the framing) and the probe.
  \<^item> \<open>Stream_Break\<close>, \<open>Break_Queue\<close>, \<open>Break_Contract\<close>: the sink interface as a locale with the
    crate's sink as its interpretation; the operations on pending breaks; the contract of the
    module, proved over every history of a queue.
  \<^item> \<open>Capabilities\<close>, \<open>Config_Tree\<close>, \<open>Endpoints\<close>: declared limits and options; the configuration
    tree and the readings taken from it; the client's checks, stream parameters and confirmed
    writes, against a server that is a parameter.
  \<^item> \<open>Http_Source\<close>, \<open>Source_Contract\<close>, \<open>Source_Run\<close>: the block's state (a record that extends the
    break queue) and operations; the locale of predicates that survive the block's primitive
    steps, interpreted on the order of breaks, the bound of the buffer, the writes to the device
    and the link check; and the properties of a source's whole life.

  Correspondence. Definitions keep the names of the functions and fields they model, with a
  prefix where two structs share a field name. A \<open>usize\<close> or \<open>u64\<close> is a natural number with the
  saturation, check or wrap of the code written out; signed words are integers; \<open>f32\<close> and
  \<open>f64\<close> are rounded rationals. Errors are kept up to the first interpolated value of their
  message. Instants and durations are nanoseconds.

  Bounds. Counters of processed bytes and packets, and the count of samples handed over, are
  unbounded. The clock is read once for each chunk and sweep of the source. No definition
  needs fuel: the loops of the code are recursions on a buffer or a count that shrinks, and the
  bound of sixteen sweeps in one call of \<open>work\<close> is the code's own.

  Parameters. The JSON reader (serde_json), the half-float conversion (half), URL parsing and
  query encoding (url), the printing of floating-point numbers, the answers of the server, the
  arrivals on the chunk channel (tokio, reqwest) and the clock.

  Not modelled: log output; the file source, the native SDK client and its blocks, the sinks,
  the unified facade, detection, and the bindings for C, Python and seify. Of these, the chunk
  parsing and indexing of capture files, the packing of the HTTP sink and the routing of the
  unified source are planned next.
\<close>

end
